(* ===== verification/Prelude.thy ===== *)
theory Prelude
  imports Main "HOL-Library.Word" "HOL-Library.Sublist"
begin

text \<open>
  Shared vocabulary of the development: machine integers, Rust's outcome of a computation
  (a value, an error, or a panic), slice indexing and big-endian field encodings.

  A Rust expression that may panic (\<^verbatim>\<open>xs[i]\<close>, \<^verbatim>\<open>xs[a..b]\<close>, \<^verbatim>\<open>copy_from_slice\<close>) is modelled by a
  function into \<open>('e, 'a) result\<close> whose \<open>Panic\<close> branch is the panic, so that "this code never
  panics" is a theorem about the model and not an assumption of it. Checked accesses
  (\<^verbatim>\<open>xs.get(i)\<close>, \<^verbatim>\<open>xs.get(a..b)\<close>) return an option, as in the source.

  \<^verbatim>\<open>usize\<close> values are natural numbers; \<open>checked_add\<close> keeps the 64-bit overflow branch of
  \<^verbatim>\<open>usize::checked_add\<close>. Bytes and wire fields keep their width: \<open>u8\<close>, \<open>u16\<close>, \<open>u32\<close>.
\<close>

unbundle bit_operations_syntax

named_theorems panic_free "facts that rule out the panic branch of an operation"
named_theorems outcome "inversion of outcomes and slice accesses"
named_theorems wire_simps "evaluation of byte-level encodings and slices"

section \<open>Machine integers\<close>

type_synonym u8 = "8 word"
type_synonym u16 = "16 word"
type_synonym u32 = "32 word"

abbreviation usize_max :: nat where
  "usize_max \<equiv> 18446744073709551615"

definition checked_add :: "nat \<Rightarrow> nat \<Rightarrow> nat option" where
  "checked_add a b = (if a + b \<le> usize_max then Some (a + b) else None)"

text \<open>\<^verbatim>\<open>u16::from_be_bytes\<close>, \<^verbatim>\<open>u32::from_be_bytes\<close> and the two \<^verbatim>\<open>to_be_bytes\<close>.\<close>

definition u16_from_be_bytes :: "u8 \<Rightarrow> u8 \<Rightarrow> u16" where
  "u16_from_be_bytes a b = of_nat (256 * unat a + unat b)"

definition u16_to_be_bytes :: "u16 \<Rightarrow> u8 list" where
  "u16_to_be_bytes w = [of_nat (unat w div 256), of_nat (unat w mod 256)]"

definition u32_from_be_bytes :: "u8 \<Rightarrow> u8 \<Rightarrow> u8 \<Rightarrow> u8 \<Rightarrow> u32" where
  "u32_from_be_bytes a b c d =
     of_nat (16777216 * unat a + 65536 * unat b + 256 * unat c + unat d)"

definition u32_to_be_bytes :: "u32 \<Rightarrow> u8 list" where
  "u32_to_be_bytes w =
     [of_nat (unat w div 16777216), of_nat (unat w div 65536 mod 256),
      of_nat (unat w div 256 mod 256), of_nat (unat w mod 256)]"

section \<open>Outcomes of a Rust computation\<close>

datatype ('e, 'a) result = Ok 'a | Err 'e | Panic

text \<open>The \<^verbatim>\<open>?\<close> operator: continue with the value, propagate an error or a panic.\<close>

fun rbind :: "('e, 'a) result \<Rightarrow> ('a \<Rightarrow> ('e, 'b) result) \<Rightarrow> ('e, 'b) result" where
  "rbind (Ok x) f = f x"
| "rbind (Err e) f = Err e"
| "rbind Panic f = Panic"

fun map_err :: "('e \<Rightarrow> 'f) \<Rightarrow> ('e, 'a) result \<Rightarrow> ('f, 'a) result" where
  "map_err g (Ok x) = Ok x"
| "map_err g (Err e) = Err (g e)"
| "map_err g Panic = Panic"

fun ok_or :: "'e \<Rightarrow> 'a option \<Rightarrow> ('e, 'a) result" where
  "ok_or e None = Err e"
| "ok_or e (Some x) = Ok x"

section \<open>Slices\<close>

text \<open>\<^verbatim>\<open>xs.get(i)\<close> and \<^verbatim>\<open>xs.get(a..b)\<close>.\<close>

definition get :: "'a list \<Rightarrow> nat \<Rightarrow> 'a option" where
  "get xs i = (if i < length xs then Some (xs ! i) else None)"

definition get_range :: "'a list \<Rightarrow> nat \<Rightarrow> nat \<Rightarrow> 'a list option" where
  "get_range xs a b = (if a \<le> b \<and> b \<le> length xs then Some (take (b - a) (drop a xs)) else None)"

text \<open>\<^verbatim>\<open>xs[i]\<close>, \<^verbatim>\<open>xs[a..b]\<close> and \<^verbatim>\<open>xs[a..a + n].copy_from_slice(ys)\<close> with \<open>n = ys.len()\<close>.\<close>

definition index :: "'a list \<Rightarrow> nat \<Rightarrow> ('e, 'a) result" where
  "index xs i = (if i < length xs then Ok (xs ! i) else Panic)"

definition slice :: "'a list \<Rightarrow> nat \<Rightarrow> nat \<Rightarrow> ('e, 'a list) result" where
  "slice xs a b = (if a \<le> b \<and> b \<le> length xs then Ok (take (b - a) (drop a xs)) else Panic)"

definition copy_at :: "'a list \<Rightarrow> nat \<Rightarrow> 'a list \<Rightarrow> ('e, 'a list) result" where
  "copy_at xs a ys =
     (if a + length ys \<le> length xs then Ok (take a xs @ ys @ drop (a + length ys) xs) else Panic)"

section \<open>Lemmas on outcomes\<close>

lemma rbind_cong [fundef_cong]:
  "m = m' \<Longrightarrow> (\<And>x. m' = Ok x \<Longrightarrow> f x = g x) \<Longrightarrow> rbind m f = rbind m' g"
  by (cases m') auto

lemma rbind_eq_Ok [outcome]: "rbind m f = Ok y \<longleftrightarrow> (\<exists>x. m = Ok x \<and> f x = Ok y)"
  by (cases m) auto

lemma rbind_eq_Panic [outcome]: "rbind m f = Panic \<longleftrightarrow> m = Panic \<or> (\<exists>x. m = Ok x \<and> f x = Panic)"
  by (cases m) auto

lemma rbind_eq_Err [outcome]: "rbind m f = Err e \<longleftrightarrow> m = Err e \<or> (\<exists>x. m = Ok x \<and> f x = Err e)"
  by (cases m) auto

lemma rbind_assoc: "rbind (rbind m f) g = rbind m (\<lambda>x. rbind (f x) g)"
  by (cases m) auto

lemma map_err_eq_Ok [outcome]: "map_err g m = Ok x \<longleftrightarrow> m = Ok x"
  by (cases m) auto

lemma map_err_eq_Panic [outcome]: "map_err g m = Panic \<longleftrightarrow> m = Panic"
  by (cases m) auto

lemma map_err_eq_Err [outcome]: "map_err g m = Err e \<longleftrightarrow> (\<exists>d. m = Err d \<and> e = g d)"
  by (cases m) auto

lemma ok_or_eq_Ok [outcome]: "ok_or e m = Ok x \<longleftrightarrow> m = Some x"
  by (cases m) auto

lemma ok_or_not_Panic [simp, panic_free]: "ok_or e m \<noteq> Panic"
  by (cases m) auto

lemma ok_or_eq_Err [outcome]: "ok_or e m = Err d \<longleftrightarrow> m = None \<and> d = e"
  by (cases m) auto

section \<open>Lemmas on slices\<close>

lemma checked_add_eq_Some [outcome]: "checked_add a b = Some c \<longleftrightarrow> c = a + b \<and> a + b \<le> usize_max"
  by (auto simp: checked_add_def)

lemma get_eq_Some [outcome]: "get xs i = Some x \<longleftrightarrow> i < length xs \<and> x = xs ! i"
  by (auto simp: get_def)

lemma get_eq_None [outcome]: "get xs i = None \<longleftrightarrow> length xs \<le> i"
  by (auto simp: get_def)

lemma get_range_eq_Some [outcome]:
  "get_range xs a b = Some ys \<longleftrightarrow> a \<le> b \<and> b \<le> length xs \<and> ys = take (b - a) (drop a xs)"
  by (auto simp: get_range_def)

lemma length_get_range: "get_range xs a b = Some ys \<Longrightarrow> length ys = b - a"
  by (auto simp: get_range_eq_Some)

lemma index_eq_Ok [outcome]: "index xs i = Ok x \<longleftrightarrow> i < length xs \<and> x = xs ! i"
  by (auto simp: index_def)

lemma index_eq_Panic [outcome]: "index xs i = Panic \<longleftrightarrow> length xs \<le> i"
  by (auto simp: index_def)

lemma index_not_Err [simp]: "index xs i \<noteq> Err e"
  by (auto simp: index_def)

lemma slice_eq_Ok [outcome]:
  "slice xs a b = Ok ys \<longleftrightarrow> a \<le> b \<and> b \<le> length xs \<and> ys = take (b - a) (drop a xs)"
  by (auto simp: slice_def)

lemma slice_eq_Panic [outcome]: "slice xs a b = Panic \<longleftrightarrow> \<not> (a \<le> b \<and> b \<le> length xs)"
  by (auto simp: slice_def)

lemma slice_not_Err [simp]: "slice xs a b \<noteq> Err e"
  by (auto simp: slice_def)

lemma copy_at_eq_Ok [outcome]:
  "copy_at xs a ys = Ok zs \<longleftrightarrow>
     a + length ys \<le> length xs \<and> zs = take a xs @ ys @ drop (a + length ys) xs"
  by (auto simp: copy_at_def)

lemma copy_at_eq_Panic [outcome]: "copy_at xs a ys = Panic \<longleftrightarrow> \<not> a + length ys \<le> length xs"
  by (auto simp: copy_at_def)

lemma copy_at_not_Err [simp]: "copy_at xs a ys \<noteq> Err e"
  by (auto simp: copy_at_def)

lemma length_copy_at: "copy_at xs a ys = Ok zs \<Longrightarrow> length zs = length xs"
  by (auto simp: outcome)

text \<open>Reading at an offset that lies beyond a known prefix.\<close>

lemma get_append_right [wire_simps]:
  "length pre \<le> i \<Longrightarrow> get (pre @ xs) i = get xs (i - length pre)"
  by (auto simp: get_def nth_append)

lemma get_range_append_right [wire_simps]:
  "length pre \<le> a \<Longrightarrow> length pre \<le> b \<Longrightarrow>
     get_range (pre @ xs) a b = get_range xs (a - length pre) (b - length pre)"
  by (auto simp: get_range_def)

lemma get_range_prefix [wire_simps]:
  "n = length xs \<Longrightarrow> get_range (xs @ ys) 0 n = Some xs"
  by (simp add: get_range_def)

text \<open>What a parser at offset \<open>p\<close> sees, given the bytes that follow the offset.\<close>

lemma drop_head [wire_simps]:
  assumes "drop p w = x # xs"
  shows "get w p = Some x" and "drop (p + 1) w = xs" and "p < length w"
proof -
  show "p < length w"
    using assms by (metis drop_all linorder_not_less list.distinct(1))
  then show "get w p = Some x"
    using assms by (auto simp: get_def Cons_nth_drop_Suc [symmetric])
  show "drop (p + 1) w = xs"
    using assms by (metis Suc_eq_plus1 drop_Suc drop_tl list.sel(3))
qed

lemma drop_prefix [wire_simps]:
  assumes "drop p w = ys @ xs" and "q = p + length ys" and "p \<le> length w"
  shows "get_range w p q = Some ys" and "drop q w = xs" and "q \<le> length w"
proof -
  have "length (drop p w) = length ys + length xs"
    using assms(1) by simp
  then show "q \<le> length w" using assms(2,3) by simp
  then show "get_range w p q = Some ys"
    using assms(1,2) by (simp add: get_range_def)
  show "drop q w = xs"
    using assms(1,2) by (metis add.commute append_eq_conv_conj drop_drop)
qed

section \<open>Lemmas on big-endian fields\<close>

lemma unat_u8_bound: "unat (b :: u8) < 256"
  using unsigned_less [of b] by simp

lemma unat_u16_bound: "unat (w :: u16) < 65536"
  using unsigned_less [of w] by simp

lemma unat_u32_bound: "unat (w :: u32) < 4294967296"
  using unsigned_less [of w] by simp

lemma unat_of_nat_u8 [simp]: "n < 256 \<Longrightarrow> unat (of_nat n :: u8) = n"
  by (simp add: unat_of_nat)

lemma unat_of_nat_u16 [simp]: "n < 65536 \<Longrightarrow> unat (of_nat n :: u16) = n"
  by (simp add: unat_of_nat)

lemma unat_u16_from_be: "unat (u16_from_be_bytes a b) = 256 * unat a + unat b"
  unfolding u16_from_be_bytes_def
  using unat_u8_bound [of a] unat_u8_bound [of b] by (intro unat_of_nat_u16) linarith

lemma length_u16_to_be [simp]: "length (u16_to_be_bytes w) = 2"
  by (simp add: u16_to_be_bytes_def)

lemma length_u32_to_be [simp]: "length (u32_to_be_bytes w) = 4"
  by (simp add: u32_to_be_bytes_def)

lemma u16_be_roundtrip:
  "u16_from_be_bytes (of_nat (unat w div 256)) (of_nat (unat w mod 256)) = w"
proof -
  have "unat w div 256 < 256"
    using unat_u16_bound [of w] by (simp add: less_mult_imp_div_less)
  then show ?thesis by (simp add: u16_from_be_bytes_def)
qed

lemma u16_from_to_be [simp]: "u16_from_be_bytes (u16_to_be_bytes w ! 0) (u16_to_be_bytes w ! 1) = w"
  by (simp add: u16_to_be_bytes_def u16_be_roundtrip)

lemma u16_to_from_be: "u16_to_be_bytes (u16_from_be_bytes a b) = [a, b]"
  using unat_u8_bound [of b] by (simp add: u16_to_be_bytes_def unat_u16_from_be)

lemma u32_div_split:
  "16777216 * (n div 16777216) + 65536 * (n div 65536 mod 256)
     + 256 * (n div 256 mod 256) + n mod 256 = (n :: nat)"
proof -
  have a: "n div 65536 = n div 256 div 256" "n div 16777216 = n div 256 div 256 div 256"
    by (simp_all flip: div_mult2_eq)
  have b: "m = 256 * (m div 256) + m mod 256" for m :: nat
    by simp
  show ?thesis
    using b [of n] b [of "n div 256"] b [of "n div 256 div 256"] unfolding a by linarith
qed

lemma u32_be_roundtrip:
  "u32_from_be_bytes (of_nat (unat w div 16777216)) (of_nat (unat w div 65536 mod 256))
     (of_nat (unat w div 256 mod 256)) (of_nat (unat w mod 256)) = w"
proof -
  have "unat w div 16777216 < 256"
    using unat_u32_bound [of w] by (simp add: less_mult_imp_div_less)
  then show ?thesis
    by (simp add: u32_from_be_bytes_def u32_div_split del: of_nat_add of_nat_mult)
qed


section \<open>Invariants of transition systems\<close>

text \<open>The contract that a concurrent component discharges once, with an invariant of its steps.\<close>

locale step_invariant =
  fixes initial :: "'s \<Rightarrow> bool" and step :: "'s \<Rightarrow> 's \<Rightarrow> bool" and inv :: "'s \<Rightarrow> bool"
  assumes inv_initial: "initial s \<Longrightarrow> inv s"
    and inv_step: "step s s' \<Longrightarrow> inv s \<Longrightarrow> inv s'"
begin

lemma inv_steps: "step\<^sup>*\<^sup>* s s' \<Longrightarrow> inv s \<Longrightarrow> inv s'"
  by (induction rule: rtranclp_induct) (simp_all add: inv_step)

lemma inv_reachable: "step\<^sup>*\<^sup>* s s' \<Longrightarrow> initial s \<Longrightarrow> inv s'"
  using inv_steps inv_initial by blast

end

end
