(* ===== verification/Dns_Types.thy ===== *)
theory Dns_Types
  imports Prelude
begin

text \<open>
  DNS field values (\<^verbatim>\<open>src/dns/types.rs\<close>) and structural protocol errors (\<^verbatim>\<open>src/dns/error.rs\<close>).

  Each code enumeration of the source is a datatype with the same variants and an \<open>Unknown\<close>
  variant carrying the numeric code. The locale \<open>wire_code\<close> states what the rest of the
  program relies on: decoding a wire code and encoding it again gives the code back, so an
  unrecognised code survives. It is interpreted for response codes, record types and classes.
\<close>

section \<open>Errors\<close>

datatype parse_error =
    UnexpectedEnd | OversizedMessage | InvalidLabel | NameTooLong | InvalidPointer
  | CompressionLoop | CompressionDepth | InvalidCount | InvalidRecord | InvalidEdns
  | TrailingData

fun parse_error_display :: "parse_error \<Rightarrow> string" where
  "parse_error_display UnexpectedEnd = ''truncated DNS field''"
| "parse_error_display OversizedMessage = ''DNS message exceeds 65535 bytes''"
| "parse_error_display InvalidLabel = ''invalid DNS label encoding''"
| "parse_error_display NameTooLong = ''DNS name exceeds 255 wire bytes''"
| "parse_error_display InvalidPointer = ''invalid DNS compression pointer''"
| "parse_error_display CompressionLoop = ''DNS compression pointer cycle''"
| "parse_error_display CompressionDepth = ''DNS compression chain exceeds 128 pointers''"
| "parse_error_display InvalidCount = ''DNS section count cannot fit in message''"
| "parse_error_display InvalidRecord = ''invalid DNS resource record data''"
| "parse_error_display InvalidEdns = ''invalid, misplaced or duplicate OPT record''"
| "parse_error_display TrailingData = ''trailing bytes after DNS sections''"

section \<open>Limits of the protocol boundary\<close>

definition HEADER_LENGTH :: nat where [simp]: "HEADER_LENGTH = 12"
definition MAX_MESSAGE_LENGTH :: nat where [simp]: "MAX_MESSAGE_LENGTH = 65535"
definition CLASSIC_UDP_LENGTH :: nat where [simp]: "CLASSIC_UDP_LENGTH = 512"
definition SERVER_UDP_LENGTH :: nat where [simp]: "SERVER_UDP_LENGTH = 1232"

section \<open>Field values\<close>

datatype transaction_id = TransactionId u16

datatype message_type = MessageQuery | MessageResponse

datatype opcode =
    Opcode_Query | Opcode_IQuery | Opcode_Status | Opcode_Notify | Opcode_Update
  | Opcode_Unknown u8

definition opcode_from_wire :: "u8 \<Rightarrow> opcode" where
  "opcode_from_wire n =
     (if n = 0 then Opcode_Query else if n = 1 then Opcode_IQuery
      else if n = 2 then Opcode_Status else if n = 4 then Opcode_Notify
      else if n = 5 then Opcode_Update else Opcode_Unknown n)"

datatype response_code =
    NoError | FormatError | ServerFailure | NameError | NotImplemented | Refused
  | BadVersion | BadCookie | Rcode_Unknown u16

definition response_code_from_wire :: "u16 \<Rightarrow> response_code" where
  "response_code_from_wire n =
     (if n = 0 then NoError else if n = 1 then FormatError
      else if n = 2 then ServerFailure else if n = 3 then NameError
      else if n = 4 then NotImplemented else if n = 5 then Refused
      else if n = 16 then BadVersion else if n = 23 then BadCookie
      else Rcode_Unknown n)"

fun response_code_wire :: "response_code \<Rightarrow> u16" where
  "response_code_wire NoError = 0"
| "response_code_wire FormatError = 1"
| "response_code_wire ServerFailure = 2"
| "response_code_wire NameError = 3"
| "response_code_wire NotImplemented = 4"
| "response_code_wire Refused = 5"
| "response_code_wire BadVersion = 16"
| "response_code_wire BadCookie = 23"
| "response_code_wire (Rcode_Unknown n) = n"

datatype header_response_code = HeaderResponseCode u8

definition FORMAT_ERROR :: header_response_code where
  "FORMAT_ERROR = HeaderResponseCode 1"

fun as_response :: "header_response_code \<Rightarrow> response_code" where
  "as_response (HeaderResponseCode n) = response_code_from_wire (ucast n)"

datatype record_type =
    Type_A | Type_Ns | Type_Cname | Type_Soa | Type_Ptr | Type_Mx | Type_Txt | Type_Aaaa
  | Type_Srv | Type_Opt | Type_Sig | Type_Tkey | Type_Tsig | Type_Ixfr | Type_Axfr | Type_Any
  | Type_Unknown u16

definition record_type_from_wire :: "u16 \<Rightarrow> record_type" where
  "record_type_from_wire n =
     (if n = 1 then Type_A else if n = 2 then Type_Ns
      else if n = 5 then Type_Cname else if n = 6 then Type_Soa
      else if n = 12 then Type_Ptr else if n = 15 then Type_Mx
      else if n = 16 then Type_Txt else if n = 24 then Type_Sig
      else if n = 28 then Type_Aaaa else if n = 33 then Type_Srv
      else if n = 41 then Type_Opt else if n = 249 then Type_Tkey
      else if n = 250 then Type_Tsig else if n = 251 then Type_Ixfr
      else if n = 252 then Type_Axfr else if n = 255 then Type_Any
      else Type_Unknown n)"

fun record_type_wire :: "record_type \<Rightarrow> u16" where
  "record_type_wire Type_A = 1"
| "record_type_wire Type_Ns = 2"
| "record_type_wire Type_Cname = 5"
| "record_type_wire Type_Soa = 6"
| "record_type_wire Type_Ptr = 12"
| "record_type_wire Type_Mx = 15"
| "record_type_wire Type_Txt = 16"
| "record_type_wire Type_Sig = 24"
| "record_type_wire Type_Aaaa = 28"
| "record_type_wire Type_Srv = 33"
| "record_type_wire Type_Opt = 41"
| "record_type_wire Type_Tkey = 249"
| "record_type_wire Type_Tsig = 250"
| "record_type_wire Type_Ixfr = 251"
| "record_type_wire Type_Axfr = 252"
| "record_type_wire Type_Any = 255"
| "record_type_wire (Type_Unknown n) = n"

datatype record_class = Class_In | Class_Ch | Class_Hs | Class_Unknown u16

definition record_class_from_wire :: "u16 \<Rightarrow> record_class" where
  "record_class_from_wire n =
     (if n = 1 then Class_In else if n = 3 then Class_Ch
      else if n = 4 then Class_Hs else Class_Unknown n)"

fun record_class_wire :: "record_class \<Rightarrow> u16" where
  "record_class_wire Class_In = 1"
| "record_class_wire Class_Ch = 3"
| "record_class_wire Class_Hs = 4"
| "record_class_wire (Class_Unknown n) = n"

section \<open>Wire codes\<close>

text \<open>
  The contract of a wire code: \<open>wire\<close> is a left inverse of \<open>from_wire\<close>. A value is
  \<^emph>\<open>canonical\<close> when it is the decoding of some code; \<open>Unknown 1\<close> is not.
\<close>

locale wire_code =
  fixes from_wire :: "u16 \<Rightarrow> 'c" and wire :: "'c \<Rightarrow> u16"
  assumes wire_from_wire: "wire (from_wire n) = n"
begin

lemma from_wire_inject: "from_wire m = from_wire n \<longleftrightarrow> m = n"
  by (metis wire_from_wire)

lemma canonical_iff: "c \<in> range from_wire \<longleftrightarrow> from_wire (wire c) = c"
  by (metis rangeE rangeI wire_from_wire)

lemma relay_unchanged: "u16_to_be_bytes (wire (from_wire (u16_from_be_bytes a b))) = [a, b]"
  by (simp add: wire_from_wire u16_to_from_be)

end

interpretation rcode: wire_code response_code_from_wire response_code_wire
  by unfold_locales (simp add: response_code_from_wire_def)

interpretation rtype: wire_code record_type_from_wire record_type_wire
  by unfold_locales (simp add: record_type_from_wire_def)

interpretation rclass: wire_code record_class_from_wire record_class_wire
  by unfold_locales (simp add: record_class_from_wire_def)

declare rcode.wire_from_wire [simp] rtype.wire_from_wire [simp] rclass.wire_from_wire [simp]

end
