(* ===== verification/Dns_Name.thy ===== *)
theory Dns_Name
  imports Dns_Types
begin

text \<open>
  Domain names (\<^verbatim>\<open>src/dns/name.rs\<close>): bounded decoding of possibly compressed wire names,
  uncompressed encoding, ASCII case-insensitive comparison and suffix matching by complete
  labels, the configuration syntax (\<open>from_str\<close>) and the presentation form (\<open>display\<close>).

  The decoding loop \<open>decode_loop\<close> has the loop variables of the source as its arguments; the
  array \<^verbatim>\<open>visited\<close> with its fill count \<^verbatim>\<open>hops\<close> is the list of its first \<open>hops\<close> entries, and
  indexing it beyond its 128 entries is the panic branch. It terminates because every round
  either lengthens the expanded name (at most 255) or follows another pointer (at most 128).

  Proved here: decoding inverts encoding at any offset and through a compression pointer,
  never panics, yields only well-formed names and moves the cursor forward inside the message;
  subdomain matching is the suffix order on case-folded labels; configuration names round-trip
  through their presentation form.
\<close>

section \<open>Data and comparison\<close>

definition MAX_LABEL_LENGTH :: nat where [simp]: "MAX_LABEL_LENGTH = 63"
definition MAX_NAME_LENGTH :: nat where [simp]: "MAX_NAME_LENGTH = 255"
definition POINTER_TAG :: u8 where [simp]: "POINTER_TAG = 0xc0"
definition LABEL_TAG_MASK :: u8 where [simp]: "LABEL_TAG_MASK = 0xc0"
definition POINTER_OFFSET_MASK :: u8 where [simp]: "POINTER_OFFSET_MASK = 0x3f"
definition MAX_POINTERS :: nat where [simp]: "MAX_POINTERS = 128"

datatype domain_name = DomainName (labels: "u8 list list")

definition to_ascii_lowercase :: "u8 \<Rightarrow> u8" where
  "to_ascii_lowercase b = (if 65 \<le> b \<and> b \<le> 90 then b + 32 else b)"

definition eq_ignore_ascii_case :: "u8 list \<Rightarrow> u8 list \<Rightarrow> bool" where
  "eq_ignore_ascii_case a b = list_all2 (\<lambda>x y. to_ascii_lowercase x = to_ascii_lowercase y) a b"

definition label_count :: "domain_name \<Rightarrow> nat" where
  "label_count n = length (labels n)"

definition is_subdomain_of :: "domain_name \<Rightarrow> domain_name \<Rightarrow> bool" where
  "is_subdomain_of n sfx =
     (length (labels n) \<ge> length (labels sfx) \<and>
      list_all (\<lambda>(a, b). eq_ignore_ascii_case a b) (zip (rev (labels n)) (rev (labels sfx))))"

definition name_eq :: "domain_name \<Rightarrow> domain_name \<Rightarrow> bool" where
  "name_eq a b = (length (labels a) = length (labels b) \<and> is_subdomain_of a b)"

section \<open>Wire form\<close>

function decode_loop ::
  "u8 list \<Rightarrow> nat \<Rightarrow> nat \<Rightarrow> bool \<Rightarrow> nat \<Rightarrow> nat list \<Rightarrow> u8 list list
   \<Rightarrow> (parse_error, domain_name \<times> nat) result" where
  "decode_loop wire position cursor jumped expanded visited acc =
     (case get wire position of
        None \<Rightarrow> Err UnexpectedEnd
      | Some head \<Rightarrow>
          if head AND LABEL_TAG_MASK = POINTER_TAG then
            (case get wire (position + 1) of
               None \<Rightarrow> Err UnexpectedEnd
             | Some tail \<Rightarrow>
                 let target = unat (u16_from_be_bytes (head AND POINTER_OFFSET_MASK) tail) in
                 if length visited > MAX_POINTERS then Panic
                 else if List.member visited target then Err CompressionLoop
                 else if target < HEADER_LENGTH \<or> target \<ge> position then Err InvalidPointer
                 else if length visited = MAX_POINTERS then Err CompressionDepth
                 else decode_loop wire target (if jumped then cursor else position + 2) True
                        expanded (visited @ [target]) acc)
          else if head AND LABEL_TAG_MASK = 0 then
            (if head = 0 then
               Ok (DomainName acc, if jumped then cursor else position + 1)
             else
               let len = unat head in
               if expanded + (len + 1) > MAX_NAME_LENGTH then Err NameTooLong
               else
                 (case get_range wire (position + 1) (position + 1 + len) of
                    None \<Rightarrow> Err UnexpectedEnd
                  | Some label \<Rightarrow>
                      decode_loop wire (position + 1 + len) cursor jumped
                        (expanded + (len + 1)) visited (acc @ [label])))
          else Err InvalidLabel)"
  by pat_completeness auto
termination
  by (relation "measure (\<lambda>(wire, position, cursor, jumped, expanded, visited, acc).
        (255 - expanded) + (128 - length visited))") auto

definition decode :: "u8 list \<Rightarrow> nat \<Rightarrow> (parse_error, domain_name \<times> nat) result" where
  "decode wire cursor = decode_loop wire cursor cursor False 1 [] []"

definition encode_label :: "u8 list \<Rightarrow> u8 list" where
  "encode_label label = of_nat (length label) # label"

definition encode :: "domain_name \<Rightarrow> u8 list \<Rightarrow> u8 list" where
  "encode n out = out @ concat (map encode_label (labels n)) @ [0]"

section \<open>Configuration syntax and presentation form\<close>

text \<open>\<^verbatim>\<open>str::split\<close> on one character: never the empty list.\<close>

fun split_on :: "char \<Rightarrow> string \<Rightarrow> string list" where
  "split_on c [] = [[]]"
| "split_on c (x # xs) =
     (if x = c then [] # split_on c xs
      else (case split_on c xs of [] \<Rightarrow> [[x]] | l # ls \<Rightarrow> (x # l) # ls))"

definition strip_suffix :: "char \<Rightarrow> string \<Rightarrow> string option" where
  "strip_suffix c s = (if s \<noteq> [] \<and> last s = c then Some (butlast s) else None)"

definition as_bytes :: "string \<Rightarrow> u8 list" where
  "as_bytes s = map of_char s"

definition is_ascii_alphanumeric :: "u8 \<Rightarrow> bool" where
  "is_ascii_alphanumeric b \<longleftrightarrow>
     (48 \<le> b \<and> b \<le> 57) \<or> (65 \<le> b \<and> b \<le> 90) \<or> (97 \<le> b \<and> b \<le> 122)"

definition is_label_byte :: "u8 \<Rightarrow> bool" where
  "is_label_byte b \<longleftrightarrow> is_ascii_alphanumeric b \<or> b = 45 \<or> b = 95"

fun from_str_loop :: "string list \<Rightarrow> nat \<Rightarrow> u8 list list \<Rightarrow> (parse_error, domain_name) result" where
  "from_str_loop [] len acc = Ok (DomainName acc)"
| "from_str_loop (label # rest) len acc =
     (if label = [] \<or> length label > MAX_LABEL_LENGTH \<or> \<not> list_all is_label_byte (as_bytes label)
      then Err InvalidLabel
      else
        let len = len + (length label + 1) in
        if len > MAX_NAME_LENGTH then Err NameTooLong
        else from_str_loop rest len (acc @ [as_bytes label]))"

definition from_str :: "string \<Rightarrow> (parse_error, domain_name) result" where
  "from_str text =
     (if text = ''.'' then Ok (DomainName [])
      else
        let text = (case strip_suffix (CHR ''.'') text of None \<Rightarrow> text | Some t \<Rightarrow> t) in
        from_str_loop (split_on (CHR ''.'') text) 1 [])"

definition digit :: "nat \<Rightarrow> char" where
  "digit d = char_of (48 + d)"

definition display_byte :: "u8 \<Rightarrow> string" where
  "display_byte b =
     (if is_ascii_alphanumeric b \<or> b = 45 \<or> b = 95 then [char_of (unat b)]
      else [CHR 0x5C, digit (unat b div 100), digit (unat b div 10 mod 10), digit (unat b mod 10)])"

definition display :: "domain_name \<Rightarrow> string" where
  "display n =
     (if labels n = [] then ''.''
      else concat (map (\<lambda>label. concat (map display_byte label) @ ''.'') (labels n)))"

section \<open>Well-formed names\<close>

definition valid_label :: "u8 list \<Rightarrow> bool" where
  "valid_label l \<longleftrightarrow> l \<noteq> [] \<and> length l \<le> 63"

definition labels_length :: "u8 list list \<Rightarrow> nat" where
  "labels_length ls = sum_list (map (\<lambda>l. length l + 1) ls)"

definition valid_name :: "domain_name \<Rightarrow> bool" where
  "valid_name n \<longleftrightarrow> list_all valid_label (labels n) \<and> labels_length (labels n) + 1 \<le> 255"

lemma labels_length_simps [simp]:
  "labels_length [] = 0"
  "labels_length (l # ls) = length l + 1 + labels_length ls"
  "labels_length (ls @ ms) = labels_length ls + labels_length ms"
  by (simp_all add: labels_length_def)

lemma length_encoded_labels [simp]: "length (concat (map encode_label ls)) = labels_length ls"
  by (induction ls) (simp_all add: encode_label_def)

lemma length_encode: "length (encode n out) = length out + labels_length (labels n) + 1"
  by (simp add: encode_def)

section \<open>Decoding\<close>

declare decode_loop.simps [simp del]

lemma label_tag_bound:
  assumes "(head :: u8) AND 0xc0 = 0"
  shows "unat head \<le> 63"
proof -
  have "head AND 0xff = head AND 0x3f"
    using assms bit.conj_disj_distrib [of head "0xc0" "0x3f"] by simp
  moreover have "head AND 0xff = head"
  proof -
    have "(0xff :: u8) = - 1" by simp
    then show ?thesis by (simp only: and.right_neutral)
  qed
  ultimately have "head = head AND 0x3f" by simp
  then have "head \<le> 0x3f"
    by (metis word_and_le1)
  then show ?thesis by (simp add: word_le_nat_alt)
qed

lemma label_tag_length:
  assumes "0 < n" and "n \<le> 63"
  shows "(of_nat n :: u8) AND 0xc0 = 0" and "(of_nat n :: u8) \<noteq> 0"
proof -
  have u: "unat (of_nat n :: u8) = n" using assms by simp
  then show "(of_nat n :: u8) \<noteq> 0" using assms(1) by auto
  have "(of_nat n :: u8) < 2 ^ 6"
    using assms u by (simp add: word_less_nat_alt)
  then have "(of_nat n :: u8) AND mask 6 = of_nat n"
    by (simp add: less_mask_eq)
  then have "(of_nat n :: u8) AND 0xc0 = of_nat n AND (mask 6 AND 0xc0)"
    by (metis and.assoc)
  then show "(of_nat n :: u8) AND 0xc0 = 0"
    by (simp add: mask_eq_exp_minus_1)
qed

lemma decode_loop_encoded:
  assumes "drop position wire = concat (map encode_label ls) @ 0 # post"
    and "list_all valid_label ls" and "expanded + labels_length ls \<le> 255"
  shows "decode_loop wire position cursor jumped expanded visited acc =
    Ok (DomainName (acc @ ls), if jumped then cursor else position + labels_length ls + 1)"
  using assms
proof (induction ls arbitrary: position expanded acc)
  case Nil
  then have "get wire position = Some 0"
    by (simp add: drop_head(1))
  then show ?case by (simp add: decode_loop.simps)
next
  case (Cons l ls)
  let ?rest = "concat (map encode_label ls) @ 0 # post"
  have l: "0 < length l" "length l \<le> 63"
    using Cons.prems(2) by (auto simp: valid_label_def)
  have d: "drop position wire = of_nat (length l) # l @ ?rest"
    using Cons.prems(1) by (simp add: encode_label_def [of l])
  note head = drop_head [OF d]
  have body: "get_range wire (position + 1) (position + 1 + length l) = Some l"
    "drop (position + 1 + length l) wire = ?rest"
    using drop_prefix [OF head(2)] head(3) by simp_all
  have u: "unat (of_nat (length l) :: u8) = length l" using l by simp
  show ?case
    using Cons.IH [OF body(2), of "expanded + (length l + 1)" "acc @ [l]"] Cons.prems(2,3) body(1)
    by (simp add: decode_loop.simps [of wire position] head(1) label_tag_length [OF l] u)
qed

lemma drop_encode: "drop (length out) (encode n out @ post) =
    concat (map encode_label (labels n)) @ 0 # post"
  by (simp add: encode_def)

text \<open>C25: a valid name written after any prefix and before any other bytes is read back from
  where it starts: the same labels, and a cursor just past its encoding.\<close>

theorem decode_encode:
  assumes "valid_name n"
  shows "decode (encode n pre @ post) (length pre) = Ok (n, length (encode n pre))"
  using assms
  by (simp add: decode_def valid_name_def length_encode decode_loop_encoded [OF drop_encode])

theorem decode_encode_witness:
  "decode (encode (DomainName [[119], [97, 98]]) [0, 0] @ [5]) 2 = Ok (DomainName [[119], [97, 98]], 8)"
  using decode_encode [of "DomainName [[119], [97, 98]]" "[0, 0]" "[5]"]
  by (simp add: valid_name_def valid_label_def encode_def encode_label_def eval_nat_numeral)

text \<open>A pointer back to an uncompressed name decodes to that name; the cursor stops after it.\<close>

lemma decode_pointer:
  assumes "drop p wire = h # t # more" and "h AND 0xc0 = 0xc0"
    and "target = unat (u16_from_be_bytes (h AND 0x3f) t)" and "12 \<le> target" and "target < p"
    and "drop target wire = concat (map encode_label (labels n)) @ 0 # post" and "valid_name n"
  shows "decode wire p = Ok (n, p + 2)"
proof -
  have "decode wire p = decode_loop wire target (p + 2) True 1 [target] []"
    using assms(2-5) drop_head [OF assms(1)] drop_head [OF drop_head(2) [OF assms(1)]]
    by (simp add: decode_def decode_loop.simps [of wire p] Let_def)
  also have "\<dots> = Ok (n, p + 2)"
    using decode_loop_encoded [OF assms(6)] assms(7) by (simp add: valid_name_def)
  finally show ?thesis .
qed

text \<open>
  The recursion of \<open>decode_loop\<close> on a successful run: it ends at a zero octet, follows a
  pointer to an earlier offset not followed before, or appends one label.
\<close>

lemma decode_loop_Ok_induct [consumes 1, case_names End Pointer Label]:
  assumes "decode_loop wire position cursor jumped expanded visited acc = Ok r"
    and End: "\<And>p c j e v ls. get wire p = Some 0 \<Longrightarrow>
      P p c j e v ls (DomainName ls, if j then c else p + 1)"
    and Pointer: "\<And>p c j e v ls t r. p + 1 < length wire \<Longrightarrow> 12 \<le> t \<Longrightarrow> t < p \<Longrightarrow> t \<notin> set v \<Longrightarrow>
      length v < 128 \<Longrightarrow> P t (if j then c else p + 2) True e (v @ [t]) ls r \<Longrightarrow> P p c j e v ls r"
    and Label: "\<And>p c j e v ls l r. valid_label l \<Longrightarrow> e + (length l + 1) \<le> 255 \<Longrightarrow>
      get_range wire (p + 1) (p + 1 + length l) = Some l \<Longrightarrow>
      P (p + 1 + length l) c j (e + (length l + 1)) v (ls @ [l]) r \<Longrightarrow> P p c j e v ls r"
  shows "P position cursor jumped expanded visited acc r"
  using assms(1)
proof (induction wire\<equiv>wire position cursor jumped expanded visited acc rule: decode_loop.induct)
  case (1 p c j e v ls)
  obtain head where head: "get wire p = Some head"
    using "1.prems" by (subst (asm) decode_loop.simps) (auto split: option.splits)
  consider (ptr) "head AND 0xc0 = 0xc0" | (zero) "head = 0"
    | (label) "head AND 0xc0 = 0" "head \<noteq> 0" "head AND 0xc0 \<noteq> 0xc0"
    using "1.prems" head by (subst (asm) decode_loop.simps) (auto split: if_splits)
  then show ?case
  proof cases
    case ptr
    then obtain tail where tail: "get wire (p + 1) = Some tail"
      using "1.prems" head by (subst (asm) decode_loop.simps) (auto split: option.splits)
    define t where "t = unat (u16_from_be_bytes (head AND 0x3f) tail)"
    have g: "t \<notin> set v" "12 \<le> t" "t < p" "length v < 128" and rec:
      "decode_loop wire t (if j then c else p + 2) True e (v @ [t]) ls = Ok r"
      using "1.prems" head tail ptr
      by (subst (asm) decode_loop.simps; auto simp: Let_def t_def [symmetric] split: if_splits)+
    have "P t (if j then c else p + 2) True e (v @ [t]) ls r"
      using "1.hyps"(1) [OF head _ tail, of t] g rec ptr by (simp add: t_def)
    with g tail show ?thesis by (auto simp: outcome intro: Pointer [where t = t])
  next
    case zero
    then have "r = (DomainName ls, if j then c else p + 1)"
      using "1.prems" head by (subst (asm) decode_loop.simps) auto
    with head zero show ?thesis using End by simp
  next
    case label
    then obtain l where l: "get_range wire (p + 1) (p + 1 + unat head) = Some l"
      and e: "e + (unat head + 1) \<le> 255"
      using "1.prems" head
      by (subst (asm) decode_loop.simps) (auto simp: Let_def split: option.splits if_splits)
    have len: "length l = unat head" using length_get_range [OF l] by simp
    have "unat head \<noteq> 0" using label(2) by (simp add: unat_eq_0)
    then have v: "valid_label l"
      using len label_tag_bound [OF label(1)] by (auto simp: valid_label_def)
    have rec: "decode_loop wire (p + 1 + unat head) c j (e + (unat head + 1)) v (ls @ [l]) = Ok r"
      using "1.prems" head label l e by (subst (asm) decode_loop.simps) (simp add: Let_def)
    have "P (p + 1 + unat head) c j (e + (unat head + 1)) v (ls @ [l]) r"
      using "1.hyps"(2) [OF head _ _ _ refl _ l] label e rec by simp
    with v e l len show ?thesis by (auto intro: Label [where l = l])
  qed
qed

lemma decode_loop_panic_free:
  "length visited \<le> 128 \<Longrightarrow>
     decode_loop wire position cursor jumped expanded visited acc \<noteq> Panic"
proof (induction wire position cursor jumped expanded visited acc rule: decode_loop.induct)
  case (1 wire position cursor jumped expanded visited acc)
  show ?case
    using 1 by (subst decode_loop.simps) (auto simp: Let_def split: option.splits)
qed

lemma decode_panic_free [panic_free]: "decode wire cursor \<noteq> Panic"
  by (simp add: decode_def decode_loop_panic_free)

lemma decode_loop_valid:
  "decode_loop wire position cursor jumped expanded visited acc = Ok r \<Longrightarrow>
     list_all valid_label acc \<Longrightarrow> expanded = labels_length acc + 1 \<Longrightarrow> expanded \<le> 255 \<Longrightarrow>
     valid_name (fst r)"
  by (induction rule: decode_loop_Ok_induct) (auto simp: valid_name_def)

lemma decode_loop_cursor:
  "decode_loop wire position cursor jumped expanded visited acc = Ok r \<Longrightarrow>
     (if jumped then snd r = cursor else position < snd r \<and> snd r \<le> length wire)"
  by (induction rule: decode_loop_Ok_induct) (auto simp: outcome split: if_splits)

lemma decode_valid: "decode wire cursor = Ok (n, c) \<Longrightarrow> valid_name n"
  using decode_loop_valid [of wire cursor cursor False 1 "[]" "[]" "(n, c)"]
  by (simp add: decode_def)

lemma decode_cursor: "decode wire cursor = Ok (n, c) \<Longrightarrow> cursor < c \<and> c \<le> length wire"
  using decode_loop_cursor [of wire cursor cursor False 1 "[]" "[]" "(n, c)"]
  by (simp add: decode_def)

section \<open>Comparison is the suffix order on case-folded labels\<close>

definition fold_case :: "domain_name \<Rightarrow> u8 list list" where
  "fold_case n = map (map to_ascii_lowercase) (labels n)"

lemma eq_ignore_ascii_case_iff:
  "eq_ignore_ascii_case a b \<longleftrightarrow> map to_ascii_lowercase a = map to_ascii_lowercase b"
  by (auto simp: eq_ignore_ascii_case_def list_all2_conv_all_nth list_eq_iff_nth_eq)

lemma all_zip_prefix:
  "length ys \<le> length xs \<Longrightarrow>
     list_all (\<lambda>(a, b). eq_ignore_ascii_case a b) (zip xs ys) \<longleftrightarrow>
     prefix (map (map to_ascii_lowercase) ys) (map (map to_ascii_lowercase) xs)"
proof (induction ys arbitrary: xs)
  case (Cons y ys)
  then obtain x xs' where "xs = x # xs'" by (cases xs) auto
  with Cons show ?case by (auto simp: eq_ignore_ascii_case_iff)
qed simp

lemma is_subdomain_of_iff: "is_subdomain_of n s \<longleftrightarrow> suffix (fold_case s) (fold_case n)"
proof (cases "length (labels s) \<le> length (labels n)")
  case True
  then show ?thesis
    by (simp add: is_subdomain_of_def fold_case_def all_zip_prefix suffix_to_prefix rev_map)
next
  case False
  then show ?thesis
    using suffix_length_le by (fastforce simp: is_subdomain_of_def fold_case_def)
qed

lemma length_fold_case [simp]: "length (fold_case n) = label_count n"
  by (simp add: fold_case_def label_count_def)

lemma name_eq_iff: "name_eq a b \<longleftrightarrow> fold_case a = fold_case b"
proof
  assume "name_eq a b"
  then show "fold_case a = fold_case b"
    unfolding name_eq_def is_subdomain_of_iff
    by (metis length_fold_case label_count_def suffix_order.dual_order.antisym
        suffix_length_suffix suffix_order.refl order_refl)
next
  assume "fold_case a = fold_case b"
  then show "name_eq a b"
    unfolding name_eq_def is_subdomain_of_iff
    by (metis length_fold_case label_count_def suffix_order.refl)
qed

lemma is_subdomain_of_root [simp]: "is_subdomain_of n (DomainName [])"
  by (simp add: is_subdomain_of_def)

lemma is_subdomain_of_refl: "name_eq a b \<Longrightarrow> is_subdomain_of a b"
  by (simp add: name_eq_def)

lemma is_subdomain_of_count: "is_subdomain_of n s \<Longrightarrow> label_count s \<le> label_count n"
  by (simp add: is_subdomain_of_def label_count_def)

text \<open>Two suffixes of one name with equally many labels are the same name.\<close>

lemma is_subdomain_of_unique:
  "is_subdomain_of n s \<Longrightarrow> is_subdomain_of n t \<Longrightarrow> label_count s = label_count t \<Longrightarrow> name_eq s t"
  unfolding is_subdomain_of_iff name_eq_iff
  by (metis length_fold_case suffix_length_suffix suffix_order.dual_order.antisym order_refl)

lemma is_subdomain_of_chain:
  "is_subdomain_of n s \<Longrightarrow> is_subdomain_of n t \<Longrightarrow> label_count s \<le> label_count t \<Longrightarrow>
     is_subdomain_of t s"
  unfolding is_subdomain_of_iff by (metis length_fold_case suffix_length_suffix)

section \<open>Configuration names\<close>

lemma split_on_nonempty [simp]: "split_on c s \<noteq> []"
  by (induction s) (auto split: list.splits)

lemma split_on_join: "concat (map (\<lambda>l. l @ [c]) (split_on c s)) = s @ [c]"
  by (induction s) (auto split: list.splits)

lemma split_on_no_sep: "l \<in> set (split_on c s) \<Longrightarrow> c \<notin> set l"
proof (induction s arbitrary: l)
  case (Cons x s)
  then show ?case by (cases "split_on c s") (auto split: if_splits)
qed simp

lemma split_on_append: "c \<notin> set l \<Longrightarrow> split_on c (l @ c # s) = l # split_on c s"
  by (induction l) auto

lemma split_on_single: "c \<notin> set l \<Longrightarrow> split_on c l = [l]"
  by (induction l) auto

lemma split_on_joined:
  "ls \<noteq> [] \<Longrightarrow> (\<And>l. l \<in> set ls \<Longrightarrow> c \<notin> set l) \<Longrightarrow>
     split_on c (butlast (concat (map (\<lambda>l. l @ [c]) ls))) = ls"
proof (induction ls)
  case (Cons l ls)
  show ?case
  proof (cases "ls = []")
    case True
    with Cons.prems show ?thesis by (simp add: butlast_append split_on_single)
  next
    case False
    then have "concat (map (\<lambda>l. l @ [c]) ls) \<noteq> []" by (cases ls) auto
    with False Cons show ?thesis by (simp add: butlast_append split_on_append)
  qed
qed simp

definition config_label :: "string \<Rightarrow> bool" where
  "config_label l \<longleftrightarrow> l \<noteq> [] \<and> length l \<le> 63 \<and> list_all is_label_byte (as_bytes l)"

lemma from_str_loop_iff:
  "len \<le> 255 \<Longrightarrow> from_str_loop ls len acc = Ok n \<longleftrightarrow>
     list_all config_label ls \<and> len + labels_length (map as_bytes ls) \<le> 255 \<and>
     n = DomainName (acc @ map as_bytes ls)"
proof (induction ls arbitrary: len acc)
  case (Cons l ls)
  show ?case
    using Cons.IH [of "len + (length l + 1)" "acc @ [as_bytes l]"] Cons.prems
    by (auto simp: Let_def config_label_def as_bytes_def)
qed auto

definition without_dot :: "string \<Rightarrow> string" where
  "without_dot text = (if text \<noteq> [] \<and> last text = CHR ''.'' then butlast text else text)"

lemma from_str_iff:
  assumes "text \<noteq> ''.''"
  shows "from_str text = Ok n \<longleftrightarrow>
    (let ls = split_on (CHR ''.'') (without_dot text) in
     list_all config_label ls \<and> labels_length (map as_bytes ls) \<le> 254 \<and>
     n = DomainName (map as_bytes ls))"
  using assms from_str_loop_iff [of 1 "split_on (CHR ''.'') (without_dot text)" "[]" n]
  by (auto simp: from_str_def strip_suffix_def without_dot_def Let_def)

lemma from_str_valid: "from_str text = Ok n \<Longrightarrow> valid_name n"
proof (cases "text = ''.''")
  case True
  then show "from_str text = Ok n \<Longrightarrow> valid_name n" by (auto simp: from_str_def valid_name_def)
next
  case False
  then show "from_str text = Ok n \<Longrightarrow> valid_name n"
    by (auto simp: from_str_iff Let_def valid_name_def valid_label_def config_label_def
        list_all_iff as_bytes_def)
qed

lemma of_char_back: "char_of (unat (of_char c :: u8)) = c"
proof -
  have "unat (of_nat (of_char c) :: u8) = of_char c" by simp
  then show ?thesis by (simp add: of_nat_of_char)
qed

lemma display_config_label:
  "list_all is_label_byte (as_bytes l) \<Longrightarrow> concat (map display_byte (as_bytes l)) = l"
  by (induction l) (auto simp: as_bytes_def display_byte_def is_label_byte_def of_char_back)

lemma display_config:
  assumes "ls \<noteq> []" and "list_all config_label ls"
  shows "display (DomainName (map as_bytes ls)) = concat (map (\<lambda>l. l @ ''.'') ls)"
proof -
  have "map (\<lambda>l. concat (map display_byte (as_bytes l)) @ ''.'') ls = map (\<lambda>l. l @ ''.'') ls"
    using assms(2)
    by (intro map_cong refl) (auto simp: list_all_iff config_label_def display_config_label)
  then have "concat (map (\<lambda>l. concat (map display_byte (as_bytes l)) @ ''.'') ls)
      = concat (map (\<lambda>l. l @ ''.'') ls)"
    by (simp only:)
  then show ?thesis using assms(1) by (simp add: display_def comp_def)
qed

lemma display_from_str:
  assumes "from_str text = Ok n"
  shows "display n = without_dot text @ ''.''"
proof (cases "text = ''.''")
  case True
  then show ?thesis using assms by (auto simp: from_str_def display_def without_dot_def)
next
  case False
  let ?ls = "split_on (CHR ''.'') (without_dot text)"
  have "list_all config_label ?ls" "n = DomainName (map as_bytes ?ls)"
    using assms False by (auto simp: from_str_iff Let_def)
  then show ?thesis by (simp add: display_config split_on_join)
qed

lemma from_str_without_dot:
  assumes "text \<noteq> []" and "last text \<noteq> CHR ''.''"
  shows "from_str (text @ ''.'') = from_str text"
  using assms by (auto simp: from_str_def strip_suffix_def)

text \<open>C28: a configured name keeps its meaning when printed: the presentation form of a name that the
  configuration syntax accepts is accepted again and denotes the same labels.\<close>

theorem from_str_display:
  assumes "from_str text = Ok n"
  shows "from_str (display n) = Ok n"
proof (cases "text = ''.''")
  case True
  then show ?thesis using assms by (auto simp: from_str_def display_def)
next
  case False
  let ?ls = "split_on (CHR ''.'') (without_dot text)"
  have ls: "list_all config_label ?ls" "labels_length (map as_bytes ?ls) \<le> 254"
    "n = DomainName (map as_bytes ?ls)"
    using assms False by (auto simp: from_str_iff Let_def)
  have d: "display n = without_dot text @ ''.''" by (rule display_from_str [OF assms])
  have "without_dot text \<noteq> []"
    using ls(1) by (auto simp: config_label_def)
  then have "display n \<noteq> ''.''" "without_dot (display n) = without_dot text"
    by (simp_all add: d without_dot_def [of "without_dot text @ ''.''"])
  with ls show ?thesis by (simp add: from_str_iff Let_def)
qed

theorem from_str_display_witness:
  "from_str (display (DomainName [[97], [98, 45]])) = Ok (DomainName [[97], [98, 45]])"
  by (rule from_str_display [of "''a.b-''"])
    (simp add: from_str_def strip_suffix_def as_bytes_def is_label_byte_def is_ascii_alphanumeric_def)

section \<open>Properties of names\<close>

text \<open>C26: decoding is total on every byte string and offset: it never panics, and a name it
  accepts has labels of 1 to 63 bytes and at most 255 bytes in all, whatever compression pointers
  it follows; the cursor moves forward and stays inside the message.\<close>

theorem decode_sound:
  "case decode wire cursor of
     Ok (n, c) \<Rightarrow> valid_name n \<and> cursor < c \<and> c \<le> length wire
   | Err e \<Rightarrow> True
   | Panic \<Rightarrow> False"
  using decode_panic_free [of wire cursor] decode_valid [of wire cursor] decode_cursor [of wire cursor]
  by (auto split: result.split)

text \<open>C27: the label-by-label comparison from the right is the suffix order on case-folded label
  lists, and name equality is equality of the case-folded lists.\<close>

theorem subdomain_is_suffix:
  "(is_subdomain_of n s \<longleftrightarrow> suffix (fold_case s) (fold_case n))
   \<and> (name_eq a b \<longleftrightarrow> fold_case a = fold_case b)"
  by (simp add: is_subdomain_of_iff name_eq_iff)

end
