(* ===== verification/Dns_Message.thy ===== *)
theory Dns_Message
  imports Dns_Name
begin

text \<open>
  Message metadata (\<^verbatim>\<open>src/dns/message.rs\<close>): header, section counts, question, EDNS view, parsed
  packet, the classification of a packet as a query, and response correlation. The location
  of a COOKIE option (\<^verbatim>\<open>CookieSlot\<close>, \<^verbatim>\<open>CookieField\<close> of \<^verbatim>\<open>src/dns/cookie.rs\<close>) is declared here
  because a packet carries one.

  Proved here: the header codec round-trips; a header is read exactly when twelve bytes are
  present; rewriting the transaction id changes the first two bytes and nothing else; the
  classification of a query never panics and what it forwards has passed every check.
\<close>

section \<open>Header\<close>

definition QR_MASK :: u16 where [simp]: "QR_MASK = 0x8000"
definition OPCODE_MASK :: u16 where [simp]: "OPCODE_MASK = 0x7800"
definition OPCODE_SHIFT :: nat where [simp]: "OPCODE_SHIFT = 11"
definition TC_MASK :: u16 where [simp]: "TC_MASK = 0x0200"
definition RD_MASK :: u16 where [simp]: "RD_MASK = 0x0100"
definition RA_MASK :: u16 where [simp]: "RA_MASK = 0x0080"
definition CD_MASK :: u16 where [simp]: "CD_MASK = 0x0010"
definition RCODE_MASK :: u16 where [simp]: "RCODE_MASK = 0x000f"
definition DO_MASK :: u32 where [simp]: "DO_MASK = 0x8000"
definition EDNS_VERSION_SHIFT :: nat where [simp]: "EDNS_VERSION_SHIFT = 16"
definition EXTENDED_RCODE_SHIFT :: nat where [simp]: "EXTENDED_RCODE_SHIFT = 24"

record section_counts =
  count_questions :: u16
  count_answers :: u16
  count_authorities :: u16
  count_additionals :: u16

datatype record_section = Answer | Authority | Additional

definition record_sections :: "section_counts \<Rightarrow> (record_section \<times> u16) list" where
  "record_sections c =
     [(Answer, count_answers c), (Authority, count_authorities c),
      (Additional, count_additionals c)]"

record header =
  hd_id :: transaction_id
  hd_flags :: u16
  hd_counts :: section_counts

definition header_word :: "u8 list \<Rightarrow> nat \<Rightarrow> ('e, u16) result" where
  "header_word wire i =
     rbind (index wire i) (\<lambda>a. rbind (index wire (i + 1)) (\<lambda>b. Ok (u16_from_be_bytes a b)))"

definition header_parse :: "u8 list \<Rightarrow> (parse_error, header) result" where
  "header_parse wire =
     (if length wire < HEADER_LENGTH then Err UnexpectedEnd
      else
        rbind (header_word wire 0) (\<lambda>ident.
        rbind (header_word wire 2) (\<lambda>flags.
        rbind (header_word wire 4) (\<lambda>q.
        rbind (header_word wire 6) (\<lambda>an.
        rbind (header_word wire 8) (\<lambda>ns.
        rbind (header_word wire 10) (\<lambda>ar.
          Ok \<lparr>hd_id = TransactionId ident, hd_flags = flags,
              hd_counts = \<lparr>count_questions = q, count_answers = an,
                           count_authorities = ns, count_additionals = ar\<rparr>\<rparr>)))))))"

definition header_message_type :: "header \<Rightarrow> message_type" where
  "header_message_type h =
     (if hd_flags h AND QR_MASK = 0 then MessageQuery else MessageResponse)"

definition header_opcode :: "header \<Rightarrow> opcode" where
  "header_opcode h = opcode_from_wire (ucast (drop_bit OPCODE_SHIFT (hd_flags h AND OPCODE_MASK)))"

definition header_truncated :: "header \<Rightarrow> bool" where
  "header_truncated h \<longleftrightarrow> hd_flags h AND TC_MASK \<noteq> 0"

fun transaction_id_wire :: "transaction_id \<Rightarrow> u16" where
  "transaction_id_wire (TransactionId n) = n"

definition header_encode :: "header \<Rightarrow> u8 list \<Rightarrow> u8 list" where
  "header_encode h wire =
     wire @ concat (map u16_to_be_bytes
       [transaction_id_wire (hd_id h), hd_flags h,
        count_questions (hd_counts h), count_answers (hd_counts h),
        count_authorities (hd_counts h), count_additionals (hd_counts h)])"

section \<open>Question, EDNS view and packet\<close>

record question =
  qu_name :: domain_name
  qu_kind :: record_type
  qu_class :: record_class

definition question_eq :: "question \<Rightarrow> question \<Rightarrow> bool" where
  "question_eq a b \<longleftrightarrow> name_eq (qu_name a) (qu_name b) \<and> qu_kind a = qu_kind b \<and> qu_class a = qu_class b"

definition question_encode :: "question \<Rightarrow> u8 list \<Rightarrow> u8 list" where
  "question_encode q out =
     encode (qu_name q) out @ u16_to_be_bytes (record_type_wire (qu_kind q))
       @ u16_to_be_bytes (record_class_wire (qu_class q))"

record edns =
  udp_size :: u16
  edns_version :: u8
  extended_rcode :: u8
  dnssec_ok :: bool

record cookie_slot =
  length_at :: nat
  data_at :: nat
  data_len :: nat
  rdlength_at :: nat

datatype cookie_field = Cookie_Present cookie_slot | Cookie_Malformed

record packet =
  pk_wire :: "u8 list"
  pk_header :: header
  pk_questions :: "question list"
  pk_edns :: "edns option"
  pk_authenticated :: bool
  pk_cookie :: "cookie_field option"

definition is_truncated :: "packet \<Rightarrow> bool" where
  "is_truncated p = header_truncated (pk_header p)"

definition with_id :: "packet \<Rightarrow> transaction_id \<Rightarrow> ('e, u8 list) result" where
  "with_id p ident = copy_at (pk_wire p) 0 (u16_to_be_bytes (transaction_id_wire ident))"

definition packet_response_code :: "packet \<Rightarrow> response_code" where
  "packet_response_code p =
     (let extended = (case pk_edns p of None \<Rightarrow> 0 | Some opt \<Rightarrow> push_bit 4 (ucast (extended_rcode opt)))
      in response_code_from_wire (extended OR (hd_flags (pk_header p) AND RCODE_MASK)))"

definition packet_udp_limit :: "packet \<Rightarrow> nat" where
  "packet_udp_limit p =
     (case pk_edns p of
        None \<Rightarrow> CLASSIC_UDP_LENGTH
      | Some opt \<Rightarrow> max CLASSIC_UDP_LENGTH (min SERVER_UDP_LENGTH (unat (udp_size opt))))"

section \<open>Query classification and response correlation\<close>

record query =
  query_packet :: packet
  query_question :: question

datatype query_decision = Forward query | Reject response_code | Ignore

definition is_refused_kind :: "record_type \<Rightarrow> bool" where
  "is_refused_kind k \<longleftrightarrow>
     k = Type_Axfr \<or> k = Type_Ixfr \<or> k = Type_Tkey \<or> k = Type_Tsig \<or> k = Type_Opt"

definition validate_query :: "packet \<Rightarrow> ('e, query_decision) result" where
  "validate_query p =
     (if header_message_type (pk_header p) \<noteq> MessageQuery then Ok Ignore
      else if header_opcode (pk_header p) \<noteq> Opcode_Query then Ok (Reject NotImplemented)
      else if length (pk_questions p) \<noteq> 1 \<or> header_truncated (pk_header p)
           \<or> packet_response_code p \<noteq> NoError
           \<or> count_answers (hd_counts (pk_header p)) \<noteq> 0
           \<or> count_authorities (hd_counts (pk_header p)) \<noteq> 0
      then Ok (Reject FormatError)
      else if pk_cookie p = Some Cookie_Malformed then Ok (Reject FormatError)
      else if (case pk_edns p of None \<Rightarrow> False | Some opt \<Rightarrow> edns_version opt \<noteq> 0)
      then Ok (Reject BadVersion)
      else
        rbind (index (pk_questions p) 0) (\<lambda>question.
          if pk_authenticated p \<or> is_refused_kind (qu_kind question) then Ok (Reject Refused)
          else Ok (Forward \<lparr>query_packet = p, query_question = question\<rparr>)))"

definition corresponds_to :: "packet \<Rightarrow> query \<Rightarrow> transaction_id \<Rightarrow> bool" where
  "corresponds_to p q expected =
     (let query = query_packet q in
      header_message_type (pk_header p) = MessageResponse
      \<and> hd_id (pk_header p) = expected
      \<and> header_opcode (pk_header p) = header_opcode (pk_header query)
      \<and> list_all2 question_eq (pk_questions p) (pk_questions query)
      \<and> (case pk_edns p of None \<Rightarrow> True | Some opt \<Rightarrow> edns_version opt = 0)
      \<and> (pk_edns query \<noteq> None \<or> pk_edns p = None)
      \<and> \<not> pk_authenticated p)"

section \<open>The header codec\<close>

text \<open>The fields of a complete header, read without any failure branch.\<close>

definition wire_word :: "u8 list \<Rightarrow> nat \<Rightarrow> u16" where
  "wire_word wire i = u16_from_be_bytes (wire ! i) (wire ! (i + 1))"

definition header_of :: "u8 list \<Rightarrow> header" where
  "header_of wire =
     \<lparr>hd_id = TransactionId (wire_word wire 0), hd_flags = wire_word wire 2,
      hd_counts = \<lparr>count_questions = wire_word wire 4, count_answers = wire_word wire 6,
                   count_authorities = wire_word wire 8, count_additionals = wire_word wire 10\<rparr>\<rparr>"

lemma header_parse_eq:
  "header_parse wire = (if length wire < 12 then Err UnexpectedEnd else Ok (header_of wire))"
  by (simp add: header_parse_def header_word_def header_of_def wire_word_def index_def)

lemma header_parse_panic_free [panic_free]: "header_parse wire \<noteq> Panic"
  by (simp add: header_parse_eq)

lemma length_header_encode: "length (header_encode h out) = length out + 12"
  by (simp add: header_encode_def)

lemma transaction_id_collapse [simp]: "TransactionId (transaction_id_wire i) = i"
  by (cases i) simp

lemma header_of_encode: "header_of (header_encode h [] @ rest) = h"
  by (intro header.equality section_counts.equality)
    (simp_all add: header_of_def header_encode_def wire_word_def u16_to_be_bytes_def
      u16_be_roundtrip)

text \<open>An encoded header is read back unchanged, whatever follows it.\<close>

theorem header_parse_encode: "header_parse (header_encode h [] @ rest) = Ok h"
  by (simp add: header_parse_eq header_of_encode length_header_encode)

lemma wire_word_append: "i + 1 < length wire \<Longrightarrow> wire_word (wire @ rest) i = wire_word wire i"
  by (simp add: wire_word_def nth_append)

lemma header_of_append: "12 \<le> length wire \<Longrightarrow> header_of (wire @ rest) = header_of wire"
  by (simp add: header_of_def wire_word_append)

lemma with_id_eq_Ok:
  "with_id p ident = Ok w \<longleftrightarrow>
     2 \<le> length (pk_wire p) \<and> w = u16_to_be_bytes (transaction_id_wire ident) @ drop 2 (pk_wire p)"
  by (auto simp: with_id_def copy_at_def numeral_2_eq_2)

lemma length_with_id: "with_id p ident = Ok w \<Longrightarrow> length w = length (pk_wire p)"
  by (auto simp: with_id_eq_Ok)

lemma header_of_with_id:
  assumes "with_id p ident = Ok w" and "12 \<le> length (pk_wire p)"
  shows "header_of w = (header_of (pk_wire p))\<lparr>hd_id := ident\<rparr>"
proof -
  let ?w = "pk_wire p"
  have w: "w = u16_to_be_bytes (transaction_id_wire ident) @ drop 2 ?w"
    using assms(1) by (simp add: with_id_eq_Ok)
  have n: "w ! i = ?w ! i" if "2 \<le> i" for i
    using that assms(2) le_Suc_ex [OF that] by (auto simp: w nth_append)
  have "TransactionId (wire_word w 0) = ident"
    by (cases ident) (simp add: w wire_word_def nth_append u16_to_be_bytes_def u16_be_roundtrip)
  then show ?thesis by (simp add: header_of_def wire_word_def n)
qed

section \<open>Facts on classification and limits\<close>

lemma validate_query_panic_free [panic_free]: "validate_query p \<noteq> Panic"
  by (auto simp: validate_query_def index_def)

lemma validate_query_not_Err [simp]: "validate_query p \<noteq> Err e"
  by (auto simp: validate_query_def outcome split: if_splits)

text \<open>What a forwarded query satisfies.\<close>

definition forwardable :: "packet \<Rightarrow> bool" where
  "forwardable p \<longleftrightarrow>
     header_message_type (pk_header p) = MessageQuery \<and> header_opcode (pk_header p) = Opcode_Query
     \<and> \<not> header_truncated (pk_header p) \<and> packet_response_code p = NoError
     \<and> count_answers (hd_counts (pk_header p)) = 0 \<and> count_authorities (hd_counts (pk_header p)) = 0
     \<and> pk_cookie p \<noteq> Some Cookie_Malformed
     \<and> (\<forall>opt. pk_edns p = Some opt \<longrightarrow> edns_version opt = 0)
     \<and> \<not> pk_authenticated p
     \<and> (\<exists>question. pk_questions p = [question] \<and> \<not> is_refused_kind (qu_kind question))"

lemma validate_query_Forward_iff:
  "validate_query p = Ok (Forward q) \<longleftrightarrow>
     forwardable p \<and> q = \<lparr>query_packet = p, query_question = hd (pk_questions p)\<rparr>"
  by (cases "pk_questions p")
    (auto simp: validate_query_def forwardable_def index_def split: option.splits)

lemma validate_query_Ignore_iff:
  "validate_query p = Ok Ignore \<longleftrightarrow> header_message_type (pk_header p) = MessageResponse"
  by (cases "header_message_type (pk_header p)")
    (auto simp: validate_query_def index_def split: option.splits)

lemma packet_udp_limit_bounds: "512 \<le> packet_udp_limit p \<and> packet_udp_limit p \<le> 1232"
  by (simp add: packet_udp_limit_def split: option.split)


end
