(* ===== verification/Dns_Cookie.thy ===== *)
theory Dns_Cookie
  imports Dns_Message
begin

text \<open>
  DNS COOKIE handling (\<^verbatim>\<open>src/dns/cookie.rs\<close>): locating the first COOKIE option inside OPT data,
  extracting its bytes, checking a response against the cookie that was sent, and building the
  query of a BADCOOKIE retry. Slices of the source that may panic are the panic branches here;
  the signed arithmetic of \<^verbatim>\<open>rewrite\<close> (\<^verbatim>\<open>i32\<close> deltas) is on integers with its range check.

  Proved here: \<open>locate\<close> never panics and the slot it returns lies inside the message, with a
  length of 8 or 16 to 40; on packets with such slots none of the cookie operations panics; a
  response passes only with the client cookie that was sent; a rewritten query keeps every byte
  outside the option and its two length fields and carries client and server cookie.
\<close>

definition COOKIE_OPTION :: u16 where [simp]: "COOKIE_OPTION = 10"

datatype server_cookie_retry =
    Retry_Absent | Retry_Discard | Retry_Current | Retry_Rewrite "u8 list" | Retry_Tcp

function locate_loop ::
  "u8 list \<Rightarrow> nat \<Rightarrow> nat \<Rightarrow> nat \<Rightarrow> (parse_error, cookie_field option) result" where
  "locate_loop wire rdata_at end_at cursor =
     (if cursor + 4 \<le> end_at \<and> cursor + 4 \<le> length wire then
        rbind (header_word wire cursor) (\<lambda>code.
        rbind (header_word wire (cursor + 2)) (\<lambda>len_word.
          let len = unat len_word; data = cursor + 4 in
          (case checked_add data len of
             None \<Rightarrow> Ok (Some Cookie_Malformed)
           | Some data_end \<Rightarrow>
               if data_end > end_at \<or> data_end > length wire then Ok (Some Cookie_Malformed)
               else if code = COOKIE_OPTION then
                 (if len = 8 \<or> (16 \<le> len \<and> len \<le> 40) then
                    Ok (Some (Cookie_Present
                      \<lparr>length_at = cursor + 2, data_at = data, data_len = len,
                       rdlength_at = rdata_at - 2\<rparr>))
                  else Ok (Some Cookie_Malformed))
               else locate_loop wire rdata_at end_at data_end)))
      else Ok None)"
  by pat_completeness auto
termination
  by (relation "measure (\<lambda>(wire, rdata_at, end_at, cursor). end_at - cursor)") (auto simp: outcome)

definition locate :: "u8 list \<Rightarrow> nat \<Rightarrow> nat \<Rightarrow> (parse_error, cookie_field option) result" where
  "locate wire rdata_at rdata_len =
     locate_loop wire rdata_at (min usize_max (rdata_at + rdata_len)) rdata_at"

definition response_cookie :: "packet \<Rightarrow> ('e, u8 list option) result" where
  "response_cookie p =
     (case pk_cookie p of
        None \<Rightarrow> Ok None
      | Some (Cookie_Present slot) \<Rightarrow>
          rbind (slice (pk_wire p) (data_at slot) (data_at slot + data_len slot)) (\<lambda>c. Ok (Some c))
      | Some Cookie_Malformed \<Rightarrow> Ok None)"

definition valid_response :: "packet \<Rightarrow> packet \<Rightarrow> bool \<Rightarrow> ('e, bool) result" where
  "valid_response sent response required =
     rbind (response_cookie response) (\<lambda>r.
       case r of
         None \<Rightarrow> Ok (pk_cookie response = None \<and> \<not> required
                     \<and> packet_response_code response \<noteq> BadCookie)
       | Some received \<Rightarrow>
           rbind (response_cookie sent) (\<lambda>c.
             case c of
               None \<Rightarrow> Ok False
             | Some client \<Rightarrow>
                 if 16 \<le> length received \<and> length received \<le> 40 then
                   rbind (slice client 0 8) (\<lambda>a.
                   rbind (slice received 0 8) (\<lambda>b. Ok (a = b)))
                 else Ok False))"

definition rewrite ::
  "u8 list \<Rightarrow> cookie_slot \<Rightarrow> u8 list \<Rightarrow> u8 list \<Rightarrow> ('e, u8 list option) result" where
  "rewrite query slot client server =
     (if length server < 8 \<or> length server > 32 \<or> rdlength_at slot + 2 > data_at slot then Ok None
      else
        let data_end = data_at slot + data_len slot in
        if data_end > length query then Ok None
        else
          let new_len = 8 + length server;
              delta = int new_len - int (data_len slot) in
          if int (length query) + delta < 0 then Panic
          else
            rbind (slice query 0 (data_at slot)) (\<lambda>front.
            rbind (slice query data_end (length query)) (\<lambda>back.
              let out = front @ client @ server @ back in
              if length out > MAX_MESSAGE_LENGTH then Ok None
              else
                rbind (copy_at out (length_at slot) (u16_to_be_bytes (of_nat new_len))) (\<lambda>out.
                rbind (header_word out (rdlength_at slot)) (\<lambda>rdlength.
                  let rdlength = int (unat rdlength) + delta in
                  if rdlength < 0 \<or> rdlength > 65535 then Ok None
                  else
                    rbind (copy_at out (rdlength_at slot) (u16_to_be_bytes (of_int rdlength)))
                      (\<lambda>out. Ok (Some out)))))))"

definition retry :: "packet \<Rightarrow> packet \<Rightarrow> ('e, server_cookie_retry) result" where
  "retry query response =
     (let sent = pk_wire query in
      case pk_cookie query of
        None \<Rightarrow> Ok Retry_Absent
      | Some Cookie_Malformed \<Rightarrow> Ok Retry_Discard
      | Some (Cookie_Present query_cookie) \<Rightarrow>
        (case pk_cookie response of
           Some (Cookie_Present resp_cookie) \<Rightarrow>
           (case get_range sent (data_at query_cookie)
                   (data_at query_cookie + data_len query_cookie) of
              None \<Rightarrow> Ok Retry_Discard
            | Some query_data \<Rightarrow>
              (case get_range (pk_wire response) (data_at resp_cookie)
                      (data_at resp_cookie + data_len resp_cookie) of
                 None \<Rightarrow> Ok Retry_Discard
               | Some response_data \<Rightarrow>
                 if length query_data < 8 \<or> length response_data < 16 then Ok Retry_Discard
                 else
                   rbind (slice query_data 0 8) (\<lambda>client.
                   rbind (slice response_data 0 8) (\<lambda>echoed.
                     if client \<noteq> echoed then Ok Retry_Discard
                     else
                       rbind (slice response_data 8 (length response_data)) (\<lambda>server.
                       rbind (slice query_data 8 (length query_data)) (\<lambda>previous.
                         if length query_data > 8 \<and> previous = server then Ok Retry_Current
                         else
                           let data_end = data_at query_cookie + data_len query_cookie;
                               new_len = 8 + length server in
                           if new_len \<noteq> data_len query_cookie \<and> data_end \<noteq> length sent
                           then Ok Retry_Tcp
                           else
                             rbind (rewrite sent query_cookie client server) (\<lambda>w.
                               case w of
                                 None \<Rightarrow> Ok Retry_Discard
                               | Some bytes \<Rightarrow> Ok (Retry_Rewrite bytes))))))))
         | _ \<Rightarrow> Ok Retry_Discard))"

section \<open>Locating a cookie\<close>

declare locate_loop.simps [simp del]

text \<open>A slot that describes a COOKIE option inside the message.\<close>

definition slot_wf :: "u8 list \<Rightarrow> cookie_slot \<Rightarrow> bool" where
  "slot_wf wire s \<longleftrightarrow>
     data_at s + data_len s \<le> length wire \<and> data_at s = length_at s + 2
     \<and> (data_len s = 8 \<or> (16 \<le> data_len s \<and> data_len s \<le> 40))
     \<and> rdlength_at s + 4 \<le> length_at s
     \<and> wire_word wire (length_at s) = of_nat (data_len s)
     \<and> wire_word wire (length_at s - 2) = COOKIE_OPTION"

definition cookie_wf :: "u8 list \<Rightarrow> cookie_field option \<Rightarrow> bool" where
  "cookie_wf wire c \<longleftrightarrow> (\<forall>s. c = Some (Cookie_Present s) \<longrightarrow> slot_wf wire s)"

lemma header_word_eq:
  "header_word wire i = (if i + 1 < length wire then Ok (wire_word wire i) else Panic)"
  by (simp add: header_word_def wire_word_def index_def)

lemma locate_loop_wf:
  "2 \<le> rdata_at \<Longrightarrow> rdata_at \<le> cursor \<Longrightarrow>
     \<exists>c. locate_loop wire rdata_at end_at cursor = Ok c \<and> cookie_wf wire c"
proof (induction wire rdata_at end_at cursor rule: locate_loop.induct)
  case (1 wire rdata_at end_at cursor)
  show ?case
    using 1
    by (subst locate_loop.simps)
      (auto simp: header_word_eq cookie_wf_def slot_wf_def Let_def checked_add_def)
qed

lemma locate_wf:
  assumes "2 \<le> rdata_at"
  obtains c where "locate wire rdata_at rdata_len = Ok c" and "cookie_wf wire c"
  using locate_loop_wf [OF assms order_refl] by (auto simp: locate_def)

lemma response_cookie_eq:
  assumes "cookie_wf (pk_wire p) (pk_cookie p)"
  shows "response_cookie p =
    Ok (case pk_cookie p of
          Some (Cookie_Present s) \<Rightarrow> Some (take (data_len s) (drop (data_at s) (pk_wire p)))
        | _ \<Rightarrow> None)"
  using assms
  by (auto simp: response_cookie_def cookie_wf_def slot_wf_def slice_def
      split: option.splits cookie_field.splits)

section \<open>Checking a response\<close>

text \<open>The cookie bytes of a packet, without the panic branch of the slice.\<close>

definition packet_cookie :: "packet \<Rightarrow> u8 list option" where
  "packet_cookie p =
     (case pk_cookie p of
        Some (Cookie_Present s) \<Rightarrow> Some (take (data_len s) (drop (data_at s) (pk_wire p)))
      | _ \<Rightarrow> None)"

abbreviation packet_cookie_wf :: "packet \<Rightarrow> bool" where
  "packet_cookie_wf p \<equiv> cookie_wf (pk_wire p) (pk_cookie p)"

lemma response_cookie_Ok: "packet_cookie_wf p \<Longrightarrow> response_cookie p = Ok (packet_cookie p)"
  by (simp add: response_cookie_eq packet_cookie_def)

lemma packet_cookie_length:
  "packet_cookie_wf p \<Longrightarrow> packet_cookie p = Some c \<Longrightarrow>
     length c = 8 \<or> (16 \<le> length c \<and> length c \<le> 40)"
  by (auto simp: packet_cookie_def cookie_wf_def slot_wf_def
      split: option.splits cookie_field.splits)

definition cookie_accepted :: "packet \<Rightarrow> packet \<Rightarrow> bool \<Rightarrow> bool" where
  "cookie_accepted sent response required \<longleftrightarrow>
     (case packet_cookie response of
        None \<Rightarrow> pk_cookie response = None \<and> \<not> required
                \<and> packet_response_code response \<noteq> BadCookie
      | Some received \<Rightarrow>
          (\<exists>client. packet_cookie sent = Some client \<and> 16 \<le> length received
             \<and> take 8 received = take 8 client))"

lemma valid_response_eq:
  assumes "packet_cookie_wf sent" and "packet_cookie_wf response"
  shows "valid_response sent response required = Ok (cookie_accepted sent response required)"
proof (cases "packet_cookie response")
  case None
  then show ?thesis
    by (simp add: valid_response_def response_cookie_Ok [OF assms(2)] cookie_accepted_def)
next
  case (Some received)
  note r = Some
  show ?thesis
  proof (cases "packet_cookie sent")
    case None
    with r show ?thesis
      by (simp add: valid_response_def response_cookie_Ok [OF assms(1)]
          response_cookie_Ok [OF assms(2)] cookie_accepted_def)
  next
    case (Some client)
    with r packet_cookie_length [OF assms(1) Some] packet_cookie_length [OF assms(2) r]
    show ?thesis
      by (auto simp: valid_response_def response_cookie_Ok [OF assms(1)]
          response_cookie_Ok [OF assms(2)] cookie_accepted_def slice_def)
  qed
qed

section \<open>Rewriting the query of a retry\<close>

text \<open>The bytes of a rewritten query, as one expression.\<close>

definition rewritten :: "u8 list \<Rightarrow> cookie_slot \<Rightarrow> u8 list \<Rightarrow> u8 list \<Rightarrow> u8 list" where
  "rewritten query s client server =
     take (rdlength_at s) query
     @ u16_to_be_bytes (of_int (int (unat (wire_word query (rdlength_at s)))
                                + (8 + int (length server)) - int (data_len s)))
     @ drop (rdlength_at s + 2) (take (length_at s) query)
     @ u16_to_be_bytes (of_nat (8 + length server)) @ client @ server
     @ drop (data_at s + data_len s) query"

lemma rewrite_length_field:
  assumes "slot_wf query s"
  shows "copy_at (take (data_at s) query @ rest) (length_at s) (u16_to_be_bytes n)
    = Ok (take (length_at s) query @ u16_to_be_bytes n @ rest)"
proof -
  have "length_at s + 2 \<le> length query" "data_at s = length_at s + 2"
    using assms by (auto simp: slot_wf_def)
  then show ?thesis by (simp add: copy_at_def)
qed

lemma rewrite_rdlength_field:
  assumes "slot_wf query s"
  shows "copy_at (take (length_at s) query @ rest) (rdlength_at s) (u16_to_be_bytes n)
    = Ok (take (rdlength_at s) query @ u16_to_be_bytes n
          @ drop (rdlength_at s + 2) (take (length_at s) query) @ rest)"
proof -
  have "rdlength_at s + 4 \<le> length_at s" "length_at s \<le> length query"
    using assms by (auto simp: slot_wf_def)
  then show ?thesis by (simp add: copy_at_def min_def)
qed

lemma rewrite_reads_rdlength:
  assumes "slot_wf query s"
  shows "header_word (take (length_at s) query @ rest) (rdlength_at s)
    = Ok (wire_word query (rdlength_at s))"
proof -
  have "rdlength_at s + 4 \<le> length_at s" "length_at s \<le> length query"
    using assms by (auto simp: slot_wf_def)
  then show ?thesis by (simp add: header_word_eq wire_word_def nth_append)
qed

lemma rewrite_eq:
  assumes wf: "slot_wf query s" and "length client = 8" and "8 \<le> length server" "length server \<le> 32"
  shows "rewrite query s client server =
    Ok (if length query + 8 + length server - data_len s > 65535
          \<or> int (unat (wire_word query (rdlength_at s))) + (8 + int (length server))
              - int (data_len s) \<notin> {0..65535}
        then None else Some (rewritten query s client server))"
proof -
  have s: "rdlength_at s + 2 \<le> data_at s" "data_at s + data_len s \<le> length query"
    using wf by (auto simp: slot_wf_def)
  have "length (take (data_at s) query @ client @ server @ drop (data_at s + data_len s) query)
      = length query + 8 + length server - data_len s"
    using s assms(2) by simp
  then show ?thesis
    using s assms(2-4) unfolding rewrite_def Let_def
    by (auto simp: slice_def rewrite_length_field [OF wf] rewrite_reads_rdlength [OF wf]
        rewrite_rdlength_field [OF wf] rewritten_def algebra_simps)
qed

lemma length_rewritten:
  assumes "slot_wf query s" and "length client = 8"
  shows "length (rewritten query s client server)
    = length query + 8 + length server - data_len s"
  using assms by (auto simp: rewritten_def slot_wf_def)

text \<open>Bytes before the option data keep their place, the two length fields apart.\<close>

lemma rewritten_before:
  assumes wf: "slot_wf query s" and "i < data_at s"
    and "i \<notin> {rdlength_at s, rdlength_at s + 1, length_at s, length_at s + 1}"
  shows "rewritten query s client server ! i = query ! i"
proof -
  have s: "rdlength_at s + 4 \<le> length_at s" "data_at s = length_at s + 2"
    "data_at s + data_len s \<le> length query"
    using wf by (auto simp: slot_wf_def)
  consider "i < rdlength_at s" | "rdlength_at s + 2 \<le> i" "i < length_at s"
    using assms(2,3) s by force
  then show ?thesis
  proof cases
    case 1
    then show ?thesis using s by (simp add: rewritten_def nth_append)
  next
    case 2
    then obtain j where "i = rdlength_at s + 2 + j" by (metis le_Suc_ex)
    moreover have "j < length_at s - (rdlength_at s + 2)" using 2 \<open>i = _\<close> by simp
    ultimately show ?thesis using 2 s by (simp add: rewritten_def nth_append)
  qed
qed

lemma rewritten_cookie:
  assumes wf: "slot_wf query s" and "length client = 8"
  shows "take (8 + length server) (drop (data_at s) (rewritten query s client server))
    = client @ server"
proof -
  have s: "rdlength_at s + 4 \<le> length_at s" "data_at s = length_at s + 2"
    "data_at s + data_len s \<le> length query"
    using wf by (auto simp: slot_wf_def)
  then show ?thesis using assms(2) by (simp add: rewritten_def)
qed

lemma rewritten_after:
  assumes wf: "slot_wf query s" and "length client = 8"
  shows "drop (data_at s + (8 + length server)) (rewritten query s client server)
    = drop (data_at s + data_len s) query"
proof -
  have s: "rdlength_at s + 4 \<le> length_at s" "data_at s = length_at s + 2"
    "data_at s + data_len s \<le> length query"
    using wf by (auto simp: slot_wf_def)
  then show ?thesis using assms(2) by (simp add: rewritten_def)
qed

section \<open>The retry decision\<close>

lemma cookie_present:
  assumes "packet_cookie_wf p" and "pk_cookie p = Some (Cookie_Present s)"
  shows "slot_wf (pk_wire p) s"
    and "packet_cookie p = Some (take (data_len s) (drop (data_at s) (pk_wire p)))"
    and "get_range (pk_wire p) (data_at s) (data_at s + data_len s) = packet_cookie p"
    and "length (take (data_len s) (drop (data_at s) (pk_wire p))) = data_len s"
  using assms by (auto simp: cookie_wf_def slot_wf_def packet_cookie_def get_range_def)

text \<open>The decision for two packets that both carry a cookie.\<close>

definition retry_present :: "u8 list \<Rightarrow> cookie_slot \<Rightarrow> u8 list \<Rightarrow> u8 list \<Rightarrow> server_cookie_retry" where
  "retry_present sent s c r =
     (if length r < 16 \<or> take 8 c \<noteq> take 8 r then Retry_Discard
      else if 8 < length c \<and> drop 8 c = drop 8 r then Retry_Current
      else if length r \<noteq> data_len s \<and> data_at s + data_len s \<noteq> length sent then Retry_Tcp
      else if length sent + length r - data_len s > 65535
          \<or> int (unat (wire_word sent (rdlength_at s))) + int (length r) - int (data_len s)
              \<notin> {0..65535}
      then Retry_Discard
      else Retry_Rewrite (rewritten sent s (take 8 c) (drop 8 r)))"

lemma retry_present_eq:
  assumes q: "packet_cookie_wf query" "pk_cookie query = Some (Cookie_Present s)"
      "packet_cookie query = Some c"
    and r: "packet_cookie_wf response" "packet_cookie response = Some rc"
  shows "retry query response = Ok (retry_present (pk_wire query) s c rc)"
proof -
  obtain t where t: "pk_cookie response = Some (Cookie_Present t)"
    using r(2) by (auto simp: packet_cookie_def split: option.splits cookie_field.splits)
  note cq = cookie_present [OF q(1,2)] and cr = cookie_present [OF r(1) t]
  have lc: "length c = data_len s" "8 \<le> length c"
    using cq(2,4) q(3) cq(1) by (auto simp: slot_wf_def)
  have lr: "length rc = 8 \<or> (16 \<le> length rc \<and> length rc \<le> 40)"
    by (rule packet_cookie_length [OF r])
  have rw: "rewrite (pk_wire query) s (take 8 c) (drop 8 rc) =
      Ok (if length (pk_wire query) + length rc - data_len s > 65535
            \<or> int (unat (wire_word (pk_wire query) (rdlength_at s))) + int (length rc)
                - int (data_len s) \<notin> {0..65535}
          then None else Some (rewritten (pk_wire query) s (take 8 c) (drop 8 rc)))"
    if "16 \<le> length rc"
  proof -
    have "length (take 8 c) = 8" "8 \<le> length (drop 8 rc)" "length (drop 8 rc) \<le> 32"
      using lc lr that by auto
    from rewrite_eq [OF cq(1) this] show ?thesis using that by (simp add: algebra_simps)
  qed
  have eq: "retry query response = (if length rc < 16 \<or> take 8 c \<noteq> take 8 rc then Ok Retry_Discard
      else if 8 < length c \<and> drop 8 c = drop 8 rc then Ok Retry_Current
      else if length rc \<noteq> data_len s \<and> data_at s + data_len s \<noteq> length (pk_wire query)
      then Ok Retry_Tcp
      else rbind (rewrite (pk_wire query) s (take 8 c) (drop 8 rc)) (\<lambda>w. case w of
          None \<Rightarrow> Ok Retry_Discard | Some bytes \<Rightarrow> Ok (Retry_Rewrite bytes)))"
    using lc lr by (simp add: retry_def q(2,3) t cq(3) cr(3) r(2) slice_def Let_def)
  show ?thesis
  proof (cases "16 \<le> length rc")
    case True
    show ?thesis unfolding eq rw [OF True] retry_present_def by (simp split: if_split)
  next
    case False
    then show ?thesis by (simp add: eq retry_present_def)
  qed
qed

definition cookie_decision :: "packet \<Rightarrow> packet \<Rightarrow> server_cookie_retry" where
  "cookie_decision query response =
    (case pk_cookie query of
       None \<Rightarrow> Retry_Absent
     | Some Cookie_Malformed \<Rightarrow> Retry_Discard
     | Some (Cookie_Present s) \<Rightarrow>
         (case packet_cookie response of
            None \<Rightarrow> Retry_Discard
          | Some rc \<Rightarrow> retry_present (pk_wire query) s (the (packet_cookie query)) rc))"

lemma retry_eq:
  assumes "packet_cookie_wf query" and "packet_cookie_wf response"
  shows "retry query response = Ok (cookie_decision query response)"
proof (cases "packet_cookie response")
  case None
  then show ?thesis
    by (auto simp: retry_def Let_def packet_cookie_def cookie_decision_def
        split: option.splits cookie_field.splits)
next
  case (Some rc)
  then show ?thesis
    using retry_present_eq [OF assms(1) _ _ assms(2) Some] cookie_present(2) [OF assms(1)]
    by (auto simp: retry_def cookie_decision_def split: option.splits cookie_field.splits)
qed

lemma retry_panic_free [panic_free]:
  "packet_cookie_wf query \<Longrightarrow> packet_cookie_wf response \<Longrightarrow> retry query response \<noteq> Panic"
  by (simp add: retry_eq)

text \<open>What a retry in another form than a plain rejection presupposes.\<close>

lemma cookie_decision_cookie:
  "cookie_decision query response \<in> {Retry_Current, Retry_Tcp} \<Longrightarrow> packet_cookie query \<noteq> None"
  by (auto simp: cookie_decision_def packet_cookie_def split: option.splits cookie_field.splits)

lemma cookie_decision_rewrite:
  assumes "cookie_decision query response = Retry_Rewrite w" and "packet_cookie_wf query"
  obtains s c r where "pk_cookie query = Some (Cookie_Present s)" "slot_wf (pk_wire query) s"
    "packet_cookie query = Some c" "packet_cookie response = Some r"
    "16 \<le> length r" "take 8 r = take 8 c" "drop 8 c \<noteq> drop 8 r \<or> length c = 8" "length (take 8 c) = 8"
    "w = rewritten (pk_wire query) s (take 8 c) (drop 8 r)"
proof -
  obtain s r where s: "pk_cookie query = Some (Cookie_Present s)" "packet_cookie response = Some r"
    and w: "retry_present (pk_wire query) s (the (packet_cookie query)) r = Retry_Rewrite w"
    using assms(1) by (auto simp: cookie_decision_def split: option.splits cookie_field.splits)
  obtain c where c: "packet_cookie query = Some c" using s(1) by (simp add: packet_cookie_def)
  have len: "8 \<le> length c" using packet_cookie_length [OF assms(2) c] by auto
  have wf: "slot_wf (pk_wire query) s" using assms(2) s(1) by (simp add: cookie_wf_def)
  have "16 \<le> length r" "take 8 r = take 8 c" "drop 8 c \<noteq> drop 8 r \<or> \<not> 8 < length c"
      "w = rewritten (pk_wire query) s (take 8 c) (drop 8 r)"
    using w unfolding retry_present_def c option.sel by (simp_all split: if_split_asm) blast
  moreover have "length (take 8 c) = 8" "\<not> 8 < length c \<Longrightarrow> length c = 8" using len by simp_all
  ultimately show thesis by (intro that [OF s(1) wf c s(2)]) blast+
qed

lemma cookie_decision_rewrite_length:
  assumes "cookie_decision query response = Retry_Rewrite w" and "packet_cookie_wf query"
  shows "2 \<le> length w"
  by (rule cookie_decision_rewrite [OF assms]) (auto simp: length_rewritten slot_wf_def)

lemma cookie_decision_absent: "pk_cookie query = None \<Longrightarrow> cookie_decision query response = Retry_Absent"
  by (simp add: cookie_decision_def)

section \<open>Properties of the retry\<close>

text \<open>C30: the retry decision never fails on located cookies, and a rewritten query is the sent
  query with the server cookie of the response: its client cookie is kept and followed by that
  server cookie, every byte before the option data except the option length and RDLENGTH keeps its
  value and place, and everything after the option data is kept.\<close>

theorem retry_rewrites:
  assumes "packet_cookie_wf query" and "packet_cookie_wf response"
  shows "\<exists>d. retry query response = Ok d
    \<and> (\<forall>w. d = Retry_Rewrite w \<longrightarrow>
        (\<exists>s c r. pk_cookie query = Some (Cookie_Present s) \<and> packet_cookie query = Some c
           \<and> packet_cookie response = Some r
           \<and> take (length r) (drop (data_at s) w) = take 8 c @ drop 8 r
           \<and> drop (data_at s + length r) w = drop (data_at s + data_len s) (pk_wire query)
           \<and> (\<forall>i < data_at s. i \<notin> {rdlength_at s, rdlength_at s + 1, length_at s, length_at s + 1}
                \<longrightarrow> w ! i = pk_wire query ! i)))"
proof -
  let ?d = "cookie_decision query response"
  have "\<exists>s c r. pk_cookie query = Some (Cookie_Present s) \<and> packet_cookie query = Some c
         \<and> packet_cookie response = Some r
         \<and> take (length r) (drop (data_at s) w) = take 8 c @ drop 8 r
         \<and> drop (data_at s + length r) w = drop (data_at s + data_len s) (pk_wire query)
         \<and> (\<forall>i < data_at s. i \<notin> {rdlength_at s, rdlength_at s + 1, length_at s, length_at s + 1}
              \<longrightarrow> w ! i = pk_wire query ! i)" if d: "?d = Retry_Rewrite w" for w
  proof -
    obtain s c r where s: "pk_cookie query = Some (Cookie_Present s)" "slot_wf (pk_wire query) s"
        "packet_cookie query = Some c" "packet_cookie response = Some r" "16 \<le> length r"
        "length (take 8 c) = 8" and w: "w = rewritten (pk_wire query) s (take 8 c) (drop 8 r)"
      using cookie_decision_rewrite [OF d assms(1)] by metis
    have "take (length r) (drop (data_at s) w) = take 8 c @ drop 8 r"
      using rewritten_cookie [OF s(2,6), of "drop 8 r"] s(5) w by simp
    moreover have "drop (data_at s + length r) w = drop (data_at s + data_len s) (pk_wire query)"
      using rewritten_after [OF s(2,6), of "drop 8 r"] s(5) w by simp
    ultimately show ?thesis
      using s w rewritten_before [OF s(2)] by blast
  qed
  then show ?thesis using retry_eq [OF assms] by blast
qed

text \<open>A query with an 8-byte client cookie at its end and a response with a server cookie.\<close>

definition cookie_sample :: "u8 list \<Rightarrow> nat \<Rightarrow> packet" where
  "cookie_sample bytes n =
     \<lparr>pk_wire = [0, of_nat (4 + n), 0, 10, 0, of_nat n] @ bytes, pk_header = header_of [], pk_questions = [],
      pk_edns = None, pk_authenticated = False,
      pk_cookie = Some (Cookie_Present \<lparr>length_at = 4, data_at = 6, data_len = n, rdlength_at = 0\<rparr>)\<rparr>"

theorem retry_rewrites_witness:
  "\<exists>d. retry (cookie_sample [1, 2, 3, 4, 5, 6, 7, 8] 8)
        (cookie_sample [1, 2, 3, 4, 5, 6, 7, 8, 9, 10, 11, 12, 13, 14, 15, 16] 16) = Ok d
    \<and> d = Retry_Rewrite [0, 20, 0, 10, 0, 16, 1, 2, 3, 4, 5, 6, 7, 8, 9, 10, 11, 12, 13, 14, 15, 16]"
  using retry_rewrites [of "cookie_sample [1, 2, 3, 4, 5, 6, 7, 8] 8"
      "cookie_sample [1, 2, 3, 4, 5, 6, 7, 8, 9, 10, 11, 12, 13, 14, 15, 16] 16"]
  by (simp add: retry_eq cookie_sample_def cookie_wf_def slot_wf_def cookie_decision_def packet_cookie_def
      retry_present_def wire_word_def u16_from_be_bytes_def rewritten_def u16_to_be_bytes_def)

end
