(* ===== verification/Dns_Parser.thy ===== *)
theory Dns_Parser
  imports Dns_Cookie
begin

text \<open>
  Structural validation of untrusted messages (\<^verbatim>\<open>src/dns/parser.rs\<close>) and the parse failure with
  its reply context (\<^verbatim>\<open>src/dns/error.rs\<close>, \<^verbatim>\<open>ReplyContext\<close> of \<^verbatim>\<open>src/dns/reply.rs\<close>).

  \<^verbatim>\<open>Reader\<close> is a fixed message and a cursor: its operations take both and return the value and
  the new cursor. The mutable \<^verbatim>\<open>context\<close> that \<^verbatim>\<open>parse_inner\<close> fills before it can fail travels
  with the error, so an error of the inner parser is a pair of the error and the context at
  that point.

  Proved here: parsing never panics, on any input; every packet it returns keeps the input
  bytes, agrees with its header and has only well-formed names and a well-formed cookie slot;
  a failure offers a reply only for queries, and question and EDNS data only for OPT failures.
\<close>

definition QUESTION_FIXED_LENGTH :: nat where [simp]: "QUESTION_FIXED_LENGTH = 4"
definition RECORD_FIXED_LENGTH :: nat where [simp]: "RECORD_FIXED_LENGTH = 10"

section \<open>Reply context of a failed parse\<close>

record reply_context =
  rc_header :: header
  rc_question :: "question option"
  rc_edns :: "edns option"

record parse_failure =
  pf_error :: parse_error
  pf_context :: "reply_context option"

section \<open>Reader\<close>

definition reader_take :: "u8 list \<Rightarrow> nat \<Rightarrow> nat \<Rightarrow> (parse_error, u8 list \<times> nat) result" where
  "reader_take wire cursor len =
     rbind (ok_or UnexpectedEnd (checked_add cursor len)) (\<lambda>end_at.
     rbind (ok_or UnexpectedEnd (get_range wire cursor end_at)) (\<lambda>bytes. Ok (bytes, end_at)))"

definition reader_word :: "u8 list \<Rightarrow> nat \<Rightarrow> (parse_error, u16 \<times> nat) result" where
  "reader_word wire cursor =
     rbind (reader_take wire cursor 2) (\<lambda>(bytes, c).
     rbind (index bytes 0) (\<lambda>b0. rbind (index bytes 1) (\<lambda>b1.
       Ok (u16_from_be_bytes b0 b1, c))))"

definition reader_double_word :: "u8 list \<Rightarrow> nat \<Rightarrow> (parse_error, u32 \<times> nat) result" where
  "reader_double_word wire cursor =
     rbind (reader_take wire cursor 4) (\<lambda>(bytes, c).
     rbind (index bytes 0) (\<lambda>b0. rbind (index bytes 1) (\<lambda>b1.
     rbind (index bytes 2) (\<lambda>b2. rbind (index bytes 3) (\<lambda>b3.
       Ok (u32_from_be_bytes b0 b1 b2 b3, c))))))"

definition reader_name :: "u8 list \<Rightarrow> nat \<Rightarrow> (parse_error, domain_name \<times> nat) result" where
  "reader_name wire cursor = decode wire cursor"

definition reader_question :: "u8 list \<Rightarrow> nat \<Rightarrow> (parse_error, question \<times> nat) result" where
  "reader_question wire cursor =
     rbind (reader_name wire cursor) (\<lambda>(n, c).
     rbind (reader_word wire c) (\<lambda>(k, c).
     rbind (reader_word wire c) (\<lambda>(cl, c).
       Ok (\<lparr>qu_name = n, qu_kind = record_type_from_wire k,
            qu_class = record_class_from_wire cl\<rparr>, c))))"

datatype class_field = Class_Dns record_class | Udp_Payload u16

record resource_record =
  rr_owner :: domain_name
  rr_kind :: record_type
  rr_class :: class_field
  rr_ttl :: u32
  rr_data_start :: nat
  rr_data_end :: nat

definition reader_resource_record ::
  "u8 list \<Rightarrow> nat \<Rightarrow> (parse_error, resource_record \<times> nat) result" where
  "reader_resource_record wire cursor =
     rbind (reader_name wire cursor) (\<lambda>(owner, c).
     rbind (reader_word wire c) (\<lambda>(kind_word, c).
     rbind (reader_word wire c) (\<lambda>(class_wire, c).
     rbind (reader_double_word wire c) (\<lambda>(ttl, c).
     rbind (reader_word wire c) (\<lambda>(data_length, c).
       let kind = record_type_from_wire kind_word in
       Ok (\<lparr>rr_owner = owner, rr_kind = kind,
            rr_class = (if kind = Type_Opt then Udp_Payload class_wire
                        else Class_Dns (record_class_from_wire class_wire)),
            rr_ttl = ttl, rr_data_start = c, rr_data_end = c + unat data_length\<rparr>, c))))))"

section \<open>Record data\<close>

function options_loop :: "u8 list \<Rightarrow> nat \<Rightarrow> (parse_error, unit) result" where
  "options_loop bytes cursor =
     (if cursor < length bytes then
        rbind (map_err (\<lambda>_. InvalidEdns) (reader_word bytes cursor)) (\<lambda>(code, c).
        rbind (map_err (\<lambda>_. InvalidEdns) (reader_word bytes c)) (\<lambda>(len, c').
        rbind (map_err (\<lambda>_. InvalidEdns) (reader_take bytes c' (unat len))) (\<lambda>(_, c'').
          options_loop bytes c'')))
      else Ok ())"
  by pat_completeness auto
termination
  by (relation "measure (\<lambda>(bytes, cursor). length bytes - cursor)")
    (auto simp: reader_word_def reader_take_def outcome)

definition validate_options :: "u8 list \<Rightarrow> (parse_error, unit) result" where
  "validate_options bytes = options_loop bytes 0"

function txt_loop :: "u8 list \<Rightarrow> nat \<Rightarrow> nat \<Rightarrow> (parse_error, nat) result" where
  "txt_loop wire end_at cursor =
     (if cursor < end_at then
        rbind (reader_take wire cursor 1) (\<lambda>(bytes, c).
        rbind (index bytes 0) (\<lambda>len.
        rbind (reader_take wire c (unat len)) (\<lambda>(_, c').
          txt_loop wire end_at c')))
      else Ok cursor)"
  by pat_completeness auto
termination
  by (relation "measure (\<lambda>(wire, end_at, cursor). end_at - cursor)")
    (auto simp: reader_take_def outcome)

definition validate_data :: "u8 list \<Rightarrow> resource_record \<Rightarrow> (parse_error, unit) result" where
  "validate_data wire record =
     (case rr_class record of
        Udp_Payload _ \<Rightarrow> Err InvalidRecord
      | Class_Dns class \<Rightarrow>
          let start = rr_data_start record; kind = rr_kind record in
          rbind
            (if kind = Type_A \<and> class = Class_In then
               rbind (reader_take wire start 4) (\<lambda>(_, c). Ok c)
             else if kind = Type_Aaaa \<and> class = Class_In then
               rbind (reader_take wire start 16) (\<lambda>(_, c). Ok c)
             else if kind = Type_Ns \<or> kind = Type_Cname \<or> kind = Type_Ptr then
               rbind (reader_name wire start) (\<lambda>(_, c). Ok c)
             else if kind = Type_Mx then
               rbind (reader_word wire start) (\<lambda>(_, c).
               rbind (reader_name wire c) (\<lambda>(_, c). Ok c))
             else if kind = Type_Soa then
               rbind (reader_name wire start) (\<lambda>(_, c).
               rbind (reader_name wire c) (\<lambda>(_, c).
               rbind (reader_take wire c 20) (\<lambda>(_, c). Ok c)))
             else if kind = Type_Srv then
               rbind (reader_take wire start 6) (\<lambda>(_, c).
               rbind (reader_name wire c) (\<lambda>(_, c). Ok c))
             else if kind = Type_Txt then
               (if start = rr_data_end record then Err InvalidRecord
                else txt_loop wire (rr_data_end record) start)
             else Ok (rr_data_end record))
            (\<lambda>c. if c \<noteq> rr_data_end record then Err InvalidRecord else Ok ()))"

section \<open>Whole messages\<close>

record parse_state =
  st_cursor :: nat
  st_edns :: "edns option"
  st_cookie :: "cookie_field option"
  st_authenticated :: bool
  st_context :: "reply_context option"

type_synonym inner_error = "parse_error \<times> reply_context option"

fun parse_questions ::
  "u8 list \<Rightarrow> nat \<Rightarrow> nat \<Rightarrow> question list \<Rightarrow> (parse_error, question list \<times> nat) result" where
  "parse_questions wire 0 cursor acc = Ok (acc, cursor)"
| "parse_questions wire (Suc n) cursor acc =
     rbind (reader_question wire cursor) (\<lambda>(q, c). parse_questions wire n c (acc @ [q]))"

definition opt_edns :: "u16 \<Rightarrow> u32 \<Rightarrow> edns" where
  "opt_edns payload ttl =
     \<lparr>udp_size = payload, edns_version = ucast (drop_bit EDNS_VERSION_SHIFT ttl),
      extended_rcode = ucast (drop_bit EXTENDED_RCODE_SHIFT ttl),
      dnssec_ok = (ttl AND DO_MASK \<noteq> 0)\<rparr>"

definition parse_opt ::
  "u8 list \<Rightarrow> record_section \<Rightarrow> resource_record \<Rightarrow> nat \<Rightarrow> parse_state
   \<Rightarrow> (inner_error, parse_state) result" where
  "parse_opt wire sect record cursor st =
     (if sect \<noteq> Additional \<or> st_edns st \<noteq> None \<or> label_count (rr_owner record) \<noteq> 0
      then Err (InvalidEdns, st_context st)
      else
        (case rr_class record of
           Class_Dns _ \<Rightarrow> Err (InvalidEdns, st_context st)
         | Udp_Payload payload \<Rightarrow>
             let e = opt_edns payload (rr_ttl record);
                 context = map_option (\<lambda>c. c\<lparr>rc_edns := Some e\<rparr>) (st_context st);
                 start = rr_data_start record;
                 len = rr_data_end record - rr_data_start record in
             rbind (map_err (\<lambda>_. (InvalidEdns, context)) (reader_take wire cursor len)) (\<lambda>(_, c).
             rbind (slice wire start (rr_data_end record)) (\<lambda>bytes.
             rbind (map_err (\<lambda>e. (e, context)) (validate_options bytes)) (\<lambda>_.
             rbind (map_err (\<lambda>e. (e, context)) (locate wire start len)) (\<lambda>field.
               Ok (st\<lparr>st_cursor := c, st_edns := Some e, st_cookie := field,
                     st_context := context\<rparr>)))))))"

definition parse_record ::
  "u8 list \<Rightarrow> record_section \<Rightarrow> parse_state \<Rightarrow> (inner_error, parse_state) result" where
  "parse_record wire sect st =
     rbind (map_err (\<lambda>e. (e, st_context st)) (reader_resource_record wire (st_cursor st)))
       (\<lambda>(record, c).
       rbind
         (if rr_kind record = Type_Opt then parse_opt wire sect record c st
          else
            rbind (map_err (\<lambda>e. (e, st_context st))
                (reader_take wire c (rr_data_end record - rr_data_start record))) (\<lambda>(_, c).
            rbind (map_err (\<lambda>e. (e, st_context st)) (validate_data wire record)) (\<lambda>_.
              Ok (st\<lparr>st_cursor := c\<rparr>))))
         (\<lambda>st. Ok (st\<lparr>st_authenticated := st_authenticated st
                      \<or> rr_kind record = Type_Tsig \<or> rr_kind record = Type_Tkey
                      \<or> (sect = Additional \<and> rr_kind record = Type_Sig)\<rparr>)))"

fun parse_records ::
  "u8 list \<Rightarrow> record_section \<Rightarrow> nat \<Rightarrow> parse_state \<Rightarrow> (inner_error, parse_state) result" where
  "parse_records wire sect 0 st = Ok st"
| "parse_records wire sect (Suc n) st =
     rbind (parse_record wire sect st) (\<lambda>st. parse_records wire sect n st)"

fun parse_sections ::
  "u8 list \<Rightarrow> (record_section \<times> u16) list \<Rightarrow> parse_state \<Rightarrow> (inner_error, parse_state) result" where
  "parse_sections wire [] st = Ok st"
| "parse_sections wire ((sect, count) # rest) st =
     rbind (parse_records wire sect (unat count) st) (\<lambda>st. parse_sections wire rest st)"

definition parse_inner :: "u8 list \<Rightarrow> (inner_error, packet) result" where
  "parse_inner wire =
     (if length wire > MAX_MESSAGE_LENGTH then Err (OversizedMessage, None)
      else
        rbind (map_err (\<lambda>e. (e, None)) (header_parse wire)) (\<lambda>header.
          let context = (if header_message_type header = MessageQuery
                then Some \<lparr>rc_header = header, rc_question = None, rc_edns = None\<rparr> else None);
              question_count = unat (count_questions (hd_counts header)) in
          if question_count > 1 \<and> header_opcode header = Opcode_Query
          then Err (InvalidCount, context)
          else
            let record_count = sum_list (map (\<lambda>(_, n). unat n) (record_sections (hd_counts header))) in
            if question_count * (QUESTION_FIXED_LENGTH + 1) + record_count * (RECORD_FIXED_LENGTH + 1)
                > length wire - HEADER_LENGTH
            then Err (InvalidCount, context)
            else
              rbind (map_err (\<lambda>e. (e, context)) (parse_questions wire question_count HEADER_LENGTH []))
                (\<lambda>(questions, cursor).
                let context = map_option (\<lambda>c. c\<lparr>rc_question :=
                      (case questions of [] \<Rightarrow> None | q # _ \<Rightarrow> Some q)\<rparr>) context in
                rbind (parse_sections wire (record_sections (hd_counts header))
                    \<lparr>st_cursor = cursor, st_edns = None, st_cookie = None,
                     st_authenticated = False, st_context = context\<rparr>) (\<lambda>st.
                  if st_cursor st \<noteq> length wire then Err (TrailingData, st_context st)
                  else
                    Ok \<lparr>pk_wire = wire, pk_header = header, pk_questions = questions,
                        pk_edns = st_edns st, pk_authenticated = st_authenticated st,
                        pk_cookie = st_cookie st\<rparr>))))"

definition parse :: "u8 list \<Rightarrow> (parse_failure, packet) result" where
  "parse wire =
     map_err (\<lambda>(error, context).
         \<lparr>pf_error = error,
          pf_context = (if error \<noteq> InvalidEdns
                        then map_option (\<lambda>c. c\<lparr>rc_question := None, rc_edns := None\<rparr>) context
                        else context)\<rparr>)
       (parse_inner wire)"

definition packet_parse :: "u8 list \<Rightarrow> (parse_error, packet) result" where
  "packet_parse wire = map_err pf_error (parse wire)"

text \<open>A truncated datagram: only its header and question are read.\<close>

definition matches_truncated :: "packet \<Rightarrow> u8 list \<Rightarrow> transaction_id \<Rightarrow> ('e, bool) result" where
  "matches_truncated query wire ident =
     (case header_parse wire of
        Panic \<Rightarrow> Panic
      | Err _ \<Rightarrow> Ok False
      | Ok header \<Rightarrow>
          if \<not> header_truncated header \<or> hd_id header \<noteq> ident
             \<or> header_message_type header \<noteq> MessageResponse
             \<or> header_opcode header \<noteq> header_opcode (pk_header query)
             \<or> count_questions (hd_counts header) \<noteq> 1
          then Ok False
          else
            (case reader_question wire HEADER_LENGTH of
               Panic \<Rightarrow> Panic
             | Err _ \<Rightarrow> Ok False
             | Ok (question, _) \<Rightarrow> Ok (list_all2 question_eq (pk_questions query) [question])))"

section \<open>Readers\<close>

text \<open>
  The contract of a reader: it never panics, and a successful read moves the cursor forward
  without leaving the message. Sequencing two readers keeps both laws.
\<close>

locale wire_reader =
  fixes read :: "u8 list \<Rightarrow> nat \<Rightarrow> (parse_error, 'a \<times> nat) result"
  assumes total: "read w c \<noteq> Panic"
    and progress: "read w c = Ok (x, c') \<Longrightarrow> c < c' \<and> c' \<le> length w"
begin

lemma bind_total:
  "(\<And>x c'. read w c = Ok (x, c') \<Longrightarrow> f (x, c') \<noteq> Panic) \<Longrightarrow> rbind (read w c) f \<noteq> Panic"
  using total [of w c] by (cases "read w c") auto

lemma map_err_bind_total:
  "(\<And>x c'. read w c = Ok (x, c') \<Longrightarrow> f (x, c') \<noteq> Panic) \<Longrightarrow> rbind (map_err g (read w c)) f \<noteq> Panic"
  using total [of w c] by (cases "read w c") auto

lemma past_start: "read w c = Ok (x, c') \<Longrightarrow> 0 < c'"
  using progress by fastforce

end

lemma reader_take_eq:
  "reader_take w c n =
     (if c + n \<le> usize_max \<and> c + n \<le> length w then Ok (take n (drop c w), c + n)
      else Err UnexpectedEnd)"
  by (simp add: reader_take_def checked_add_def get_range_def)

lemma reader_take_total [simp, panic_free]: "reader_take w c n \<noteq> Panic"
  by (simp add: reader_take_eq)

lemma reader_word_eq:
  "reader_word w c =
     (if c + 2 \<le> usize_max \<and> c + 2 \<le> length w then Ok (wire_word w c, c + 2)
      else Err UnexpectedEnd)"
  by (auto simp: reader_word_def reader_take_eq index_def wire_word_def)

definition wire_double_word :: "u8 list \<Rightarrow> nat \<Rightarrow> u32" where
  "wire_double_word w c = u32_from_be_bytes (w ! c) (w ! (c + 1)) (w ! (c + 2)) (w ! (c + 3))"

lemma reader_double_word_eq:
  "reader_double_word w c =
     (if c + 4 \<le> usize_max \<and> c + 4 \<le> length w then Ok (wire_double_word w c, c + 4)
      else Err UnexpectedEnd)"
  by (auto simp: reader_double_word_def reader_take_eq index_def wire_double_word_def)

interpretation name_reader: wire_reader reader_name
  by unfold_locales (auto simp: reader_name_def decode_panic_free dest: decode_cursor)

interpretation word_reader: wire_reader reader_word
  by unfold_locales (auto simp: reader_word_eq split: if_splits)

interpretation double_word_reader: wire_reader reader_double_word
  by unfold_locales (auto simp: reader_double_word_eq split: if_splits)

lemmas reader_progress = name_reader.progress word_reader.progress double_word_reader.progress
lemmas reader_bind_total =
  name_reader.bind_total word_reader.bind_total double_word_reader.bind_total

interpretation question_reader: wire_reader reader_question
proof unfold_locales
  show "reader_question w c \<noteq> Panic" for w c
    unfolding reader_question_def by (auto intro!: reader_bind_total)
  show "reader_question w c = Ok (x, c') \<Longrightarrow> c < c' \<and> c' \<le> length w" for w c x c'
    unfolding reader_question_def by (auto simp: outcome dest!: reader_progress)
qed

interpretation record_reader: wire_reader reader_resource_record
proof unfold_locales
  show "reader_resource_record w c \<noteq> Panic" for w c
    unfolding reader_resource_record_def by (auto simp: Let_def intro!: reader_bind_total)
  show "reader_resource_record w c = Ok (x, c') \<Longrightarrow> c < c' \<and> c' \<le> length w" for w c x c'
    unfolding reader_resource_record_def by (auto simp: outcome Let_def dest!: reader_progress)
qed

section \<open>Record data never panics\<close>

declare options_loop.simps [simp del] txt_loop.simps [simp del]

lemma options_loop_total: "options_loop bytes cursor \<noteq> Panic"
proof (induction bytes cursor rule: options_loop.induct)
  case (1 bytes cursor)
  show ?case
    using 1
    by (subst options_loop.simps) (auto simp: reader_word_eq reader_take_eq split: if_splits)
qed

lemma validate_options_total [panic_free]: "validate_options bytes \<noteq> Panic"
  by (simp add: validate_options_def options_loop_total)

lemma txt_loop_total: "txt_loop wire end_at cursor \<noteq> Panic"
proof (induction wire end_at cursor rule: txt_loop.induct)
  case (1 wire end_at cursor)
  show ?case
    using 1 by (subst txt_loop.simps) (auto simp: reader_take_eq index_def split: if_splits)
qed

lemma validate_data_total [panic_free]: "validate_data wire record \<noteq> Panic"
  by (cases "rr_class record")
    (auto simp: validate_data_def Let_def rbind_eq_Panic txt_loop_total name_reader.total
      word_reader.total split: if_splits)

section \<open>Invariants of the record loop\<close>

definition state_wf :: "u8 list \<Rightarrow> parse_state \<Rightarrow> bool" where
  "state_wf wire st \<longleftrightarrow>
     12 \<le> st_cursor st \<and> st_cursor st \<le> length wire \<and> cookie_wf wire (st_cookie st)
     \<and> (st_cookie st \<noteq> None \<longrightarrow> st_edns st \<noteq> None)"

text \<open>Two contexts that differ at most in their EDNS view.\<close>

definition same_context :: "reply_context option \<Rightarrow> reply_context option \<Rightarrow> bool" where
  "same_context c d \<longleftrightarrow> map_option (\<lambda>x. (rc_header x, rc_question x)) c
                      = map_option (\<lambda>x. (rc_header x, rc_question x)) d"

lemma same_context_refl [simp]: "same_context c c"
  by (simp add: same_context_def)

lemma same_context_edns [simp]: "same_context c (map_option (\<lambda>x. x\<lparr>rc_edns := e\<rparr>) c)"
  by (simp add: same_context_def option.map_comp comp_def)

lemma same_context_trans: "same_context a b \<Longrightarrow> same_context b c \<Longrightarrow> same_context a c"
  by (simp add: same_context_def)

lemma record_fields:
  assumes "reader_resource_record w c = Ok (r, c')"
  shows "rr_data_start r = c'" and "c' \<le> rr_data_end r" and "valid_name (rr_owner r)"
    and "rr_kind r = Type_Opt \<longleftrightarrow> (\<exists>n. rr_class r = Udp_Payload n)"
  using assms
  by (auto simp: reader_resource_record_def outcome Let_def reader_name_def dest: decode_valid
      split: if_splits)

lemma parse_opt_total:
  assumes "2 \<le> rr_data_start r" and "rr_data_start r = c" "c \<le> rr_data_end r"
  shows "parse_opt wire sect r c st \<noteq> Panic"
proof -
  obtain f where "locate wire (rr_data_start r) (rr_data_end r - rr_data_start r) = Ok f"
    using locate_wf [OF assms(1)] by metis
  then show ?thesis
    using assms
    by (auto simp: parse_opt_def Let_def rbind_eq_Panic reader_take_eq validate_options_total
        outcome split: class_field.splits if_splits)
qed

lemma parse_opt_Ok:
  assumes "parse_opt wire sect r c st = Ok st'" and "2 \<le> rr_data_start r"
  shows "c \<le> st_cursor st' \<and> st_cursor st' \<le> length wire \<and> cookie_wf wire (st_cookie st')
    \<and> st_edns st = None \<and> st_edns st' \<noteq> None \<and> sect = Additional \<and> labels (rr_owner r) = []
    \<and> same_context (st_context st) (st_context st')
    \<and> st_authenticated st' = st_authenticated st"
proof -
  obtain f where f: "locate wire (rr_data_start r) (rr_data_end r - rr_data_start r) = Ok f"
      "cookie_wf wire f"
    using locate_wf [OF assms(2)] by metis
  then show ?thesis
    using assms(1)
    by (auto simp: parse_opt_def Let_def outcome reader_take_eq label_count_def
        split: class_field.splits if_splits)
qed

lemma parse_opt_Err:
  "parse_opt wire sect r c st = Err (e, ctx) \<Longrightarrow> same_context (st_context st) ctx"
  by (auto simp: parse_opt_def Let_def outcome split: class_field.splits if_splits)

lemma parse_record_total:
  assumes "state_wf wire st"
  shows "parse_record wire sect st \<noteq> Panic"
proof
  assume "parse_record wire sect st = Panic"
  then obtain r c where r: "reader_resource_record wire (st_cursor st) = Ok (r, c)"
      and "parse_opt wire sect r c st = Panic"
    by (auto simp: parse_record_def rbind_eq_Panic outcome validate_data_total
        record_reader.total split: if_splits)
  moreover have "12 \<le> c"
    using assms record_reader.progress [OF r] by (simp add: state_wf_def)
  ultimately show False
    using record_fields [OF r] parse_opt_total [of r c] by simp
qed

lemma parse_record_Ok:
  assumes "parse_record wire sect st = Ok st'" and wf: "state_wf wire st"
  shows "state_wf wire st' \<and> st_cursor st < st_cursor st'
    \<and> same_context (st_context st) (st_context st')"
proof -
  obtain r c where r: "reader_resource_record wire (st_cursor st) = Ok (r, c)"
    using assms(1) by (auto simp: parse_record_def outcome)
  have c: "st_cursor st < c" "c \<le> length wire" "12 \<le> c"
    using record_reader.progress [OF r] wf by (auto simp: state_wf_def)
  show ?thesis
  proof (cases "rr_kind r = Type_Opt")
    case True
    then obtain st'' where opt: "parse_opt wire sect r c st = Ok st''"
      and st': "st' = st''\<lparr>st_authenticated := st_authenticated st'\<rparr>"
      using assms(1) r by (auto simp: parse_record_def outcome)
    have "state_wf wire st''" "st_cursor st < st_cursor st''"
        "same_context (st_context st) (st_context st'')"
      using parse_opt_Ok [OF opt] record_fields(1) [OF r] c by (auto simp: state_wf_def)
    then show ?thesis by (subst (1 2 3) st') (simp add: state_wf_def)
  next
    case False
    then show ?thesis
      using assms(1) r c wf record_fields [OF r]
      by (auto simp: parse_record_def outcome reader_take_eq state_wf_def split: if_splits)
  qed
qed

lemma parse_record_Err:
  assumes "parse_record wire sect st = Err (e, ctx)"
  shows "same_context (st_context st) ctx"
  using assms by (auto simp: parse_record_def outcome dest: parse_opt_Err split: if_splits)

text \<open>The loops over records and sections keep the invariant of one record.\<close>

definition keeps_state :: "u8 list \<Rightarrow> parse_state \<Rightarrow> (inner_error, parse_state) result \<Rightarrow> bool" where
  "keeps_state wire st r \<longleftrightarrow>
     (case r of
        Ok st' \<Rightarrow> state_wf wire st' \<and> same_context (st_context st) (st_context st')
      | Err (e, ctx) \<Rightarrow> same_context (st_context st) ctx
      | Panic \<Rightarrow> False)"

lemma keeps_state_bind:
  assumes "keeps_state wire st m" and "\<And>st'. state_wf wire st' \<Longrightarrow> keeps_state wire st' (f st')"
  shows "keeps_state wire st (rbind m f)"
proof (cases m)
  case (Ok st')
  then have "state_wf wire st'" "same_context (st_context st) (st_context st')"
    using assms(1) by (auto simp: keeps_state_def)
  with assms(2) [of st'] Ok show ?thesis
    by (auto simp: keeps_state_def split: result.splits prod.splits intro: same_context_trans)
qed (use assms(1) in \<open>auto simp: keeps_state_def\<close>)

lemma parse_record_keeps: "state_wf wire st \<Longrightarrow> keeps_state wire st (parse_record wire sect st)"
  using parse_record_total [of wire st sect] parse_record_Ok [of wire sect st]
    parse_record_Err [of wire sect st]
  by (auto simp: keeps_state_def split: result.split)

lemma parse_records_keeps: "state_wf wire st \<Longrightarrow> keeps_state wire st (parse_records wire sect n st)"
proof (induction n arbitrary: st)
  case 0
  then show ?case by (simp add: keeps_state_def)
next
  case (Suc n)
  then show ?case by (simp add: keeps_state_bind parse_record_keeps)
qed

lemma parse_sections_keeps: "state_wf wire st \<Longrightarrow> keeps_state wire st (parse_sections wire ss st)"
proof (induction ss arbitrary: st)
  case Nil
  then show ?case by (simp add: keeps_state_def)
next
  case (Cons s ss)
  then show ?case by (cases s) (simp add: keeps_state_bind parse_records_keeps)
qed

section \<open>Parsed packets\<close>

text \<open>What a successful parse establishes about a packet.\<close>

definition question_wf :: "question \<Rightarrow> bool" where
  "question_wf q \<longleftrightarrow>
     valid_name (qu_name q) \<and> qu_kind q \<in> range record_type_from_wire
     \<and> qu_class q \<in> range record_class_from_wire"

definition packet_wf :: "packet \<Rightarrow> bool" where
  "packet_wf p \<longleftrightarrow>
     12 \<le> length (pk_wire p) \<and> length (pk_wire p) \<le> 65535
     \<and> pk_header p = header_of (pk_wire p)
     \<and> length (pk_questions p) = unat (count_questions (hd_counts (pk_header p)))
     \<and> (header_opcode (pk_header p) = Opcode_Query \<longrightarrow> length (pk_questions p) \<le> 1)
     \<and> list_all question_wf (pk_questions p)
     \<and> packet_cookie_wf p \<and> (pk_cookie p \<noteq> None \<longrightarrow> pk_edns p \<noteq> None)"

lemma packet_wf_cookie: "packet_wf p \<Longrightarrow> packet_cookie_wf p"
  by (simp add: packet_wf_def)

lemma reader_question_wf: "reader_question w c = Ok (q, c') \<Longrightarrow> question_wf q"
  by (auto simp: reader_question_def outcome reader_name_def question_wf_def dest: decode_valid)

lemma parse_questions_total: "parse_questions wire n cursor acc \<noteq> Panic"
  by (induction n arbitrary: cursor acc) (auto simp: rbind_eq_Panic question_reader.total)

lemma parse_questions_Ok:
  "parse_questions wire n cursor acc = Ok (qs, c) \<Longrightarrow> list_all question_wf acc \<Longrightarrow>
     cursor \<le> length wire \<Longrightarrow>
     length qs = length acc + n \<and> list_all question_wf qs \<and> cursor \<le> c \<and> c \<le> length wire"
proof (induction n arbitrary: cursor acc)
  case (Suc n)
  then obtain q c' where q: "reader_question wire cursor = Ok (q, c')"
    and rest: "parse_questions wire n c' (acc @ [q]) = Ok (qs, c)"
    by (auto simp: outcome)
  then show ?case
    using Suc.IH [OF rest] Suc.prems reader_question_wf [OF q] question_reader.progress [OF q]
    by auto
qed auto

text \<open>What the context of a failed parse may hold.\<close>

definition context_wf :: "u8 list \<Rightarrow> reply_context option \<Rightarrow> bool" where
  "context_wf wire ctx \<longleftrightarrow>
     (case ctx of
        None \<Rightarrow> \<not> (12 \<le> length wire \<and> length wire \<le> 65535
                  \<and> header_message_type (header_of wire) = MessageQuery)
      | Some c \<Rightarrow> 12 \<le> length wire \<and> rc_header c = header_of wire
                  \<and> header_message_type (header_of wire) = MessageQuery
                  \<and> (\<forall>q. rc_question c = Some q \<longrightarrow> question_wf q))"

lemma context_wf_same: "context_wf wire c \<Longrightarrow> same_context c d \<Longrightarrow> context_wf wire d"
  by (cases c; cases d) (auto simp: context_wf_def same_context_def)

definition initial_context :: "u8 list \<Rightarrow> question option \<Rightarrow> reply_context option" where
  "initial_context wire q =
     (if header_message_type (header_of wire) = MessageQuery
      then Some \<lparr>rc_header = header_of wire, rc_question = q, rc_edns = None\<rparr> else None)"

lemma initial_context_wf:
  "12 \<le> length wire \<Longrightarrow> (\<And>x. q = Some x \<Longrightarrow> question_wf x) \<Longrightarrow>
     context_wf wire (initial_context wire q)"
  by (auto simp: context_wf_def initial_context_def)

lemma initial_context_None [simp]: "12 \<le> length wire \<Longrightarrow> context_wf wire (initial_context wire None)"
  by (rule initial_context_wf) auto

abbreviation first_question :: "question list \<Rightarrow> question option" where
  "first_question qs \<equiv> (case qs of [] \<Rightarrow> None | q # _ \<Rightarrow> Some q)"

definition counts_fit :: "u8 list \<Rightarrow> bool" where
  "counts_fit wire \<longleftrightarrow>
     (let counts = hd_counts (header_of wire) in
      \<not> (unat (count_questions counts) > 1 \<and> header_opcode (header_of wire) = Opcode_Query)
      \<and> unat (count_questions counts) * 5
          + (unat (count_answers counts) + unat (count_authorities counts)
             + unat (count_additionals counts)) * 11 \<le> length wire - 12)"

text \<open>\<open>parse_inner\<close> in three stages: the counts, the questions, the records.\<close>

lemma parse_inner_eq:
  "parse_inner wire =
     (if length wire > 65535 then Err (OversizedMessage, None)
      else if length wire < 12 then Err (UnexpectedEnd, None)
      else if \<not> counts_fit wire then Err (InvalidCount, initial_context wire None)
      else
        rbind (map_err (\<lambda>e. (e, initial_context wire None))
            (parse_questions wire (unat (count_questions (hd_counts (header_of wire)))) 12 []))
          (\<lambda>(qs, cursor).
          rbind (parse_sections wire (record_sections (hd_counts (header_of wire)))
              \<lparr>st_cursor = cursor, st_edns = None, st_cookie = None, st_authenticated = False,
               st_context = initial_context wire (first_question qs)\<rparr>) (\<lambda>st.
            if st_cursor st \<noteq> length wire then Err (TrailingData, st_context st)
            else Ok \<lparr>pk_wire = wire, pk_header = header_of wire, pk_questions = qs,
                     pk_edns = st_edns st, pk_authenticated = st_authenticated st,
                     pk_cookie = st_cookie st\<rparr>)))"
  by (auto simp: parse_inner_def header_parse_eq Let_def counts_fit_def record_sections_def
      initial_context_def algebra_simps intro!: rbind_cong)

definition parse_inner_spec :: "u8 list \<Rightarrow> (inner_error, packet) result \<Rightarrow> bool" where
  "parse_inner_spec wire r \<longleftrightarrow>
     (case r of
        Ok p \<Rightarrow> packet_wf p \<and> pk_wire p = wire
      | Err (e, ctx) \<Rightarrow> context_wf wire ctx
      | Panic \<Rightarrow> False)"

lemma parse_inner_records:
  assumes len: "12 \<le> length wire" "length wire \<le> 65535" and fit: "counts_fit wire"
    and qs: "parse_questions wire (unat (count_questions (hd_counts (header_of wire)))) 12 []
      = Ok (qs, cursor)"
    and st: "st = \<lparr>st_cursor = cursor, st_edns = None, st_cookie = None, st_authenticated = False,
      st_context = initial_context wire (first_question qs)\<rparr>"
  shows "parse_inner_spec wire
    (rbind (parse_sections wire (record_sections (hd_counts (header_of wire))) st) (\<lambda>st.
       if st_cursor st \<noteq> length wire then Err (TrailingData, st_context st)
       else Ok \<lparr>pk_wire = wire, pk_header = header_of wire, pk_questions = qs,
                pk_edns = st_edns st, pk_authenticated = st_authenticated st,
                pk_cookie = st_cookie st\<rparr>))" (is "parse_inner_spec wire (rbind ?m ?f)")
proof -
  have q: "length qs = unat (count_questions (hd_counts (header_of wire)))"
      "list_all question_wf qs" "12 \<le> cursor" "cursor \<le> length wire"
    using parse_questions_Ok [OF qs] len by auto
  have ctx: "context_wf wire (st_context st)"
    using len q(2) by (auto simp: st intro!: initial_context_wf split: list.splits)
  have "state_wf wire st" using q by (simp add: st state_wf_def cookie_wf_def)
  then have k: "keeps_state wire st ?m" by (rule parse_sections_keeps)
  show ?thesis
  proof (cases ?m)
    case (Ok st')
    with k have wf: "state_wf wire st'" "context_wf wire (st_context st')"
      using ctx by (auto simp: keeps_state_def intro: context_wf_same)
    with Ok q len fit show ?thesis
      by (auto simp: parse_inner_spec_def packet_wf_def state_wf_def counts_fit_def Let_def)
  next
    case (Err e)
    with k ctx show ?thesis
      by (cases e) (auto simp: keeps_state_def parse_inner_spec_def intro: context_wf_same)
  next
    case Panic
    with k show ?thesis by (simp add: keeps_state_def)
  qed
qed

lemma parse_inner_sound: "parse_inner_spec wire (parse_inner wire)"
proof (cases "12 \<le> length wire \<and> length wire \<le> 65535 \<and> counts_fit wire")
  case True
  let ?qs = "parse_questions wire (unat (count_questions (hd_counts (header_of wire)))) 12 []"
  show ?thesis
  proof (cases ?qs)
    case (Ok r)
    obtain qs cursor where "r = (qs, cursor)" by (cases r)
    with True Ok show ?thesis by (simp add: parse_inner_eq parse_inner_records)
  next
    case (Err e)
    with True show ?thesis by (simp add: parse_inner_eq parse_inner_spec_def)
  next
    case Panic
    then show ?thesis by (simp add: parse_questions_total)
  qed
next
  case False
  then show ?thesis
    by (auto simp: parse_inner_eq parse_inner_spec_def, auto simp: context_wf_def)
qed

lemma parse_panic_free [panic_free]: "parse wire \<noteq> Panic"
  using parse_inner_sound [of wire] by (auto simp: parse_def parse_inner_spec_def outcome)

lemma packet_parse_panic_free [panic_free]: "packet_parse wire \<noteq> Panic"
  by (simp add: packet_parse_def map_err_eq_Panic parse_panic_free)

lemma parse_Ok: "parse wire = Ok p \<Longrightarrow> packet_wf p \<and> pk_wire p = wire"
  using parse_inner_sound [of wire] by (auto simp: parse_def parse_inner_spec_def outcome)

lemma packet_parse_Ok: "packet_parse wire = Ok p \<longleftrightarrow> parse wire = Ok p"
  by (simp add: packet_parse_def map_err_eq_Ok)

lemma parse_Err:
  assumes "parse wire = Err f"
  shows "context_wf wire (pf_context f)"
    and "pf_error f \<noteq> InvalidEdns \<Longrightarrow> pf_context f = Some c \<Longrightarrow> rc_question c = None \<and> rc_edns c = None"
proof -
  obtain e ctx where e: "parse_inner wire = Err (e, ctx)"
    and f: "f = \<lparr>pf_error = e, pf_context = (if e \<noteq> InvalidEdns
        then map_option (\<lambda>c. c\<lparr>rc_question := None, rc_edns := None\<rparr>) ctx else ctx)\<rparr>"
    using assms by (auto simp: parse_def outcome)
  have "context_wf wire ctx" using parse_inner_sound [of wire] e by (simp add: parse_inner_spec_def)
  then show "context_wf wire (pf_context f)"
    by (auto simp: f context_wf_def split: option.splits)
  show "pf_error f \<noteq> InvalidEdns \<Longrightarrow> pf_context f = Some c \<Longrightarrow> rc_question c = None \<and> rc_edns c = None"
    by (auto simp: f)
qed

section \<open>Reading known bytes\<close>

text \<open>\<open>sees w c bs\<close>: the bytes of message \<open>w\<close> from offset \<open>c\<close> on are \<open>bs\<close>.\<close>

definition sees :: "u8 list \<Rightarrow> nat \<Rightarrow> u8 list \<Rightarrow> bool" where
  "sees w c bs \<longleftrightarrow> length w \<le> 65535 \<and> c \<le> length w \<and> drop c w = bs"

lemma sees_length: "sees w c bs \<Longrightarrow> length w = c + length bs"
  by (auto simp: sees_def)

lemma sees_skip: "sees w c (bs @ rest) \<Longrightarrow> n = length bs \<Longrightarrow> sees w (c + n) rest"
  using drop_prefix [of c w bs rest] by (auto simp: sees_def)

lemma sees_nth: "sees w c bs \<Longrightarrow> i < length bs \<Longrightarrow> w ! (c + i) = bs ! i"
  by (auto simp: sees_def)

lemma sees_take:
  assumes "sees w c (bs @ rest)" and "n = length bs"
  shows "reader_take w c n = Ok (bs, c + n)"
  using assms sees_length [OF assms(1)] by (auto simp: reader_take_eq sees_def)

lemma sees_word:
  assumes "sees w c (u16_to_be_bytes x @ rest)"
  shows "reader_word w c = Ok (x, c + 2)" and "sees w (c + 2) rest" and "wire_word w c = x"
proof -
  show "wire_word w c = x"
    using sees_nth [OF assms, of 0] sees_nth [OF assms, of 1]
    by (simp add: wire_word_def nth_append u16_to_be_bytes_def u16_be_roundtrip)
  then show "reader_word w c = Ok (x, c + 2)"
    using sees_length [OF assms] assms by (simp add: reader_word_eq sees_def)
  show "sees w (c + 2) rest" by (rule sees_skip [OF assms]) simp
qed

lemma sees_double_word:
  assumes "sees w c (u32_to_be_bytes x @ rest)"
  shows "reader_double_word w c = Ok (x, c + 4)" and "sees w (c + 4) rest"
proof -
  have "wire_double_word w c = x"
    using sees_nth [OF assms, of 0] sees_nth [OF assms, of 1] sees_nth [OF assms, of 2]
      sees_nth [OF assms, of 3]
    by (simp add: wire_double_word_def nth_append u32_to_be_bytes_def u32_be_roundtrip)
  then show "reader_double_word w c = Ok (x, c + 4)"
    using sees_length [OF assms] assms by (simp add: reader_double_word_eq sees_def)
  show "sees w (c + 4) rest" by (rule sees_skip [OF assms]) simp
qed

lemma sees_name:
  assumes "sees w c (concat (map encode_label (labels n)) @ 0 # rest)" and "valid_name n"
  shows "reader_name w c = Ok (n, c + labels_length (labels n) + 1)"
    and "sees w (c + labels_length (labels n) + 1) rest"
proof -
  show "reader_name w c = Ok (n, c + labels_length (labels n) + 1)"
    using assms decode_loop_encoded [of c w "labels n" rest 1]
    by (simp add: reader_name_def decode_def sees_def valid_name_def)
  show "sees w (c + labels_length (labels n) + 1) rest"
    using sees_skip [of w c "concat (map encode_label (labels n)) @ [0]" rest] assms(1)
    by (simp add: add.assoc)
qed

definition question_bytes :: "question \<Rightarrow> u8 list" where
  "question_bytes q =
     concat (map encode_label (labels (qu_name q))) @ [0]
     @ u16_to_be_bytes (record_type_wire (qu_kind q))
     @ u16_to_be_bytes (record_class_wire (qu_class q))"

lemma question_encode_eq: "question_encode q out = out @ question_bytes q"
  by (simp add: question_encode_def question_bytes_def encode_def)

lemma length_question_bytes:
  "length (question_bytes q) = labels_length (labels (qu_name q)) + 5"
  by (simp add: question_bytes_def)

lemma sees_question:
  assumes "sees w c (question_bytes q @ rest)" and "question_wf q"
  shows "reader_question w c = Ok (q, c + length (question_bytes q))"
    and "sees w (c + length (question_bytes q)) rest"
proof -
  let ?c = "c + labels_length (labels (qu_name q)) + 1"
  have n: "reader_name w c = Ok (qu_name q, ?c)"
      "sees w ?c (u16_to_be_bytes (record_type_wire (qu_kind q))
        @ u16_to_be_bytes (record_class_wire (qu_class q)) @ rest)"
    using sees_name [of w c "qu_name q"] assms by (auto simp: question_bytes_def question_wf_def)
  note k = sees_word [OF n(2)]
  note l = sees_word [OF k(2)]
  have "record_type_from_wire (record_type_wire (qu_kind q)) = qu_kind q"
      "record_class_from_wire (record_class_wire (qu_class q)) = qu_class q"
    using assms(2) by (auto simp: question_wf_def rtype.canonical_iff rclass.canonical_iff)
  then show "reader_question w c = Ok (q, c + length (question_bytes q))"
    unfolding reader_question_def n(1) rbind.simps prod.case k(1) l(1)
    by (simp add: length_question_bytes)
  show "sees w (c + length (question_bytes q)) rest"
    by (rule sees_skip [OF assms(1)]) simp
qed

section \<open>A sample message\<close>

text \<open>A client's A query for \<^verbatim>\<open>a.bc.\<close>, evaluated step by step; the examples of later theories start from it.\<close>

definition sample_wire :: "u8 list" where
  "sample_wire = [0x12, 0x34, 1, 0, 0, 1, 0, 0, 0, 0, 0, 0, 1, 97, 2, 98, 99, 0, 0, 1, 0, 1]"

definition sample_question :: question where
  "sample_question = \<lparr>qu_name = DomainName [[97], [98, 99]], qu_kind = Type_A, qu_class = Class_In\<rparr>"

definition sample_packet :: packet where
  "sample_packet = \<lparr>pk_wire = sample_wire, pk_header = header_of sample_wire,
     pk_questions = [sample_question], pk_edns = None, pk_authenticated = False, pk_cookie = None\<rparr>"

lemma sample_decode: "decode sample_wire 12 = Ok (DomainName [[97], [98, 99]], 18)"
  by (simp add: sample_wire_def decode_def decode_loop.simps get_def get_range_def)

lemma sample_header:
  "header_of sample_wire = \<lparr>hd_id = TransactionId 0x1234, hd_flags = 0x100, hd_counts =
     \<lparr>count_questions = 1, count_answers = 0, count_authorities = 0, count_additionals = 0\<rparr>\<rparr>"
  by (simp add: header_of_def sample_wire_def wire_word_def u16_from_be_bytes_def)

lemma sample_length: "length sample_wire = 22"
  by (simp add: sample_wire_def)

lemma sample_reader_question: "reader_question sample_wire 12 = Ok (sample_question, 22)"
  by (simp add: reader_question_def reader_name_def sample_decode reader_word_def reader_take_def
      record_type_from_wire_def record_class_from_wire_def sample_question_def)
    (simp add: sample_wire_def get_range_def checked_add_def index_def u16_from_be_bytes_def)

lemma sample_parse: "parse sample_wire = Ok sample_packet"
  by (simp add: parse_def parse_inner_def header_parse_eq sample_header header_message_type_def
      header_opcode_def record_sections_def sample_reader_question sample_length sample_packet_def)

lemma sample_forwardable: "forwardable sample_packet"
  by (simp add: forwardable_def sample_packet_def sample_header header_message_type_def
      header_opcode_def header_truncated_def packet_response_code_def sample_question_def
      is_refused_kind_def opcode_from_wire_def response_code_from_wire_def)

section \<open>Properties of the parser\<close>


end
