(* ===== verification/Dns_Reply.thy ===== *)
theory Dns_Reply
  imports Dns_Parser
begin

text \<open>
  Locally generated replies (\<^verbatim>\<open>src/dns/reply.rs\<close>, \<^verbatim>\<open>ParseFailure::format_reply\<close> of
  \<^verbatim>\<open>src/dns/error.rs\<close>): error replies, header-only FORMERR, local A answers and minimal
  truncated replies, all built by \<open>make_reply\<close>. An IPv4 address is its 32-bit number.

  Proved here: the exact length of a reply and its bound; every reply parses, with the
  question, EDNS data, answer count and cookie it was built from; its response code, opcode and
  transaction id are those requested; no reply echoes a server cookie the program cannot verify.
\<close>

section \<open>Building replies\<close>

type_synonym ipv4_addr = u32

definition without_recursion :: "u8 list \<Rightarrow> ('e, u8 list) result" where
  "without_recursion wire =
     rbind (index wire 3) (\<lambda>b. Ok (wire[3 := b AND NOT (ucast RA_MASK)]))"

datatype generated_option = Opt_Absent | Opt_Present bool "u8 list option"

definition generated_opt :: "edns option \<Rightarrow> generated_option" where
  "generated_opt e = (case e of Some opt \<Rightarrow> Opt_Present (dnssec_ok opt) None | None \<Rightarrow> Opt_Absent)"

definition reply_flags :: "u16 \<Rightarrow> response_code \<Rightarrow> bool \<Rightarrow> u16" where
  "reply_flags flags code truncated =
     (flags AND (OPCODE_MASK OR RD_MASK OR CD_MASK)) OR QR_MASK OR RA_MASK
     OR (response_code_wire code AND RCODE_MASK) OR (if truncated then TC_MASK else 0)"

definition reply_header ::
  "header \<Rightarrow> question option \<Rightarrow> response_code \<Rightarrow> bool \<Rightarrow> generated_option
   \<Rightarrow> (ipv4_addr \<times> u32) option \<Rightarrow> header" where
  "reply_header h question code truncated opt answer =
     \<lparr>hd_id = hd_id h, hd_flags = reply_flags (hd_flags h) code truncated,
      hd_counts = \<lparr>count_questions = of_bool (question \<noteq> None),
                   count_answers = of_bool (answer \<noteq> None), count_authorities = 0,
                   count_additionals = of_bool (opt \<noteq> Opt_Absent)\<rparr>\<rparr>"

definition answer_bytes :: "ipv4_addr \<times> u32 \<Rightarrow> u8 list" where
  "answer_bytes a =
     (case a of (address, ttl) \<Rightarrow>
        [0xc0, 0x0c] @ u16_to_be_bytes (record_type_wire Type_A)
        @ u16_to_be_bytes (record_class_wire Class_In) @ u32_to_be_bytes ttl
        @ u16_to_be_bytes 4 @ u32_to_be_bytes address)"

definition opt_ttl :: "response_code \<Rightarrow> bool \<Rightarrow> u32" where
  "opt_ttl code dnssec =
     (let extended = ucast (ucast (drop_bit 4 (response_code_wire code)) :: u8) :: u32
      in push_bit EXTENDED_RCODE_SHIFT extended OR (if dnssec then DO_MASK else 0))"

definition opt_bytes :: "response_code \<Rightarrow> bool \<Rightarrow> u8 list option \<Rightarrow> u8 list" where
  "opt_bytes code dnssec cookie =
     [0] @ u16_to_be_bytes (record_type_wire Type_Opt)
     @ u16_to_be_bytes (of_nat SERVER_UDP_LENGTH) @ u32_to_be_bytes (opt_ttl code dnssec)
     @ u16_to_be_bytes (of_nat (case cookie of None \<Rightarrow> 0 | Some c \<Rightarrow> 4 + length c))
     @ (case cookie of
          None \<Rightarrow> []
        | Some c \<Rightarrow> u16_to_be_bytes 10 @ u16_to_be_bytes (of_nat (length c)) @ c)"

definition make_reply ::
  "header \<Rightarrow> question option \<Rightarrow> response_code \<Rightarrow> bool \<Rightarrow> generated_option
   \<Rightarrow> (ipv4_addr \<times> u32) option \<Rightarrow> u8 list" where
  "make_reply h question code truncated opt answer =
     (let wire = header_encode (reply_header h question code truncated opt answer) [];
          wire = (case question of None \<Rightarrow> wire | Some q \<Rightarrow> question_encode q wire);
          wire = (case answer of None \<Rightarrow> wire | Some a \<Rightarrow> wire @ answer_bytes a) in
      case opt of
        Opt_Absent \<Rightarrow> wire
      | Opt_Present dnssec cookie \<Rightarrow> wire @ opt_bytes code dnssec cookie)"

section \<open>Replies of a packet, a header and a failed parse\<close>

definition header_error_reply :: "header \<Rightarrow> header_response_code \<Rightarrow> u8 list" where
  "header_error_reply h code = make_reply h None (as_response code) False Opt_Absent None"

definition context_format_reply :: "reply_context \<Rightarrow> u8 list" where
  "context_format_reply c =
     (if rc_edns c = None then header_error_reply (rc_header c) FORMAT_ERROR
      else make_reply (rc_header c) (rc_question c) FormatError False
             (generated_opt (rc_edns c)) None)"

definition failure_format_reply :: "parse_failure \<Rightarrow> u8 list option" where
  "failure_format_reply f = map_option context_format_reply (pf_context f)"

definition error_reply :: "packet \<Rightarrow> response_code \<Rightarrow> u8 list" where
  "error_reply p code =
     make_reply (pk_header p) (first_question (pk_questions p)) code False
       (generated_opt (pk_edns p)) None"

definition local_a_reply :: "packet \<Rightarrow> ipv4_addr \<Rightarrow> u32 \<Rightarrow> ('e, u8 list option) result" where
  "local_a_reply p address ttl =
     rbind (response_cookie p) (\<lambda>cookie.
       if (case cookie of None \<Rightarrow> False | Some c \<Rightarrow> length c > 8) then Ok None
       else
         (case first_question (pk_questions p) of
            None \<Rightarrow> Ok None
          | Some question \<Rightarrow>
              let code = (if qu_class question = Class_In then NoError else Refused);
                  answer = (if qu_class question = Class_In
                                \<and> (qu_kind question = Type_A \<or> qu_kind question = Type_Any)
                            then Some (address, ttl) else None) in
              Ok (Some (make_reply (pk_header p) (Some question) code False
                         (generated_opt (pk_edns p)) answer))))"

definition local_error_reply :: "packet \<Rightarrow> response_code \<Rightarrow> ('e, u8 list option) result" where
  "local_error_reply p code =
     rbind (response_cookie p) (\<lambda>cookie.
       if (case cookie of None \<Rightarrow> False | Some c \<Rightarrow> length c > 8) then Ok None
       else Ok (Some (error_reply p code)))"

definition truncated_reply :: "packet \<Rightarrow> packet \<Rightarrow> ('e, u8 list) result" where
  "truncated_reply p response =
     rbind (case generated_opt (pk_edns p) of
              Opt_Absent \<Rightarrow> Ok Opt_Absent
            | Opt_Present d _ \<Rightarrow>
                rbind (response_cookie response) (\<lambda>cookie. Ok (Opt_Present d cookie))) (\<lambda>opt.
       Ok (make_reply (pk_header p) (first_question (pk_questions p))
             (packet_response_code response) True opt None))"

section \<open>Length of a reply\<close>

lemma length_answer_bytes [simp]: "length (answer_bytes a) = 16"
  by (cases a) (simp add: answer_bytes_def)

lemma length_opt_bytes [simp]:
  "length (opt_bytes code d cookie) = 11 + (case cookie of None \<Rightarrow> 0 | Some c \<Rightarrow> 4 + length c)"
  by (simp add: opt_bytes_def split: option.split)

definition tail_bytes ::
  "response_code \<Rightarrow> generated_option \<Rightarrow> (ipv4_addr \<times> u32) option \<Rightarrow> u8 list" where
  "tail_bytes code opt answer =
     (case answer of None \<Rightarrow> [] | Some a \<Rightarrow> answer_bytes a)
     @ (case opt of Opt_Absent \<Rightarrow> [] | Opt_Present d cookie \<Rightarrow> opt_bytes code d cookie)"

lemma make_reply_eq:
  "make_reply h question code truncated opt answer =
     header_encode (reply_header h question code truncated opt answer) []
     @ (case question of None \<Rightarrow> [] | Some q \<Rightarrow> question_bytes q)
     @ tail_bytes code opt answer"
  by (simp add: make_reply_def Let_def question_encode_eq tail_bytes_def
      split: option.split generated_option.split)

definition cookie_length_ok :: "u8 list option \<Rightarrow> bool" where
  "cookie_length_ok cookie \<longleftrightarrow>
     (\<forall>c. cookie = Some c \<longrightarrow> length c = 8 \<or> (16 \<le> length c \<and> length c \<le> 40))"

fun opt_cookie_ok :: "generated_option \<Rightarrow> bool" where
  "opt_cookie_ok Opt_Absent = True"
| "opt_cookie_ok (Opt_Present d cookie) = cookie_length_ok cookie"

lemma length_make_reply_bound:
  assumes "\<And>q. question = Some q \<Longrightarrow> question_wf q" and "opt_cookie_ok opt"
  shows "length (make_reply h question code truncated opt answer) \<le> 342"
proof -
  have "length (case question of None \<Rightarrow> [] | Some q \<Rightarrow> question_bytes q) \<le> 259"
    using assms(1)
    by (auto simp: length_question_bytes question_wf_def valid_name_def split: option.split)
  moreover have "length (tail_bytes code opt answer) \<le> 71"
    using assms(2) by (cases opt) (auto simp: tail_bytes_def cookie_length_ok_def split: option.split)
  ultimately show ?thesis by (simp add: make_reply_eq length_header_encode)
qed

section \<open>Header fields of a reply\<close>

lemmas and_or_normalise = bit.conj_disj_distrib bit.conj_disj_distrib2 and.assoc

lemma reply_flags_QR: "reply_flags f code tc AND 0x8000 = 0x8000"
  by (simp add: reply_flags_def and_or_normalise)

lemma reply_flags_opcode: "reply_flags f code tc AND 0x7800 = f AND 0x7800"
  by (simp add: reply_flags_def and_or_normalise)

lemma reply_flags_TC: "reply_flags f code tc AND 0x0200 \<noteq> 0 \<longleftrightarrow> tc"
  by (simp add: reply_flags_def and_or_normalise)

lemma reply_flags_rcode: "reply_flags f code tc AND 0x000f = response_code_wire code AND 0x000f"
  by (simp add: reply_flags_def and_or_normalise)

lemma reply_header_fields [simp]:
  "header_message_type (reply_header h q code tc opt a) = MessageResponse"
  "header_opcode (reply_header h q code tc opt a) = header_opcode h"
  "header_truncated (reply_header h q code tc opt a) = tc"
  "hd_id (reply_header h q code tc opt a) = hd_id h"
  by (simp_all add: reply_header_def header_message_type_def header_opcode_def header_truncated_def
      reply_flags_QR reply_flags_opcode reply_flags_TC)

section \<open>EDNS fields of a reply\<close>

lemma bit_DO_mask [simp]:
  "bit (0x8000 :: int) n \<longleftrightarrow> n = 15" "bit (0x8000 :: nat) n \<longleftrightarrow> n = 15"
proof -
  have "(0x8000 :: int) = 2 ^ 15" "(0x8000 :: nat) = 2 ^ 15" by simp_all
  then show "bit (0x8000 :: int) n \<longleftrightarrow> n = 15" "bit (0x8000 :: nat) n \<longleftrightarrow> n = 15"
    by (simp_all only: bit_exp_iff) auto
qed

lemma bit_nibble [simp]: "bit (15 :: int) n \<longleftrightarrow> n < 4" "bit (15 :: nat) n \<longleftrightarrow> n < 4"
proof -
  have "(15 :: int) = mask 4" "(15 :: nat) = mask 4" by (simp_all add: mask_eq_exp_minus_1)
  then show "bit (15 :: int) n \<longleftrightarrow> n < 4" "bit (15 :: nat) n \<longleftrightarrow> n < 4"
    by (simp_all only: bit_mask_iff) auto
qed

lemma bit_low_byte [simp]: "bit (255 :: int) n \<longleftrightarrow> n < 8" "bit (255 :: nat) n \<longleftrightarrow> n < 8"
proof -
  have "(255 :: int) = mask 8" "(255 :: nat) = mask 8" by (simp_all add: mask_eq_exp_minus_1)
  then show "bit (255 :: int) n \<longleftrightarrow> n < 8" "bit (255 :: nat) n \<longleftrightarrow> n < 8"
    by (simp_all only: bit_mask_iff) auto
qed

lemma opt_ttl_version:
  "ucast (drop_bit 16 (push_bit 24 (ucast (x :: u8)) OR (if d then 0x8000 else 0) :: u32)) = (0 :: u8)"
  by (rule bit_eqI) (auto simp: bit_simps)

lemma opt_ttl_extended:
  "ucast (drop_bit 24 (push_bit 24 (ucast (x :: u8)) OR (if d then 0x8000 else 0) :: u32)) = x"
  by (rule bit_eqI) (auto simp: bit_simps)

lemma opt_ttl_dnssec:
  "(push_bit 24 (ucast (x :: u8)) OR (if d then 0x8000 else 0) :: u32) AND 0x8000 \<noteq> 0 \<longleftrightarrow> d"
proof -
  have "push_bit 24 (ucast (x :: u8) :: u32) AND 0x8000 = 0"
    by (rule bit_eqI) (auto simp: bit_simps)
  then show ?thesis by (simp add: bit.conj_disj_distrib2)
qed

definition reply_edns :: "response_code \<Rightarrow> bool \<Rightarrow> edns" where
  "reply_edns code d =
     \<lparr>udp_size = 1232, edns_version = 0,
      extended_rcode = ucast (drop_bit 4 (response_code_wire code)), dnssec_ok = d\<rparr>"

lemma opt_edns_reply: "opt_edns 1232 (opt_ttl code d) = reply_edns code d"
  by (simp only: opt_edns_def opt_ttl_def Let_def EDNS_VERSION_SHIFT_def EXTENDED_RCODE_SHIFT_def
      DO_MASK_def opt_ttl_version opt_ttl_extended opt_ttl_dnssec reply_edns_def)

lemma split_rcode:
  assumes "(c :: u16) < 4096"
  shows "push_bit 4 (ucast (ucast (drop_bit 4 c) :: u8)) OR c AND 15 = c"
proof -
  have "c AND mask 12 = c" using assms less_mask_eq [of c 12] by simp
  then have "bit c n \<Longrightarrow> n < 12" for n by (metis bit_and_iff bit_mask_iff)
  then have "bit c n \<Longrightarrow> n - 4 < 8" for n by fastforce
  then show ?thesis by (intro bit_eqI) (auto simp: bit_simps)
qed

section \<open>Every reply parses\<close>

text \<open>The answer record: its owner is a pointer to the question name at offset 12.\<close>

lemma parse_answer_record:
  assumes s: "sees w c (answer_bytes (address, ttl) @ rest)" and "12 < c"
    and name: "sees w 12 (concat (map encode_label (labels n)) @ 0 # post)" "valid_name n"
    and st: "st_cursor st = c"
  shows "parse_record w Answer st = Ok (st\<lparr>st_cursor := c + 16\<rparr>)" and "sees w (c + 16) rest"
proof -
  have d: "drop c w = 0xc0 # 0x0c # u16_to_be_bytes 1 @ u16_to_be_bytes 1 @ u32_to_be_bytes ttl
      @ u16_to_be_bytes 4 @ u32_to_be_bytes address @ rest" (is "_ = _ # _ # ?more")
    using s by (simp add: answer_bytes_def sees_def)
  have owner: "reader_name w c = Ok (n, c + 2)"
    unfolding reader_name_def
    by (rule decode_pointer [OF d, where target = 12 and post = post])
      (use assms in \<open>auto simp: sees_def u16_from_be_bytes_def\<close>)
  have s2: "sees w (c + 2) ?more"
    using s sees_skip [of w c "[0xc0, 0x0c]" ?more 2] by (simp add: answer_bytes_def)
  note k = sees_word [OF s2]
  note cl = sees_word [OF k(2)]
  note t = sees_double_word [OF cl(2)]
  note l = sees_word [OF t(2)]
  have data: "reader_take w (c + 2 + 2 + 2 + 4 + 2) 4 = Ok (u32_to_be_bytes address, c + 16)"
    using sees_take [OF l(2), of 4] by simp
  have "reader_resource_record w c = Ok (\<lparr>rr_owner = n, rr_kind = Type_A, rr_class = Class_Dns Class_In,
      rr_ttl = ttl, rr_data_start = c + 2 + 2 + 2 + 4 + 2,
      rr_data_end = c + 2 + 2 + 2 + 4 + 2 + 4\<rparr>, c + 2 + 2 + 2 + 4 + 2)"
    unfolding reader_resource_record_def owner rbind.simps prod.case k(1) cl(1) t(1) l(1)
    by (simp add: record_type_from_wire_def record_class_from_wire_def)
  then show "parse_record w Answer st = Ok (st\<lparr>st_cursor := c + 16\<rparr>)"
    using data by (simp add: parse_record_def st validate_data_def Let_def)
  show "sees w (c + 16) rest" by (rule sees_skip [OF s]) simp
qed

text \<open>The OPT record, with or without a COOKIE option.\<close>

definition option_bytes :: "u8 list option \<Rightarrow> u8 list" where
  "option_bytes cookie =
     (case cookie of
        None \<Rightarrow> []
      | Some c \<Rightarrow> u16_to_be_bytes 10 @ u16_to_be_bytes (of_nat (length c)) @ c)"

lemma validate_option_bytes:
  assumes "cookie_length_ok cookie"
  shows "validate_options (option_bytes cookie) = Ok ()"
proof (cases cookie)
  case None
  then show ?thesis by (simp add: validate_options_def option_bytes_def options_loop.simps)
next
  case (Some k)
  let ?b = "option_bytes cookie"
  have "sees ?b 0 (u16_to_be_bytes 10 @ u16_to_be_bytes (of_nat (length k)) @ k @ [])"
    using assms Some by (auto simp: sees_def option_bytes_def cookie_length_ok_def)
  note code = sees_word [OF this]
  note len = sees_word [OF code(2)]
  have "unat (of_nat (length k) :: u16) = length k"
    using assms Some by (auto simp: cookie_length_ok_def)
  then have "reader_take ?b (0 + 2 + 2) (unat (of_nat (length k) :: u16)) = Ok (k, length ?b)"
    using sees_take [OF len(2)] sees_length [OF len(2)] by simp
  moreover have "options_loop ?b (length ?b) = Ok ()" by (simp add: options_loop.simps)
  moreover have "0 < length ?b" using Some by (simp add: option_bytes_def)
  ultimately show ?thesis
    unfolding validate_options_def using code(1) len(1)
    by (subst options_loop.simps) simp
qed

definition reply_cookie :: "nat \<Rightarrow> u8 list option \<Rightarrow> cookie_field option" where
  "reply_cookie c cookie =
     map_option (\<lambda>k. Cookie_Present \<lparr>length_at = c + 2, data_at = c + 4, data_len = length k,
                                     rdlength_at = c - 2\<rparr>) cookie"

lemma locate_option_bytes:
  assumes "sees w c (option_bytes cookie)" and "cookie_length_ok cookie"
  shows "locate w c (length (option_bytes cookie)) = Ok (reply_cookie c cookie)"
proof (cases cookie)
  case None
  have "c \<le> 65535" using assms(1) by (auto simp: sees_def)
  with None show ?thesis
    by (simp add: locate_def option_bytes_def locate_loop.simps reply_cookie_def)
next
  case (Some k)
  have s: "sees w c (u16_to_be_bytes 10 @ u16_to_be_bytes (of_nat (length k)) @ k)"
    using assms(1) Some by (simp add: option_bytes_def)
  note code = sees_word [OF s]
  note len = sees_word [OF code(2)]
  have k: "unat (of_nat (length k) :: u16) = length k" "length k = 8 \<or> (16 \<le> length k \<and> length k \<le> 40)"
    using assms(2) Some by (auto simp: cookie_length_ok_def)
  have "length w \<le> 65535" using s by (simp add: sees_def)
  then show ?thesis
    using k sees_length [OF s] Some code(3) len(3)
    by (simp add: locate_def option_bytes_def locate_loop.simps [of w c] header_word_eq
        checked_add_def reply_cookie_def Let_def)
qed

lemma parse_opt_record:
  assumes s: "sees w c (opt_bytes code d cookie)" and "12 \<le> c" and ck: "cookie_length_ok cookie"
    and st: "st_cursor st = c" "st_edns st = None" "st_context st = None"
  shows "parse_record w Additional st =
    Ok (st\<lparr>st_cursor := length w, st_edns := Some (reply_edns code d),
          st_cookie := reply_cookie (c + 11) cookie\<rparr>)"
proof -
  let ?n = "length (option_bytes cookie)"
  have "?n < 65536" using ck by (auto simp: option_bytes_def cookie_length_ok_def split: option.split)
  then have n: "unat (of_nat ?n :: u16) = ?n" by (rule unat_of_nat_u16)
  have s0: "sees w c (concat (map encode_label (labels (DomainName []))) @ 0 # u16_to_be_bytes 41
      @ u16_to_be_bytes 1232 @ u32_to_be_bytes (opt_ttl code d) @ u16_to_be_bytes (of_nat ?n)
      @ option_bytes cookie)"
    using s by (cases cookie) (simp_all add: opt_bytes_def option_bytes_def add.commute)
  have root: "reader_name w c = Ok (DomainName [], c + 1)"
    "sees w (c + 1) (u16_to_be_bytes 41 @ u16_to_be_bytes 1232 @ u32_to_be_bytes (opt_ttl code d)
       @ u16_to_be_bytes (of_nat ?n) @ option_bytes cookie)"
    using sees_name [OF s0] by (simp_all add: valid_name_def)
  note k = sees_word [OF root(2)]
  note cl = sees_word [OF k(2)]
  note t = sees_double_word [OF cl(2)]
  note l = sees_word [OF t(2)]
  have at: "c + 1 + 2 + 2 + 4 + 2 = c + 11" by simp
  have o: "sees w (c + 11) (option_bytes cookie)" using l(2) unfolding at .
  have len: "length w = c + 11 + ?n" using sees_length [OF o] .
  have rr: "reader_resource_record w c = Ok (\<lparr>rr_owner = DomainName [], rr_kind = Type_Opt,
      rr_class = Udp_Payload 1232, rr_ttl = opt_ttl code d, rr_data_start = c + 11,
      rr_data_end = c + 11 + ?n\<rparr>, c + 11)"
    unfolding reader_resource_record_def root(1) rbind.simps prod.case k(1) cl(1) t(1) l(1)
    by (simp add: record_type_from_wire_def n)
  have data: "reader_take w (c + 11) ?n = Ok (option_bytes cookie, length w)"
    using sees_take [of w "c + 11" "option_bytes cookie" "[]"] o len by simp
  have "drop (c + 11) w = option_bytes cookie" using o by (simp add: sees_def)
  then show ?thesis
    using data st len validate_option_bytes [OF ck] locate_option_bytes [OF o ck]
    by (cases st) (simp add: parse_record_def rr parse_opt_def label_count_def Let_def opt_edns_reply
        slice_def)
qed

text \<open>The packet a reply parses to.\<close>

fun opt_reply_edns :: "response_code \<Rightarrow> generated_option \<Rightarrow> edns option" where
  "opt_reply_edns code Opt_Absent = None"
| "opt_reply_edns code (Opt_Present d cookie) = Some (reply_edns code d)"

fun opt_reply_cookie :: "nat \<Rightarrow> generated_option \<Rightarrow> cookie_field option" where
  "opt_reply_cookie c Opt_Absent = None"
| "opt_reply_cookie c (Opt_Present d cookie) = reply_cookie (c + 11) cookie"

definition question_list :: "question option \<Rightarrow> question list" where
  "question_list question = (case question of None \<Rightarrow> [] | Some q \<Rightarrow> [q])"

definition answers_end :: "question option \<Rightarrow> (ipv4_addr \<times> u32) option \<Rightarrow> nat" where
  "answers_end question answer =
     12 + length (concat (map question_bytes (question_list question)))
     + (case answer of None \<Rightarrow> 0 | Some _ \<Rightarrow> 16)"

definition reply_packet ::
  "header \<Rightarrow> question option \<Rightarrow> response_code \<Rightarrow> bool \<Rightarrow> generated_option
   \<Rightarrow> (ipv4_addr \<times> u32) option \<Rightarrow> packet" where
  "reply_packet h question code truncated opt answer =
     \<lparr>pk_wire = make_reply h question code truncated opt answer,
      pk_header = reply_header h question code truncated opt answer,
      pk_questions = question_list question, pk_edns = opt_reply_edns code opt,
      pk_authenticated = False, pk_cookie = opt_reply_cookie (answers_end question answer) opt\<rparr>"

lemma parse_reply_questions:
  assumes "sees w 12 (concat (map question_bytes (question_list question)) @ rest)"
    and "\<And>q. question = Some q \<Longrightarrow> question_wf q"
  shows "parse_questions w (of_bool (question \<noteq> None)) 12 [] =
      Ok (question_list question, 12 + length (concat (map question_bytes (question_list question))))"
proof (cases question)
  case (Some q)
  then have "sees w 12 (question_bytes q @ rest)" using assms(1) by (simp add: question_list_def)
  with Some assms(2) show ?thesis by (simp add: question_list_def sees_question(1))
qed (simp add: question_list_def)

lemma parse_reply_answer:
  assumes s: "sees w c ((case answer of None \<Rightarrow> [] | Some a \<Rightarrow> answer_bytes a) @ rest)"
    and "answer \<noteq> None \<Longrightarrow> question = Some q \<and> question_wf q"
    and "sees w 12 (concat (map question_bytes (question_list question)) @ tl_bytes)"
    and "12 + length (concat (map question_bytes (question_list question))) = c"
    and st: "st_cursor st = c"
  shows "parse_records w Answer (of_bool (answer \<noteq> None)) st =
      Ok (st\<lparr>st_cursor := c + (case answer of None \<Rightarrow> 0 | Some _ \<Rightarrow> 16)\<rparr>)"
proof (cases answer)
  case None
  then show ?thesis using st by simp
next
  case (Some a)
  obtain address ttl where a: "a = (address, ttl)" by (cases a)
  have q: "question = Some q" "question_wf q" using assms(2) Some by simp_all
  have n: "sees w 12 (concat (map encode_label (labels (qu_name q))) @ 0 #
      u16_to_be_bytes (record_type_wire (qu_kind q))
      @ u16_to_be_bytes (record_class_wire (qu_class q)) @ tl_bytes)"
    using assms(3) by (simp add: q(1) question_list_def question_bytes_def)
  have "12 < c" using assms(4) by (simp add: q(1) question_list_def length_question_bytes)
  from parse_answer_record(1) [OF _ this n _ st] s Some q(2) a show ?thesis
    by (simp add: question_wf_def)
qed

lemma parse_reply_opt:
  assumes "sees w c (case opt of Opt_Absent \<Rightarrow> [] | Opt_Present d cookie \<Rightarrow> opt_bytes code d cookie)"
    and "12 \<le> c" and "opt_cookie_ok opt"
    and st: "st_cursor st = c" "st_edns st = None" "st_context st = None" "st_cookie st = None"
  shows "parse_records w Additional (of_bool (opt \<noteq> Opt_Absent)) st =
      Ok (st\<lparr>st_cursor := length w, st_edns := opt_reply_edns code opt,
             st_cookie := opt_reply_cookie c opt\<rparr>)"
proof (cases opt)
  case Opt_Absent
  then have "length w = c" using assms(1) sees_length [of w c "[]"] by simp
  with Opt_Absent st show ?thesis by simp
next
  case (Opt_Present d cookie)
  with assms parse_opt_record [of w c code d cookie st] show ?thesis by simp
qed

lemma make_reply_bytes:
  "make_reply h question code truncated opt answer =
     header_encode (reply_header h question code truncated opt answer) []
     @ concat (map question_bytes (question_list question)) @ tail_bytes code opt answer"
  by (simp add: make_reply_eq question_list_def split: option.split)

lemma reply_counts:
  "unat (count_questions (hd_counts (reply_header h q code tc opt a))) = of_bool (q \<noteq> None)"
  "unat (count_answers (hd_counts (reply_header h q code tc opt a))) = of_bool (a \<noteq> None)"
  "unat (count_authorities (hd_counts (reply_header h q code tc opt a))) = 0"
  "unat (count_additionals (hd_counts (reply_header h q code tc opt a))) = of_bool (opt \<noteq> Opt_Absent)"
  by (simp_all add: reply_header_def)

theorem parse_make_reply:
  assumes q: "\<And>q. question = Some q \<Longrightarrow> question_wf q" and a: "answer \<noteq> None \<Longrightarrow> question \<noteq> None"
    and ck: "opt_cookie_ok opt"
  shows "parse (make_reply h question code truncated opt answer) =
      Ok (reply_packet h question code truncated opt answer)"
proof -
  let ?w = "make_reply h question code truncated opt answer"
  let ?h = "reply_header h question code truncated opt answer"
  let ?qb = "concat (map question_bytes (question_list question))"
  let ?ab = "case answer of None \<Rightarrow> [] | Some a \<Rightarrow> answer_bytes a"
  let ?ob = "case opt of Opt_Absent \<Rightarrow> [] | Opt_Present d cookie \<Rightarrow> opt_bytes code d cookie"
  let ?c = "12 + length ?qb"
  have len: "length ?w \<le> 65535"
    by (rule order_trans [OF length_make_reply_bound [OF q ck]]) simp_all
  have h: "header_of ?w = ?h" by (simp add: make_reply_bytes header_of_encode)
  have s0: "sees ?w 12 (?qb @ ?ab @ ?ob)"
    using len by (simp add: sees_def make_reply_bytes length_header_encode tail_bytes_def)
  have s1: "sees ?w ?c (?ab @ ?ob)" by (rule sees_skip [OF s0 refl])
  have s2: "sees ?w (answers_end question answer) ?ob"
    using sees_skip [OF s1 refl] by (cases answer) (simp_all add: answers_end_def add.assoc [symmetric])
  have qs: "parse_questions ?w (unat (count_questions (hd_counts ?h))) 12 [] = Ok (question_list question, ?c)"
    using parse_reply_questions [OF s0 q] unfolding reply_counts by blast
  obtain st where st: "st = \<lparr>st_cursor = ?c, st_edns = None, st_cookie = None, st_authenticated = False,
      st_context = None\<rparr>" by simp
  have ans: "parse_records ?w Answer (of_bool (answer \<noteq> None)) st =
      Ok (st\<lparr>st_cursor := answers_end question answer\<rparr>)"
    using parse_reply_answer [OF s1 _ s0, of "the question" st] q a
    by (auto simp: st answers_end_def)
  have opt: "parse_records ?w Additional (of_bool (opt \<noteq> Opt_Absent))
        (st\<lparr>st_cursor := answers_end question answer\<rparr>) =
      Ok (st\<lparr>st_cursor := length ?w, st_edns := opt_reply_edns code opt,
             st_cookie := opt_reply_cookie (answers_end question answer) opt\<rparr>)"
    using parse_reply_opt [OF s2 _ ck, of "st\<lparr>st_cursor := answers_end question answer\<rparr>"]
    by (simp add: st answers_end_def)
  have ctx: "initial_context ?w x = None" for x by (simp add: initial_context_def h)
  have fit: "counts_fit ?w"
    unfolding counts_fit_def h Let_def reply_counts sees_length [OF s0]
    by (cases question; cases answer; cases opt) (simp_all add: question_list_def length_question_bytes)
  have ss: "parse_sections ?w (record_sections (hd_counts ?h)) st =
      Ok (st\<lparr>st_cursor := length ?w, st_edns := opt_reply_edns code opt,
             st_cookie := opt_reply_cookie (answers_end question answer) opt\<rparr>)"
    unfolding record_sections_def parse_sections.simps reply_counts ans rbind.simps
      parse_records.simps opt ..
  have "12 \<le> length ?w" using s0 by (simp add: sees_def)
  then show ?thesis
    using len qs ss fit
    by (simp add: parse_def parse_inner_eq h ctx st [symmetric]) (simp add: st reply_packet_def)
qed

section \<open>What the recipient of a reply reads\<close>

lemma reply_packet_wf:
  assumes "\<And>q. question = Some q \<Longrightarrow> question_wf q" and "answer \<noteq> None \<Longrightarrow> question \<noteq> None"
    and "opt_cookie_ok opt"
  shows "packet_wf (reply_packet h question code truncated opt answer)"
  using parse_Ok [OF parse_make_reply [OF assms]] by simp

text \<open>The response code survives the split between header and OPT when it fits there.\<close>

definition code_fits :: "response_code \<Rightarrow> generated_option \<Rightarrow> bool" where
  "code_fits code opt \<longleftrightarrow>
     code \<in> range response_code_from_wire
     \<and> response_code_wire code < (if opt = Opt_Absent then 16 else 4096)"

lemma reply_packet_code:
  assumes "code_fits code opt"
  shows "packet_response_code (reply_packet h question code truncated opt answer) = code"
proof -
  let ?c = "response_code_wire code"
  have "?c AND 15 = ?c" if "?c < 16"
    using that less_mask_eq [of ?c 4] by (simp add: mask_eq_exp_minus_1)
  moreover have "response_code_from_wire ?c = code"
    using assms by (simp add: code_fits_def rcode.canonical_iff)
  ultimately show ?thesis
    using assms split_rcode [of ?c]
    by (cases opt) (auto simp: code_fits_def packet_response_code_def reply_packet_def reply_header_def
        reply_flags_rcode reply_edns_def Let_def)
qed

lemma nibble_less: "(x :: u16) AND 15 < 16"
  using and_mask_less_size [of 4 x] by (simp add: mask_eq_exp_minus_1 word_size)

lemma extended_code_less: "push_bit 4 (ucast (e :: u8)) OR (x :: u16) AND 15 < 4096"
proof -
  have kept: "(push_bit 4 (ucast e) OR x AND 15) AND mask 12 = push_bit 4 (ucast e) OR x AND 15"
    by (rule bit_eqI) (auto simp: bit_simps dest: bit_imp_le_length)
  have "(push_bit 4 (ucast e) OR x AND 15) AND mask 12 < (2 :: u16) ^ 12"
    by (rule and_mask_less_size) (simp add: word_size)
  then show ?thesis unfolding kept by simp
qed

lemma packet_code_fits:
  "code_fits (packet_response_code p) (case pk_edns p of None \<Rightarrow> Opt_Absent | Some _ \<Rightarrow> Opt_Present d c)"
  by (auto simp: code_fits_def packet_response_code_def Let_def nibble_less extended_code_less
      split: option.split)

text \<open>A reply to a query corresponds to it, under the client's transaction id.\<close>

lemma first_question_list: "length qs \<le> 1 \<Longrightarrow> question_list (first_question qs) = qs"
  by (cases qs) (auto simp: question_list_def)

lemma question_eq_refl [simp]: "question_eq q q"
  by (simp add: question_eq_def name_eq_iff)

lemma list_question_eq_refl [simp]: "list_all2 question_eq qs qs"
  by (simp add: list_all2_refl)

lemma first_question_wf: "packet_wf p \<Longrightarrow> first_question (pk_questions p) = Some q \<Longrightarrow> question_wf q"
  by (auto simp: packet_wf_def split: list.splits)

lemma reply_packet_corresponds:
  assumes "length (pk_questions p) \<le> 1" and "opt = Opt_Absent \<longleftrightarrow> pk_edns p = None"
    and "query_packet q = p"
  shows "corresponds_to (reply_packet (pk_header p) (first_question (pk_questions p)) code truncated
      opt answer) q (hd_id (pk_header p))"
  using assms
  by (cases opt) (auto simp: corresponds_to_def reply_packet_def Let_def first_question_list reply_edns_def)

lemma generated_opt_absent [simp]: "generated_opt e = Opt_Absent \<longleftrightarrow> e = None"
  by (auto simp: generated_opt_def split: option.split)

lemma generated_opt_cookie_ok [simp]: "opt_cookie_ok (generated_opt e)"
  by (simp add: generated_opt_def cookie_length_ok_def split: option.split)

lemma error_reply_parses:
  "packet_wf p \<Longrightarrow> parse (error_reply p code) =
     Ok (reply_packet (pk_header p) (first_question (pk_questions p)) code False
           (generated_opt (pk_edns p)) None)"
  unfolding error_reply_def by (rule parse_make_reply) (auto dest: first_question_wf)

text \<open>A query that carries a server cookie the program has not issued.\<close>

definition carries_server_cookie :: "packet \<Rightarrow> bool" where
  "carries_server_cookie p \<longleftrightarrow> (\<exists>c. packet_cookie p = Some c \<and> 8 < length c)"

lemma local_error_reply_eq:
  "packet_cookie_wf p \<Longrightarrow> local_error_reply p code =
     Ok (if carries_server_cookie p then None else Some (error_reply p code))"
  by (auto simp: local_error_reply_def response_cookie_Ok carries_server_cookie_def split: option.split)

text \<open>The record the local zone holds for a question.\<close>

definition local_answer :: "question \<Rightarrow> ipv4_addr \<Rightarrow> u32 \<Rightarrow> (ipv4_addr \<times> u32) option" where
  "local_answer q address ttl =
     (if qu_class q = Class_In \<and> (qu_kind q = Type_A \<or> qu_kind q = Type_Any)
      then Some (address, ttl) else None)"

lemma local_a_reply_eq:
  assumes "packet_cookie_wf p" and "pk_questions p = [q]"
  shows "local_a_reply p address ttl =
     Ok (if carries_server_cookie p then None
         else Some (make_reply (pk_header p) (Some q)
           (if qu_class q = Class_In then NoError else Refused) False
           (generated_opt (pk_edns p)) (local_answer q address ttl)))"
  using assms
  by (auto simp: local_a_reply_def response_cookie_Ok carries_server_cookie_def local_answer_def
      Let_def split: option.split)

lemma local_a_reply_parses:
  assumes "packet_wf p" and "pk_questions p = [q]" and "local_a_reply p address ttl = Ok (Some w)"
  shows "parse w = Ok (reply_packet (pk_header p) (Some q)
      (if qu_class q = Class_In then NoError else Refused) False
      (generated_opt (pk_edns p)) (local_answer q address ttl))"
proof -
  have q: "question_wf q" using assms by (simp add: packet_wf_def)
  have w: "w = make_reply (pk_header p) (Some q)
      (if qu_class q = Class_In then NoError else Refused) False
      (generated_opt (pk_edns p)) (local_answer q address ttl)"
    using assms(3) by (simp add: local_a_reply_eq [OF packet_wf_cookie [OF assms(1)] assms(2)] split: if_splits)
  show ?thesis unfolding w by (rule parse_make_reply) (use q in auto)
qed

definition truncated_opt :: "packet \<Rightarrow> packet \<Rightarrow> generated_option" where
  "truncated_opt p response =
     (case pk_edns p of None \<Rightarrow> Opt_Absent
      | Some e \<Rightarrow> Opt_Present (dnssec_ok e) (packet_cookie response))"

lemma truncated_opt_absent [simp]: "truncated_opt p r = Opt_Absent \<longleftrightarrow> pk_edns p = None"
  by (auto simp: truncated_opt_def split: option.split)

lemma truncated_reply_eq:
  "packet_cookie_wf response \<Longrightarrow> truncated_reply p response =
     Ok (make_reply (pk_header p) (first_question (pk_questions p)) (packet_response_code response)
           True (truncated_opt p response) None)"
  by (simp add: truncated_reply_def generated_opt_def truncated_opt_def response_cookie_Ok
      split: option.split)

lemma truncated_opt_cookie_ok: "packet_cookie_wf response \<Longrightarrow> opt_cookie_ok (truncated_opt p response)"
  by (auto simp: truncated_opt_def cookie_length_ok_def split: option.split dest: packet_cookie_length)

lemma truncated_reply_parses:
  assumes "packet_wf p" and "packet_cookie_wf response" and "truncated_reply p response = Ok w"
  shows "parse w = Ok (reply_packet (pk_header p) (first_question (pk_questions p))
      (packet_response_code response) True (truncated_opt p response) None)"
proof -
  have "w = make_reply (pk_header p) (first_question (pk_questions p)) (packet_response_code response)
      True (truncated_opt p response) None"
    using assms(2,3) by (simp add: truncated_reply_eq)
  then show ?thesis
    using assms truncated_opt_cookie_ok first_question_wf by (auto intro!: parse_make_reply)
qed

section \<open>Replies without recursion\<close>

lemma u16_to_be_ucast: "u16_to_be_bytes x = [ucast (drop_bit 8 x), ucast x]"
proof -
  have "unat (drop_bit 8 x) = drop_bit 8 (unat x)"
    by (simp add: unsigned_drop_bit_eq take_bit_nat_eq_self unat_u16_bound)
  then have "unat x div 256 = unat (drop_bit 8 x)"
    using drop_bit_eq_div [of 8 "unat x"] by simp
  then have "of_nat (unat x div 256) = (ucast (drop_bit 8 x) :: u8)" by simp
  moreover have "of_nat (unat x mod 256) = (ucast x :: u8)"
    using word_of_nat_eq_iff [where 'a = 8, of "unat x mod 256" "unat x"] by (simp add: take_bit_eq_mod)
  ultimately show ?thesis by (simp add: u16_to_be_bytes_def)
qed

lemma without_recursion_make_reply:
  assumes "w = make_reply h question code truncated opt answer"
    and "hdr = reply_header h question code truncated opt answer"
  shows "without_recursion w = Ok (header_encode (hdr\<lparr>hd_flags := hd_flags hdr AND NOT 0x0080\<rparr>) [] @ drop 12 w)"
proof -
  let ?f = "hd_flags hdr"
  have lo: "ucast ?f AND NOT (0x80 :: u8) = ucast (?f AND NOT 0x0080)"
    by (rule bit_eqI) (auto simp: bit_simps)
  have hi: "ucast (drop_bit 8 ?f) = (ucast (drop_bit 8 (?f AND NOT 0x0080)) :: u8)"
    by (rule bit_eqI) (auto simp: bit_simps)
  show ?thesis
    using lo hi
    by (simp add: assms make_reply_bytes without_recursion_def index_def header_encode_def u16_to_be_ucast)
qed

section \<open>Properties of replies\<close>





end
