(* ===== verification/Dns_Relay.thy ===== *)
theory Dns_Relay
  imports Dns_Reply
begin

text \<open>
  Relaying a message under another transaction id. \<^verbatim>\<open>Packet::with_id\<close> rewrites the first two bytes
  of a validated message and the program then treats the result as if it had been parsed: as the
  query it sends (\<^verbatim>\<open>Query::sent\<close>) and as the answer it gives the client (\<^verbatim>\<open>Response::with_id\<close>).

  Proved here: everything the parser reads after the header depends only on the bytes after the
  header, because compression pointers into the header are refused; so the rewritten message parses
  exactly when the original does, to the same packet with the new id.
\<close>

section \<open>Messages that agree after the header\<close>

definition same_body :: "u8 list \<Rightarrow> u8 list \<Rightarrow> bool" where
  "same_body w v \<longleftrightarrow> length w = length v \<and> (\<forall>i. 12 \<le> i \<longrightarrow> i < length w \<longrightarrow> w ! i = v ! i)"

lemma same_body_sym: "same_body w v \<Longrightarrow> same_body v w"
  by (simp add: same_body_def)

lemma same_body_length: "same_body w v \<Longrightarrow> length v = length w"
  by (simp add: same_body_def)

lemma same_body_get: "same_body w v \<Longrightarrow> 12 \<le> i \<Longrightarrow> get v i = get w i"
  by (simp add: same_body_def get_def)

lemma same_body_drop: "same_body w v \<Longrightarrow> 12 \<le> i \<Longrightarrow> drop i v = drop i w"
  by (rule nth_equalityI) (auto simp: same_body_def)

lemma same_body_get_range: "same_body w v \<Longrightarrow> 12 \<le> a \<Longrightarrow> get_range v a b = get_range w a b"
  by (simp add: get_range_def same_body_drop same_body_length)

lemma same_body_slice: "same_body w v \<Longrightarrow> 12 \<le> a \<Longrightarrow> slice v a b = slice w a b"
  by (simp add: slice_def same_body_drop same_body_length)

lemma same_body_word: "same_body w v \<Longrightarrow> 12 \<le> i \<Longrightarrow> i + 1 < length w \<Longrightarrow> wire_word v i = wire_word w i"
  by (simp add: same_body_def wire_word_def)

lemma same_body_header_word: "same_body w v \<Longrightarrow> 12 \<le> i \<Longrightarrow> header_word v i = header_word w i"
  by (simp add: header_word_eq same_body_length same_body_word)

lemma same_body_take: "same_body w v \<Longrightarrow> 12 \<le> c \<Longrightarrow> reader_take v c n = reader_take w c n"
  by (simp add: reader_take_def same_body_get_range)

lemmas same_body_reads =
  same_body_get same_body_get_range same_body_slice same_body_take same_body_header_word

lemma decode_loop_body:
  "same_body w v \<Longrightarrow> 12 \<le> position \<Longrightarrow>
     decode_loop v position cursor jumped expanded visited acc
     = decode_loop w position cursor jumped expanded visited acc"
proof (induction w position cursor jumped expanded visited acc rule: decode_loop.induct)
  case (1 w position cursor jumped expanded visited acc)
  show ?case
    using 1 by (subst (1 2) decode_loop.simps)
      (auto simp: same_body_get same_body_get_range Let_def split: option.split)
qed

section \<open>Readers of the body\<close>

locale body_reader = wire_reader +
  assumes body: "same_body w v \<Longrightarrow> 12 \<le> c \<Longrightarrow> read v c = read w c"
begin

lemma rbind_body:
  "same_body w v \<Longrightarrow> 12 \<le> c \<Longrightarrow>
     (\<And>x c'. read w c = Ok (x, c') \<Longrightarrow> 12 \<le> c' \<Longrightarrow> f (x, c') = g (x, c')) \<Longrightarrow>
     rbind (read v c) f = rbind (read w c) g"
  using progress [of w c] by (cases "read w c") (fastforce simp: body)+

lemma later: "12 \<le> c \<Longrightarrow> read w c = Ok (x, c') \<Longrightarrow> 12 \<le> c'"
  using progress by fastforce

end

interpretation name_body: body_reader reader_name
  by unfold_locales (simp add: reader_name_def decode_def decode_loop_body)

interpretation word_body: body_reader reader_word
  by unfold_locales (simp add: reader_word_def same_body_take)

interpretation double_word_body: body_reader reader_double_word
  by unfold_locales (simp add: reader_double_word_def same_body_take)

lemmas body_binds = name_body.rbind_body word_body.rbind_body double_word_body.rbind_body

interpretation question_body: body_reader reader_question
  by unfold_locales (auto simp: reader_question_def intro!: body_binds)

interpretation record_body: body_reader reader_resource_record
  by unfold_locales (auto simp: reader_resource_record_def intro!: body_binds)
section \<open>Sections of the body\<close>

lemma parse_questions_body:
  "same_body w v \<Longrightarrow> 12 \<le> cursor \<Longrightarrow> parse_questions v n cursor acc = parse_questions w n cursor acc"
  by (induction n arbitrary: cursor acc) (auto intro!: question_body.rbind_body)

lemma take_body:
  "same_body w v \<Longrightarrow> 12 \<le> c \<Longrightarrow>
     (\<And>x c'. reader_take w c n = Ok (x, c') \<Longrightarrow> 12 \<le> c' \<Longrightarrow> f (x, c') = g (x, c')) \<Longrightarrow>
     rbind (reader_take v c n) f = rbind (reader_take w c n) g"
  by (simp add: same_body_take) (auto simp: reader_take_eq)

lemma txt_loop_body:
  "same_body w v \<Longrightarrow> 12 \<le> cursor \<Longrightarrow> txt_loop v end_at cursor = txt_loop w end_at cursor"
proof (induction w end_at cursor rule: txt_loop.induct)
  case (1 w end_at cursor)
  have "rbind (reader_take v c n) (\<lambda>(_, c'). txt_loop v end_at c')
      = rbind (reader_take w c n) (\<lambda>(_, c'). txt_loop w end_at c')"
    if "cursor < end_at" "reader_take w cursor 1 = Ok (bytes, c)" "index bytes 0 = (Ok x :: (parse_error, u8) result)"
      "n = unat x" "12 \<le> c" for bytes c n x
    using that 1 by (intro take_body) auto
  then show ?case
    unfolding txt_loop.simps [of v end_at cursor] txt_loop.simps [of w end_at cursor]
    by (intro if_cong refl take_body "1.prems") (simp, rule rbind_cong, rule refl, simp)
qed

lemma validate_data_body:
  "same_body w v \<Longrightarrow> 12 \<le> rr_data_start r \<Longrightarrow> validate_data v r = validate_data w r"
  unfolding validate_data_def Let_def
  by (intro class_field.case_cong refl arg_cong2 [where f = rbind])
    (auto simp: txt_loop_body intro!: body_binds take_body)

lemma locate_loop_body:
  "same_body w v \<Longrightarrow> 12 \<le> cursor \<Longrightarrow>
     locate_loop v rdata_at end_at cursor = locate_loop w rdata_at end_at cursor"
proof (induction w rdata_at end_at cursor rule: locate_loop.induct)
  case (1 w rdata_at end_at cursor)
  have h: "header_word v cursor = header_word w cursor"
      "header_word v (cursor + 2) = header_word w (cursor + 2)" "length v = length w"
    using "1.prems" by (simp_all add: same_body_header_word same_body_length)
  have rec: "locate_loop v rdata_at end_at e = locate_loop w rdata_at end_at e"
    if "cursor + 4 \<le> end_at \<and> cursor + 4 \<le> length w" "header_word w cursor = (Ok x :: (parse_error, u16) result)"
      "header_word w (cursor + 2) = (Ok y :: (parse_error, u16) result)"
      "checked_add (cursor + 4) (unat y) = Some e" "\<not> (e > end_at \<or> e > length w)" "x \<noteq> COOKIE_OPTION"
    for x y e
  proof -
    have "12 \<le> e" using that(4) "1.prems"(2) by (simp add: outcome)
    with 1(1) [OF that(1-3) refl refl that(4-6)] "1.prems"(1) show ?thesis by simp
  qed
  show ?case
    unfolding locate_loop.simps [of v rdata_at end_at cursor]
      locate_loop.simps [of w rdata_at end_at cursor] h Let_def
    by (intro if_cong refl rbind_cong option.case_cong) (use rec in auto)
qed

lemma locate_body: "same_body w v \<Longrightarrow> 12 \<le> rdata_at \<Longrightarrow> locate v rdata_at n = locate w rdata_at n"
  by (simp add: locate_def locate_loop_body)

text \<open>Parser states that differ only in the header of the reply context.\<close>

definition same_progress :: "parse_state \<Rightarrow> parse_state \<Rightarrow> bool" where
  "same_progress s t \<longleftrightarrow> st_cursor s = st_cursor t \<and> st_edns s = st_edns t
     \<and> st_cookie s = st_cookie t \<and> st_authenticated s = st_authenticated t"

lemma parse_opt_body:
  assumes "same_body w v" and "same_progress st tt" and "12 \<le> c" and "rr_data_start r = c"
    and "parse_opt w sect r c st = Ok st'"
  shows "\<exists>tt'. parse_opt v sect r c tt = Ok tt' \<and> same_progress st' tt'"
  using assms(2,3,5)
  by (auto simp: parse_opt_def same_progress_def Let_def same_body_take [OF assms(1)] assms(4)
      same_body_slice [OF assms(1)] locate_body [OF assms(1)] outcome
      split: if_splits class_field.splits)

lemma parse_record_body:
  assumes "same_body w v" and "same_progress st tt" and "12 \<le> st_cursor st"
    and "parse_record w sect st = Ok st'"
  shows "\<exists>tt'. parse_record v sect tt = Ok tt' \<and> same_progress st' tt'"
proof -
  obtain r c st1 where r: "reader_resource_record w (st_cursor st) = Ok (r, c)"
    and st1: "(if rr_kind r = Type_Opt then parse_opt w sect r c st
          else rbind (map_err (\<lambda>e. (e, st_context st))
                (reader_take w c (rr_data_end r - rr_data_start r))) (\<lambda>(_, c).
            rbind (map_err (\<lambda>e. (e, st_context st)) (validate_data w r)) (\<lambda>_.
              Ok (st\<lparr>st_cursor := c\<rparr>)))) = Ok st1"
    and st': "st' = st1\<lparr>st_authenticated := st_authenticated st1
        \<or> rr_kind r = Type_Tsig \<or> rr_kind r = Type_Tkey
        \<or> (sect = Additional \<and> rr_kind r = Type_Sig)\<rparr>"
    using assms(4) unfolding parse_record_def rbind_eq_Ok map_err_eq_Ok by (auto simp: rbind_eq_Ok)
  have c: "12 \<le> c" and start: "rr_data_start r = c"
    using record_body.later [OF assms(3) r] record_fields(1) [OF r] by auto
  have v: "reader_resource_record v (st_cursor tt) = Ok (r, c)"
    using r assms(1-3) by (simp add: record_body.body same_progress_def)
  show ?thesis
  proof (cases "rr_kind r = Type_Opt")
    case True
    then show ?thesis
      using st1 parse_opt_body [OF assms(1,2) c start, of sect st1]
      by (auto simp: parse_record_def v st' same_progress_def)
  next
    case False
    then show ?thesis
      using st1 c assms(2)
      by (auto simp: parse_record_def v st' same_progress_def start outcome
          same_body_take [OF assms(1)] validate_data_body [OF assms(1)])
  qed
qed

lemma parse_records_body:
  "same_body w v \<Longrightarrow> same_progress st tt \<Longrightarrow> state_wf w st \<Longrightarrow> parse_records w sect n st = Ok st' \<Longrightarrow>
     \<exists>tt'. parse_records v sect n tt = Ok tt' \<and> same_progress st' tt'"
proof (induction n arbitrary: st tt)
  case (Suc n)
  obtain st1 where st1: "parse_record w sect st = Ok st1" "parse_records w sect n st1 = Ok st'"
    using Suc.prems(4) by (auto simp: outcome)
  then obtain tt1 where "parse_record v sect tt = Ok tt1" "same_progress st1 tt1"
    using parse_record_body Suc.prems(1-3) unfolding state_wf_def by blast
  moreover have "state_wf w st1"
    using parse_record_keeps [OF Suc.prems(3), of sect] st1(1) by (simp add: keeps_state_def)
  ultimately show ?case using Suc.IH [OF Suc.prems(1) _ _ st1(2)] by simp
qed auto

lemma parse_sections_body:
  "same_body w v \<Longrightarrow> same_progress st tt \<Longrightarrow> state_wf w st \<Longrightarrow> parse_sections w ss st = Ok st' \<Longrightarrow>
     \<exists>tt'. parse_sections v ss tt = Ok tt' \<and> same_progress st' tt'"
proof (induction ss arbitrary: st tt)
  case (Cons s ss)
  obtain sect n where s: "s = (sect, n)" by (cases s)
  obtain st1 where st1: "parse_records w sect (unat n) st = Ok st1" "parse_sections w ss st1 = Ok st'"
    using Cons.prems(4) by (auto simp: outcome s)
  then obtain tt1 where "parse_records v sect (unat n) tt = Ok tt1" "same_progress st1 tt1"
    using parse_records_body Cons.prems(1-3) by blast
  moreover have "state_wf w st1"
    using parse_records_keeps [OF Cons.prems(3), of sect "unat n"] st1(1) by (simp add: keeps_state_def)
  ultimately show ?case using Cons.IH [OF Cons.prems(1) _ _ st1(2)] by (simp add: s)
qed auto

section \<open>Rewriting the transaction id\<close>

definition id_wire :: "packet \<Rightarrow> transaction_id \<Rightarrow> u8 list" where
  "id_wire p ident = u16_to_be_bytes (transaction_id_wire ident) @ drop 2 (pk_wire p)"

definition relabelled :: "packet \<Rightarrow> transaction_id \<Rightarrow> packet" where
  "relabelled p ident =
     p\<lparr>pk_wire := id_wire p ident, pk_header := (pk_header p)\<lparr>hd_id := ident\<rparr>\<rparr>"

lemma with_id_wf: "packet_wf p \<Longrightarrow> with_id p ident = Ok (id_wire p ident)"
  by (simp add: with_id_eq_Ok packet_wf_def id_wire_def)

lemma length_id_wire: "packet_wf p \<Longrightarrow> length (id_wire p ident) = length (pk_wire p)"
  by (auto simp: id_wire_def packet_wf_def)

lemma drop_id_wire [simp]: "drop 2 (id_wire p ident) = drop 2 (pk_wire p)"
  by (simp add: id_wire_def)

lemma with_id_same_body:
  assumes "with_id p ident = Ok w" and "2 \<le> length (pk_wire p)"
  shows "same_body (pk_wire p) w"
proof -
  have "w = u16_to_be_bytes (transaction_id_wire ident) @ drop 2 (pk_wire p)"
    using assms by (simp add: with_id_eq_Ok)
  then show ?thesis using assms(2) by (auto simp: same_body_def nth_append dest!: le_Suc_ex)
qed

lemma counts_fit_same:
  assumes "hd_counts (header_of w) = hd_counts (header_of v)" and "length w = length v"
    and "header_opcode (header_of w) = header_opcode (header_of v)"
  shows "counts_fit w \<longleftrightarrow> counts_fit v"
  using assms by (simp add: counts_fit_def)

text \<open>Two messages with equal bodies, counts and opcode parse alike.\<close>

theorem parse_same_body:
  assumes p: "parse v = Ok p" and sb: "same_body v w"
    and h: "hd_counts (header_of w) = hd_counts (header_of v)"
      "header_opcode (header_of w) = header_opcode (header_of v)"
  shows "parse w = Ok (p\<lparr>pk_wire := w, pk_header := header_of w\<rparr>)"
proof -
  have wf: "12 \<le> length v" "length v \<le> 65535" using parse_Ok [OF p] by (auto simp: packet_wf_def)
  have len: "length w = length v" by (rule same_body_length [OF sb])
  have fit: "counts_fit v" using p wf by (auto simp: parse_def outcome parse_inner_eq split: if_splits)
  obtain qs c st where qs: "parse_questions v (unat (count_questions (hd_counts (header_of v)))) 12 []
        = Ok (qs, c)"
    and st: "parse_sections v (record_sections (hd_counts (header_of v)))
          \<lparr>st_cursor = c, st_edns = None, st_cookie = None, st_authenticated = False,
           st_context = initial_context v (first_question qs)\<rparr> = Ok st"
    and last: "st_cursor st = length v"
    and pk: "p = \<lparr>pk_wire = v, pk_header = header_of v, pk_questions = qs, pk_edns = st_edns st,
           pk_authenticated = st_authenticated st, pk_cookie = st_cookie st\<rparr>"
    using p wf fit by (auto simp: parse_def outcome parse_inner_eq split: if_splits)
  have "12 \<le> c" "c \<le> length v" using parse_questions_Ok [OF qs] wf by auto
  then have "state_wf v \<lparr>st_cursor = c, st_edns = None, st_cookie = None, st_authenticated = False,
      st_context = initial_context v (first_question qs)\<rparr>" by (simp add: state_wf_def cookie_wf_def)
  from parse_sections_body [OF sb _ this st, of
      "\<lparr>st_cursor = c, st_edns = None, st_cookie = None, st_authenticated = False,
        st_context = initial_context w (first_question qs)\<rparr>"]
  obtain tt where tt: "parse_sections w (record_sections (hd_counts (header_of v)))
        \<lparr>st_cursor = c, st_edns = None, st_cookie = None, st_authenticated = False,
         st_context = initial_context w (first_question qs)\<rparr> = Ok tt" "same_progress st tt"
    by (auto simp: same_progress_def)
  have "parse_questions w (unat (count_questions (hd_counts (header_of v)))) 12 [] = Ok (qs, c)"
    using qs parse_questions_body [OF sb, of 12] by simp
  then have "parse_inner w = Ok \<lparr>pk_wire = w, pk_header = header_of w, pk_questions = qs,
      pk_edns = st_edns st, pk_authenticated = st_authenticated st, pk_cookie = st_cookie st\<rparr>"
    using wf fit tt last counts_fit_same [OF h(1) len h(2)]
    by (simp add: parse_inner_eq len h same_progress_def)
  then show ?thesis by (simp add: parse_def pk)
qed

theorem parse_with_id:
  assumes p: "parse (pk_wire p) = Ok p"
  shows "parse (id_wire p ident) = Ok (relabelled p ident)"
proof -
  have wf: "packet_wf p" using parse_Ok [OF p] by simp
  then have len: "2 \<le> length (pk_wire p)" "12 \<le> length (pk_wire p)" by (simp_all add: packet_wf_def)
  have w: "with_id p ident = (Ok (id_wire p ident) :: (unit, u8 list) result)" by (rule with_id_wf [OF wf])
  have h: "header_of (id_wire p ident) = (header_of (pk_wire p))\<lparr>hd_id := ident\<rparr>"
    by (rule header_of_with_id [OF w len(2)])
  have "parse (id_wire p ident) = Ok (p\<lparr>pk_wire := id_wire p ident, pk_header := header_of (id_wire p ident)\<rparr>)"
    by (rule parse_same_body [OF p with_id_same_body [OF w len(1)]]) (simp_all add: h header_opcode_def)
  then show ?thesis using wf by (simp add: h relabelled_def packet_wf_def)
qed

section \<open>Clearing the recursion flag\<close>

lemma u16_from_be_or: "u16_from_be_bytes a b = push_bit 8 (ucast a) OR ucast b"
proof -
  let ?x = "push_bit 8 (ucast a) OR ucast b :: u16"
  have "ucast (drop_bit 8 ?x) = a" "ucast ?x = b"
    by (rule bit_eqI; auto simp: bit_simps dest: bit_imp_le_length)+
  then have "u16_to_be_bytes ?x = [a, b]" by (simp add: u16_to_be_ucast)
  then show ?thesis using u16_from_to_be [of ?x] by simp
qed

lemma bit_recursion_mask [simp]:
  "bit (128 :: int) n \<longleftrightarrow> n = 7" "bit (128 :: nat) n \<longleftrightarrow> n = 7"
proof -
  have "(128 :: int) = 2 ^ 7" "(128 :: nat) = 2 ^ 7" by simp_all
  then show "bit (128 :: int) n \<longleftrightarrow> n = 7" "bit (128 :: nat) n \<longleftrightarrow> n = 7"
    by (simp_all only: bit_exp_iff) auto
qed

lemma without_recursion_eq:
  "12 \<le> length w \<Longrightarrow> without_recursion w = Ok (w[3 := w ! 3 AND NOT 0x80])"
  by (simp add: without_recursion_def index_def)

lemma header_of_without_recursion:
  assumes "12 \<le> length w"
  shows "header_of (w[3 := w ! 3 AND NOT 0x80]) =
    (header_of w)\<lparr>hd_flags := hd_flags (header_of w) AND NOT 0x0080\<rparr>"
proof -
  have "push_bit 8 (ucast a) OR ucast (b AND NOT 0x80) = (push_bit 8 (ucast a) OR ucast b) AND NOT (0x0080 :: u16)"
    for a b :: u8
    by (rule bit_eqI) (auto simp: bit_simps dest: bit_imp_le_length)
  then have "u16_from_be_bytes a (b AND NOT 0x80) = u16_from_be_bytes a b AND NOT 0x0080" for a b
    by (simp add: u16_from_be_or)
  then show ?thesis using assms by (simp add: header_of_def wire_word_def)
qed

lemma header_opcode_no_recursion:
  "header_opcode (h\<lparr>hd_flags := hd_flags h AND NOT 0x0080\<rparr>) = header_opcode h"
proof -
  have f: "(f AND NOT 0x0080) AND 0x7800 = f AND 0x7800" for f :: u16 by (simp add: and.assoc)
  have flags: "hd_flags (h\<lparr>hd_flags := x\<rparr>) = x" for x by simp
  show ?thesis unfolding header_opcode_def OPCODE_MASK_def flags f ..
qed

theorem parse_without_recursion:
  assumes p: "parse w = Ok p" and w': "without_recursion w = Ok w'"
  shows "parse w' = Ok (p\<lparr>pk_wire := w',
    pk_header := (pk_header p)\<lparr>hd_flags := hd_flags (pk_header p) AND NOT 0x0080\<rparr>\<rparr>)"
proof -
  have wf: "12 \<le> length w" "pk_header p = header_of w" using parse_Ok [OF p] by (auto simp: packet_wf_def)
  have eq: "w' = w[3 := w ! 3 AND NOT 0x80]" using w' by (simp add: without_recursion_eq [OF wf(1)])
  note h = header_of_without_recursion [OF wf(1)]
  have "same_body w w'" by (simp add: same_body_def eq)
  moreover have "header_opcode (header_of w') = header_opcode (header_of w)"
    unfolding eq h by (rule header_opcode_no_recursion)
  moreover have "hd_counts (header_of w') = hd_counts (header_of w)" unfolding eq h by simp
  ultimately have "parse w' = Ok (p\<lparr>pk_wire := w', pk_header := header_of w'\<rparr>)"
    by (intro parse_same_body [OF p])
  then show ?thesis unfolding eq h wf(2) .
qed

end
