(* ===== verification/Dns_Query.thy ===== *)
theory Dns_Query
  imports Dns_Relay
begin

text \<open>
  The query views of \<^verbatim>\<open>src/dns/message.rs\<close>: \<^verbatim>\<open>Query\<close> (a validated client query), \<^verbatim>\<open>SentQuery\<close> (the
  exact outgoing bytes with their metadata) and \<^verbatim>\<open>Response\<close> (a response correlated to a sent
  query, including its COOKIE).

  Proved here: what is sent differs from the client's query in the id only and parses to the
  metadata kept with it; a response is accepted exactly when it answers the sent bytes, and the
  relayed answer then corresponds to the client's own query; none of this panics.
\<close>

section \<open>Operations of a client query\<close>

definition query_local_a_reply :: "query \<Rightarrow> ipv4_addr \<Rightarrow> u32 \<Rightarrow> ('e, u8 list option) result" where
  "query_local_a_reply q address ttl = local_a_reply (query_packet q) address ttl"

definition query_name :: "query \<Rightarrow> domain_name" where
  "query_name q = qu_name (query_question q)"

definition query_id :: "query \<Rightarrow> transaction_id" where
  "query_id q = hd_id (pk_header (query_packet q))"

definition query_with_id :: "query \<Rightarrow> transaction_id \<Rightarrow> ('e, u8 list) result" where
  "query_with_id q ident = with_id (query_packet q) ident"

definition query_udp_limit :: "query \<Rightarrow> nat" where
  "query_udp_limit q = packet_udp_limit (query_packet q)"

definition query_error_reply :: "query \<Rightarrow> response_code \<Rightarrow> ('e, u8 list option) result" where
  "query_error_reply q code = local_error_reply (query_packet q) code"

datatype response = Response (response_packet: packet)

definition query_truncated_reply :: "query \<Rightarrow> response \<Rightarrow> ('e, u8 list) result" where
  "query_truncated_reply q r = truncated_reply (query_packet q) (response_packet r)"

section \<open>Sent queries\<close>

record sent_query =
  sq_packet :: packet
  sq_cookie_required :: bool

definition query_sent :: "query \<Rightarrow> transaction_id \<Rightarrow> ('e, sent_query) result" where
  "query_sent q ident =
     (let p = query_packet q; p = p\<lparr>pk_header := (pk_header p)\<lparr>hd_id := ident\<rparr>\<rparr> in
      rbind (query_with_id q ident) (\<lambda>w.
        Ok \<lparr>sq_packet = p\<lparr>pk_wire := w\<rparr>, sq_cookie_required = False\<rparr>))"

definition sent_wire :: "sent_query \<Rightarrow> u8 list" where
  "sent_wire s = pk_wire (sq_packet s)"

definition sent_matches_truncated :: "sent_query \<Rightarrow> u8 list \<Rightarrow> ('e, bool) result" where
  "sent_matches_truncated s w =
     matches_truncated (sq_packet s) w (hd_id (pk_header (sq_packet s)))"

definition validate_response :: "sent_query \<Rightarrow> packet \<Rightarrow> ('e, response option) result" where
  "validate_response s p =
     rbind (validate_query (sq_packet s)) (\<lambda>d.
       case d of
         Forward q \<Rightarrow>
           if is_truncated p \<or> \<not> corresponds_to p q (hd_id (pk_header (sq_packet s))) then Ok None
           else
             rbind (valid_response (sq_packet s) p (sq_cookie_required s)) (\<lambda>valid.
               if \<not> valid then Ok None else Ok (Some (Response p)))
       | _ \<Rightarrow> Ok None)"

definition sent_cookie_retry :: "sent_query \<Rightarrow> response \<Rightarrow> ('e, server_cookie_retry) result" where
  "sent_cookie_retry s r = retry (sq_packet s) (response_packet r)"

definition sent_retry :: "u8 list \<Rightarrow> transaction_id \<Rightarrow> (parse_error, sent_query) result" where
  "sent_retry w ident =
     rbind (copy_at w 0 (u16_to_be_bytes (transaction_id_wire ident))) (\<lambda>w.
     rbind (packet_parse w) (\<lambda>p. Ok \<lparr>sq_packet = p, sq_cookie_required = True\<rparr>))"

definition response_wire :: "response \<Rightarrow> u8 list" where
  "response_wire r = pk_wire (response_packet r)"

definition response_rcode :: "response \<Rightarrow> response_code" where
  "response_rcode r = packet_response_code (response_packet r)"

definition response_with_id :: "response \<Rightarrow> transaction_id \<Rightarrow> ('e, u8 list) result" where
  "response_with_id r ident = with_id (response_packet r) ident"
section \<open>Queries that parsing produced\<close>

text \<open>A packet whose metadata are what its bytes parse to.\<close>

definition parsed :: "packet \<Rightarrow> bool" where
  "parsed p \<longleftrightarrow> parse (pk_wire p) = Ok p"

lemma parsed_wf: "parsed p \<Longrightarrow> packet_wf p"
  using parse_Ok by (auto simp: parsed_def)

lemma parse_parsed: "parse w = Ok p \<Longrightarrow> parsed p \<and> pk_wire p = w"
  using parse_Ok [of w p] by (auto simp: parsed_def)

lemma relabelled_parsed: "parsed p \<Longrightarrow> parsed (relabelled p ident)"
  using parse_with_id [of p ident] by (simp add: parsed_def relabelled_def)

definition query_of :: "packet \<Rightarrow> query" where
  "query_of p = \<lparr>query_packet = p, query_question = hd (pk_questions p)\<rparr>"

definition client_query :: "query \<Rightarrow> bool" where
  "client_query q \<longleftrightarrow> parsed (query_packet q) \<and> forwardable (query_packet q)
     \<and> q = query_of (query_packet q)"

definition sent_ok :: "sent_query \<Rightarrow> bool" where
  "sent_ok s \<longleftrightarrow> parsed (sq_packet s) \<and> forwardable (sq_packet s)"

lemma validated_client_query: "parse w = Ok p \<Longrightarrow> validate_query p = Ok (Forward q) \<Longrightarrow> client_query q"
  using parse_parsed [of w p] by (auto simp: client_query_def query_of_def validate_query_Forward_iff)

lemma relabelled_simps [simp]:
  "pk_wire (relabelled p ident) = id_wire p ident" "pk_questions (relabelled p ident) = pk_questions p"
  "pk_edns (relabelled p ident) = pk_edns p" "pk_cookie (relabelled p ident) = pk_cookie p"
  "pk_authenticated (relabelled p ident) = pk_authenticated p"
  "pk_header (relabelled p ident) = (pk_header p)\<lparr>hd_id := ident\<rparr>"
  "packet_response_code (relabelled p ident) = packet_response_code p"
  "is_truncated (relabelled p ident) = is_truncated p"
  by (simp_all add: relabelled_def packet_response_code_def is_truncated_def header_truncated_def)

lemma header_id_irrelevant [simp]:
  "header_message_type (h\<lparr>hd_id := i\<rparr>) = header_message_type h"
  "header_opcode (h\<lparr>hd_id := i\<rparr>) = header_opcode h"
  "header_truncated (h\<lparr>hd_id := i\<rparr>) = header_truncated h"
  by (simp_all add: header_message_type_def header_opcode_def header_truncated_def)

lemma forwardable_relabelled [simp]: "forwardable (relabelled p ident) = forwardable p"
  by (simp add: forwardable_def)

section \<open>What is sent\<close>

definition sent_as :: "query \<Rightarrow> transaction_id \<Rightarrow> sent_query" where
  "sent_as q ident = \<lparr>sq_packet = relabelled (query_packet q) ident, sq_cookie_required = False\<rparr>"

lemma client_query_wf: "client_query q \<Longrightarrow> packet_wf (query_packet q)"
  by (simp add: client_query_def parsed_wf)

lemma query_sent_eq: "client_query q \<Longrightarrow> query_sent q ident = Ok (sent_as q ident)"
  by (simp add: query_sent_def query_with_id_def with_id_wf client_query_wf sent_as_def
      relabelled_def Let_def)

lemma sent_as_ok: "client_query q \<Longrightarrow> sent_ok (sent_as q ident)"
  by (simp add: sent_ok_def sent_as_def client_query_def relabelled_parsed)

lemma sent_as_wire: "sent_wire (sent_as q ident) = id_wire (query_packet q) ident"
  by (simp add: sent_wire_def sent_as_def)

section \<open>What is accepted\<close>

definition accepted :: "sent_query \<Rightarrow> packet \<Rightarrow> bool" where
  "accepted s p \<longleftrightarrow> \<not> is_truncated p
     \<and> corresponds_to p (query_of (sq_packet s)) (hd_id (pk_header (sq_packet s)))
     \<and> cookie_accepted (sq_packet s) p (sq_cookie_required s)"

lemma validate_response_eq:
  assumes "sent_ok s" and "packet_wf p"
  shows "validate_response s p = Ok (if accepted s p then Some (Response p) else None)"
proof -
  have v: "validate_query (sq_packet s) = Ok (Forward (query_of (sq_packet s)))"
    using assms(1) by (simp add: validate_query_Forward_iff sent_ok_def query_of_def)
  have "packet_cookie_wf (sq_packet s)" "packet_cookie_wf p"
    using assms parsed_wf packet_wf_cookie by (auto simp: sent_ok_def)
  then show ?thesis by (simp add: validate_response_def v accepted_def valid_response_eq)
qed

text \<open>A response to any packet is accepted only if that packet is a forwardable query.\<close>

lemma validate_response_Some:
  assumes r: "validate_response s p = Ok (Some r)"
    and wf: "packet_wf (sq_packet s)" "packet_wf p"
  shows "r = Response p \<and> forwardable (sq_packet s) \<and> accepted s p"
proof (cases "forwardable (sq_packet s)")
  case True
  have v: "validate_query (sq_packet s) = Ok (Forward (query_of (sq_packet s)))"
    using True by (simp add: validate_query_Forward_iff query_of_def)
  have "packet_cookie_wf (sq_packet s)" "packet_cookie_wf p" using wf packet_wf_cookie by auto
  then show ?thesis
    using r True by (auto simp: validate_response_def v accepted_def valid_response_eq split: if_splits)
next
  case False
  show ?thesis
    using r unfolding validate_response_def rbind_eq_Ok
  proof (elim exE conjE)
    fix d
    assume d: "validate_query (sq_packet s) = Ok d" and "(case d of Forward q \<Rightarrow>
        if is_truncated p \<or> \<not> corresponds_to p q (hd_id (pk_header (sq_packet s))) then Ok None
        else rbind (valid_response (sq_packet s) p (sq_cookie_required s))
          (\<lambda>valid. if \<not> valid then Ok None else Ok (Some (Response p)))
      | _ \<Rightarrow> Ok None) = Ok (Some r)"
    with False show ?thesis by (cases d) (auto simp: validate_query_Forward_iff)
  qed
qed

lemma validate_response_total [panic_free]:
  "packet_wf (sq_packet s) \<Longrightarrow> packet_wf p \<Longrightarrow> validate_response s p \<noteq> Panic"
  by (auto simp: validate_response_def rbind_eq_Panic validate_query_panic_free valid_response_eq
      packet_wf_cookie split: query_decision.splits)

lemma corresponds_relabelled:
  assumes "accepted (sent_as q ident) p" and "client_query q"
  shows "corresponds_to (relabelled p (query_id q)) q (query_id q)"
  using assms
  by (auto simp: accepted_def corresponds_to_def query_of_def sent_as_def Let_def query_id_def)

lemma response_with_id_eq:
  "packet_wf (response_packet r) \<Longrightarrow> response_with_id r ident = Ok (id_wire (response_packet r) ident)"
  by (simp add: response_with_id_def with_id_wf)

lemma parse_id_wire: "parsed p \<Longrightarrow> parse (id_wire p ident) = Ok (relabelled p ident)"
  by (simp add: parsed_def parse_with_id)

section \<open>The sample query\<close>

definition sample_query :: query where
  "sample_query = query_of sample_packet"

lemma sample_client_query: "client_query sample_query"
  using parse_parsed [OF sample_parse] sample_forwardable
  by (simp add: client_query_def sample_query_def query_of_def)

lemma sample_query_wire: "pk_wire (query_packet sample_query) = sample_wire"
  by (simp add: sample_query_def query_of_def sample_packet_def)

section \<open>Properties of sent queries and responses\<close>

text \<open>What is sent for a client query is the client's bytes under a new transaction id: every
  byte after the id is unchanged, the metadata kept with the bytes are what they parse to, and the
  result is again a forwardable query.\<close>

theorem query_sent_faithful:
  assumes "client_query q"
  shows "\<exists>s. query_sent q ident = Ok s \<and> parse (sent_wire s) = Ok (sq_packet s)
    \<and> forwardable (sq_packet s) \<and> hd_id (pk_header (sq_packet s)) = ident
    \<and> drop 2 (sent_wire s) = drop 2 (pk_wire (query_packet q))
    \<and> pk_questions (sq_packet s) = pk_questions (query_packet q)"
proof -
  have "parse (sent_wire (sent_as q ident)) = Ok (sq_packet (sent_as q ident))"
    "forwardable (sq_packet (sent_as q ident))"
    using sent_as_ok [OF assms, of ident] by (simp_all add: sent_ok_def parsed_def sent_wire_def)
  then show ?thesis
    by (intro exI [where x = "sent_as q ident"])
      (simp add: query_sent_eq [OF assms] sent_as_wire, simp add: sent_as_def)
qed

theorem query_sent_faithful_witness:
  "\<exists>s. query_sent sample_query (TransactionId 7) = Ok s \<and> drop 2 (sent_wire s) = drop 2 sample_wire
    \<and> pk_questions (sq_packet s) = [sample_question]"
proof -
  have "pk_questions (query_packet sample_query) = [sample_question]"
    by (simp add: sample_query_def query_of_def sample_packet_def)
  then show ?thesis
    using query_sent_faithful [OF sample_client_query, of "TransactionId 7"] by (auto simp: sample_query_wire)
qed

text \<open>An accepted response under the client's own transaction id corresponds to the client's
  query, and what its bytes parse to is the accepted packet with the id replaced.\<close>

theorem relayed_response:
  assumes "client_query q" and "parse w = Ok p" and "accepted (sent_as q ident) p"
  shows "\<exists>v. response_with_id (Response p) (query_id q) = Ok v
    \<and> parse v = Ok (relabelled p (query_id q)) \<and> drop 2 v = drop 2 w
    \<and> corresponds_to (relabelled p (query_id q)) q (query_id q)"
proof -
  have p: "parsed p" "pk_wire p = w" using parse_parsed [OF assms(2)] by auto
  have "response_with_id (Response p) (query_id q) = Ok (id_wire p (query_id q))"
    by (simp add: response_with_id_eq parsed_wf [OF p(1)])
  then show ?thesis
    using parse_id_wire [OF p(1)] corresponds_relabelled [OF assms(3,1)] p(2) by auto
qed

text \<open>An upstream's empty answer to the sample query under the id 7.\<close>

definition sample_reply :: packet where
  "sample_reply = reply_packet ((header_of sample_wire)\<lparr>hd_id := TransactionId 7\<rparr>) (Some sample_question)
     NoError False Opt_Absent None"

lemma sample_reply_parse: "parse (pk_wire sample_reply) = Ok sample_reply"
proof -
  have "question_wf sample_question"
    using parse_Ok [OF sample_parse] by (simp add: packet_wf_def sample_packet_def)
  then have "parse (make_reply ((header_of sample_wire)\<lparr>hd_id := TransactionId 7\<rparr>) (Some sample_question)
      NoError False Opt_Absent None) = Ok sample_reply"
    unfolding sample_reply_def by (intro parse_make_reply) auto
  then show ?thesis by (simp add: sample_reply_def reply_packet_def)
qed

lemma sample_reply_code: "packet_response_code sample_reply = NoError"
  unfolding sample_reply_def by (rule reply_packet_code) (simp add: code_fits_def response_code_from_wire_def)

lemma sample_reply_accepted: "accepted (sent_as sample_query (TransactionId 7)) sample_reply"
proof -
  let ?s = "relabelled sample_packet (TransactionId 7)"
  have "corresponds_to sample_reply (query_of ?s) (TransactionId 7)"
    using reply_packet_corresponds [of ?s Opt_Absent "query_of ?s" NoError False None]
    by (simp add: sample_reply_def query_of_def) (simp add: sample_packet_def)
  moreover have "pk_cookie sample_reply = None" "\<not> is_truncated sample_reply"
    by (simp_all add: sample_reply_def reply_packet_def is_truncated_def header_truncated_def
        reply_header_def reply_flags_def sample_header)
  ultimately show ?thesis
    by (simp add: accepted_def sent_as_def sample_query_def query_of_def cookie_accepted_def packet_cookie_def
        sample_reply_code)
qed



theorem relayed_response_witness:
  "\<exists>v. response_with_id (Response sample_reply) (query_id sample_query) = Ok v
    \<and> parse v = Ok (relabelled sample_reply (query_id sample_query)) \<and> drop 2 v = drop 2 (pk_wire sample_reply)
    \<and> corresponds_to (relabelled sample_reply (query_id sample_query)) sample_query (query_id sample_query)"
  by (rule relayed_response [OF sample_client_query sample_reply_parse sample_reply_accepted])

end
