(* ===== verification/Routing.thy ===== *)
theory Routing
  imports Dns_Query
begin

text \<open>
  Upstream endpoints, groups and longest-suffix selection (\<^verbatim>\<open>src/routing.rs\<close>). Socket addresses are
  those of \<^verbatim>\<open>std::net\<close>: IPv4 and IPv6 addresses are their 32 and 128 bit numbers, an IPv6 socket
  address keeps flow information and scope. \<^verbatim>\<open>sort_by_key\<close> with \<^verbatim>\<open>Reverse\<close> is the stable
  \<open>sort_key\<close> on the negated label count.

  Proved here: an accepted endpoint is never unspecified, multicast, broadcast or on port zero and
  is accepted again unchanged; a group is nonempty, bounded and duplicate-free; a routing table is
  built exactly when no two rules have equal suffixes; selection returns the unique longest
  matching rule, the default only when no rule matches, and does not depend on the order in which
  the rules were configured.
\<close>

section \<open>Endpoints\<close>

definition MAX_UPSTREAMS :: nat where [simp]: "MAX_UPSTREAMS = 8"

type_synonym ipv6_addr = "128 word"

datatype ip_addr = IpV4 ipv4_addr | IpV6 ipv6_addr

datatype socket_addr =
    SocketV4 ipv4_addr u16
  | SocketV6 ipv6_addr u16 u32 u32

fun socket_ip :: "socket_addr \<Rightarrow> ip_addr" where
  "socket_ip (SocketV4 a p) = IpV4 a"
| "socket_ip (SocketV6 a p flow scope) = IpV6 a"

fun socket_port :: "socket_addr \<Rightarrow> u16" where
  "socket_port (SocketV4 a p) = p"
| "socket_port (SocketV6 a p flow scope) = p"

fun socket_new :: "ip_addr \<Rightarrow> u16 \<Rightarrow> socket_addr" where
  "socket_new (IpV4 a) p = SocketV4 a p"
| "socket_new (IpV6 a) p = SocketV6 a p 0 0"

text \<open>\<^verbatim>\<open>IpAddr::to_canonical\<close>: an IPv4-mapped IPv6 address becomes its IPv4 address.\<close>

fun to_canonical :: "ip_addr \<Rightarrow> ip_addr" where
  "to_canonical (IpV4 a) = IpV4 a"
| "to_canonical (IpV6 a) = (if drop_bit 32 a = 0xffff then IpV4 (ucast a) else IpV6 a)"

fun is_ipv4 :: "ip_addr \<Rightarrow> bool" where
  "is_ipv4 (IpV4 a) = True"
| "is_ipv4 (IpV6 a) = False"

fun is_unspecified :: "ip_addr \<Rightarrow> bool" where
  "is_unspecified (IpV4 a) = (a = 0)"
| "is_unspecified (IpV6 a) = (a = 0)"

fun is_multicast :: "ip_addr \<Rightarrow> bool" where
  "is_multicast (IpV4 a) = (drop_bit 28 a = 0xe)"
| "is_multicast (IpV6 a) = (drop_bit 120 a = 0xff)"

definition BROADCAST :: ipv4_addr where
  "BROADCAST = 0xffffffff"

datatype route_error =
    InvalidAddress | InvalidGroupSize | DuplicateServer | DuplicateRoute domain_name

fun route_error_display :: "route_error \<Rightarrow> string" where
  "route_error_display InvalidAddress = ''expected a unicast IP address with a nonzero port''"
| "route_error_display InvalidGroupSize = ''each upstream group needs 1..=8 servers''"
| "route_error_display DuplicateServer = ''duplicate upstream server''"
| "route_error_display (DuplicateRoute n) = ''duplicate route for '' @ display n"

datatype upstream_address = UpstreamAddress (upstream_socket: socket_addr)

definition upstream_address_new :: "socket_addr \<Rightarrow> (route_error, upstream_address) result" where
  "upstream_address_new address =
     (let ip = to_canonical (socket_ip address);
          address = (if is_ipv4 ip then socket_new ip (socket_port address) else address) in
      if socket_port address = 0 \<or> is_unspecified ip \<or> is_multicast ip \<or> ip = IpV4 BROADCAST
      then Err InvalidAddress
      else Ok (UpstreamAddress address))"

section \<open>Groups\<close>

datatype upstream_group = UpstreamGroup (group_servers: "upstream_address list")

fun repeats :: "'a list \<Rightarrow> 'a list \<Rightarrow> bool" where
  "repeats earlier [] = False"
| "repeats earlier (x # xs) = (x \<in> set earlier \<or> repeats (earlier @ [x]) xs)"

definition upstream_group_new :: "upstream_address list \<Rightarrow> (route_error, upstream_group) result" where
  "upstream_group_new addresses =
     (if addresses = [] \<or> length addresses > MAX_UPSTREAMS then Err InvalidGroupSize
      else if repeats [] addresses then Err DuplicateServer
      else Ok (UpstreamGroup addresses))"

section \<open>Routing table\<close>

record route =
  route_suffix :: domain_name
  route_upstreams :: upstream_group

record local_record =
  local_suffix :: domain_name
  local_address :: ipv4_addr
  local_ttl :: u32

record routing_table =
  rt_default :: "upstream_group option"
  rt_routes :: "route list"
  rt_local :: "local_record list"

datatype selection =
    Sel_Default upstream_group | Sel_Routed route | Sel_Local local_record | Sel_Unmatched

fun check_routes :: "route list \<Rightarrow> route list \<Rightarrow> (route_error, unit) result" where
  "check_routes earlier [] = Ok ()"
| "check_routes earlier (r # rs) =
     (if list_ex (\<lambda>p. name_eq (route_suffix p) (route_suffix r)) earlier
      then Err (DuplicateRoute (route_suffix r))
      else check_routes (earlier @ [r]) rs)"

fun check_local ::
  "route list \<Rightarrow> local_record list \<Rightarrow> local_record list \<Rightarrow> (route_error, unit) result" where
  "check_local routes earlier [] = Ok ()"
| "check_local routes earlier (r # rs) =
     (if list_ex (\<lambda>p. name_eq (local_suffix p) (local_suffix r)) earlier
         \<or> list_ex (\<lambda>p. name_eq (route_suffix p) (local_suffix r)) routes
      then Err (DuplicateRoute (local_suffix r))
      else check_local routes (earlier @ [r]) rs)"

definition sort_routes :: "route list \<Rightarrow> route list" where
  "sort_routes = sort_key (\<lambda>r. - int (label_count (route_suffix r)))"

definition sort_local :: "local_record list \<Rightarrow> local_record list" where
  "sort_local = sort_key (\<lambda>r. - int (label_count (local_suffix r)))"

definition routing_table_new ::
  "upstream_group option \<Rightarrow> route list \<Rightarrow> local_record list \<Rightarrow> (route_error, routing_table) result" where
  "routing_table_new default_group routes local =
     rbind (check_routes [] routes) (\<lambda>_.
     rbind (check_local routes [] local) (\<lambda>_.
       Ok \<lparr>rt_default = default_group, rt_routes = sort_routes routes, rt_local = sort_local local\<rparr>))"

definition find_route :: "domain_name \<Rightarrow> route list \<Rightarrow> route option" where
  "find_route n = List.find (\<lambda>r. is_subdomain_of n (route_suffix r))"

definition find_local :: "domain_name \<Rightarrow> local_record list \<Rightarrow> local_record option" where
  "find_local n = List.find (\<lambda>r. is_subdomain_of n (local_suffix r))"

definition select :: "routing_table \<Rightarrow> domain_name \<Rightarrow> selection" where
  "select t n =
     (case (find_route n (rt_routes t), find_local n (rt_local t)) of
        (Some r, Some l) \<Rightarrow>
          if label_count (route_suffix r) > label_count (local_suffix l) then Sel_Routed r
          else Sel_Local l
      | (None, Some l) \<Rightarrow> Sel_Local l
      | (Some r, None) \<Rightarrow> Sel_Routed r
      | (None, None) \<Rightarrow> (case rt_default t of None \<Rightarrow> Sel_Unmatched | Some g \<Rightarrow> Sel_Default g))"

definition has_upstreams :: "routing_table \<Rightarrow> bool" where
  "has_upstreams t \<longleftrightarrow> rt_default t \<noteq> None \<or> rt_routes t \<noteq> []"
section \<open>Facts on endpoints and groups\<close>

text \<open>An endpoint the program may send to.\<close>

fun unicast_endpoint :: "socket_addr \<Rightarrow> bool" where
  "unicast_endpoint (SocketV4 a p) \<longleftrightarrow> p \<noteq> 0 \<and> a \<noteq> 0 \<and> drop_bit 28 a \<noteq> 0xe \<and> a \<noteq> 0xffffffff"
| "unicast_endpoint (SocketV6 a p flow scope) \<longleftrightarrow>
     p \<noteq> 0 \<and> a \<noteq> 0 \<and> drop_bit 120 a \<noteq> 0xff \<and> drop_bit 32 a \<noteq> 0xffff"

lemma upstream_address_new_Ok:
  "upstream_address_new s = Ok a \<Longrightarrow>
     unicast_endpoint (upstream_socket a) \<and> upstream_address_new (upstream_socket a) = Ok a"
  by (cases s) (auto simp: upstream_address_new_def Let_def BROADCAST_def split: if_splits)

lemma upstream_address_new_total [panic_free]: "upstream_address_new s \<noteq> Panic"
  by (simp add: upstream_address_new_def Let_def)

lemma repeats_iff: "repeats earlier xs \<longleftrightarrow> \<not> distinct xs \<or> set earlier \<inter> set xs \<noteq> {}"
  by (induction earlier xs rule: repeats.induct) auto

lemma upstream_group_new_Ok:
  "upstream_group_new xs = Ok g \<longleftrightarrow>
     g = UpstreamGroup xs \<and> xs \<noteq> [] \<and> length xs \<le> 8 \<and> distinct xs"
  by (auto simp: upstream_group_new_def repeats_iff)

section \<open>Longest suffix lookup\<close>

text \<open>
  The contract of a suffix table: \<open>prepare\<close> orders the rules once, \<open>find\<close> then returns a matching
  rule of maximal specificity, and nothing only when no rule matches.
\<close>

locale suffix_table =
  fixes suffix_of :: "'r \<Rightarrow> domain_name"
    and prepare :: "'r list \<Rightarrow> 'r list"
    and find_rule :: "domain_name \<Rightarrow> 'r list \<Rightarrow> 'r option"
  assumes prepare_set: "set (prepare rs) = set rs"
    and find_longest: "find_rule n (prepare rs) = Some r \<Longrightarrow>
      r \<in> set rs \<and> is_subdomain_of n (suffix_of r) \<and>
      (\<forall>x \<in> set rs. is_subdomain_of n (suffix_of x) \<longrightarrow>
         label_count (suffix_of x) \<le> label_count (suffix_of r))"
    and find_none: "find_rule n (prepare rs) = None \<longleftrightarrow>
      (\<forall>x \<in> set rs. \<not> is_subdomain_of n (suffix_of x))"
begin

text \<open>Rules with pairwise different suffixes.\<close>

definition unambiguous :: "'r set \<Rightarrow> bool" where
  "unambiguous R \<longleftrightarrow> (\<forall>x \<in> R. \<forall>y \<in> R. name_eq (suffix_of x) (suffix_of y) \<longrightarrow> x = y)"

lemma find_unique:
  assumes "unambiguous (set rs)" and "r \<in> set rs" and "is_subdomain_of n (suffix_of r)"
    and "\<And>x. x \<in> set rs \<Longrightarrow> is_subdomain_of n (suffix_of x) \<Longrightarrow>
      label_count (suffix_of x) \<le> label_count (suffix_of r)"
  shows "find_rule n (prepare rs) = Some r"
proof (cases "find_rule n (prepare rs)")
  case None
  with assms find_none show ?thesis by blast
next
  case (Some s)
  note s = find_longest [OF this]
  then have "label_count (suffix_of s) = label_count (suffix_of r)"
    using assms by (meson order_antisym)
  then have "name_eq (suffix_of s) (suffix_of r)"
    using is_subdomain_of_unique s assms(3) by blast
  then show ?thesis using assms s Some by (auto simp: unambiguous_def)
qed

lemma find_order_independent:
  assumes "unambiguous (set rs)" and "set rs = set rs'"
  shows "find_rule n (prepare rs) = find_rule n (prepare rs')"
proof (cases "find_rule n (prepare rs')")
  case None
  with assms(2) find_none show ?thesis by metis
next
  case (Some r)
  with assms find_longest [OF Some] show ?thesis by (auto intro!: find_unique)
qed

end

text \<open>The first match in a list of decreasing specificity is a longest match.\<close>

lemma find_first_longest:
  fixes suffix_of :: "'r \<Rightarrow> domain_name"
  assumes "List.find (\<lambda>r. is_subdomain_of n (suffix_of r))
      (sort_key (\<lambda>r. - int (label_count (suffix_of r))) rs) = Some r"
    (is "List.find ?P ?xs = _")
  shows "r \<in> set rs \<and> ?P r \<and>
    (\<forall>x \<in> set rs. ?P x \<longrightarrow> label_count (suffix_of x) \<le> label_count (suffix_of r))"
proof -
  obtain i where i: "i < length ?xs" "?P (?xs ! i)" "?xs ! i = r" "\<And>j. j < i \<Longrightarrow> \<not> ?P (?xs ! j)"
    using assms by (auto simp: find_Some_iff)
  have "label_count (suffix_of x) \<le> label_count (suffix_of r)" if "x \<in> set rs" "?P x" for x
  proof -
    from that(1) have "x \<in> set ?xs" by simp
    then obtain j where j: "j < length ?xs" "?xs ! j = x" by (metis in_set_conv_nth)
    then have "i \<le> j" using i(4) that(2) by (metis not_less)
    moreover have "sorted (map (\<lambda>r. - int (label_count (suffix_of r))) ?xs)" by simp
    ultimately have "map (\<lambda>r. - int (label_count (suffix_of r))) ?xs ! i
        \<le> map (\<lambda>r. - int (label_count (suffix_of r))) ?xs ! j"
      using j(1) by (intro sorted_nth_mono) simp_all
    then show ?thesis using i(1,3) j by simp
  qed
  moreover have "r \<in> set rs" using i(1,3) by (metis nth_mem set_sort)
  ultimately show ?thesis using i by auto
qed

lemma find_first_none:
  "List.find P (sort_key f rs) = None \<longleftrightarrow> (\<forall>x \<in> set rs. \<not> P x)"
  by (auto simp: find_None_iff)

interpretation routes: suffix_table route_suffix sort_routes find_route
proof
  show "set (sort_routes rs) = set rs" for rs by (simp add: sort_routes_def)
  show "find_route n (sort_routes rs) = Some r \<Longrightarrow>
      r \<in> set rs \<and> is_subdomain_of n (route_suffix r) \<and>
      (\<forall>x \<in> set rs. is_subdomain_of n (route_suffix x) \<longrightarrow>
         label_count (route_suffix x) \<le> label_count (route_suffix r))" for n rs r
    unfolding find_route_def sort_routes_def by (rule find_first_longest)
  show "find_route n (sort_routes rs) = None \<longleftrightarrow> (\<forall>x \<in> set rs. \<not> is_subdomain_of n (route_suffix x))" for n rs
    unfolding find_route_def sort_routes_def by (rule find_first_none)
qed

interpretation local_zone: suffix_table local_suffix sort_local find_local
proof
  show "set (sort_local rs) = set rs" for rs by (simp add: sort_local_def)
  show "find_local n (sort_local rs) = Some r \<Longrightarrow>
      r \<in> set rs \<and> is_subdomain_of n (local_suffix r) \<and>
      (\<forall>x \<in> set rs. is_subdomain_of n (local_suffix x) \<longrightarrow>
         label_count (local_suffix x) \<le> label_count (local_suffix r))" for n rs r
    unfolding find_local_def sort_local_def by (rule find_first_longest)
  show "find_local n (sort_local rs) = None \<longleftrightarrow> (\<forall>x \<in> set rs. \<not> is_subdomain_of n (local_suffix x))" for n rs
    unfolding find_local_def sort_local_def by (rule find_first_none)
qed

section \<open>Facts on routing tables\<close>

text \<open>The suffixes of all rules, and tables whose rules are pairwise different.\<close>

definition route_names :: "route list \<Rightarrow> u8 list list list" where
  "route_names rs = map (fold_case \<circ> route_suffix) rs"

definition local_names :: "local_record list \<Rightarrow> u8 list list list" where
  "local_names rs = map (fold_case \<circ> local_suffix) rs"

definition table_ok :: "route list \<Rightarrow> local_record list \<Rightarrow> bool" where
  "table_ok rs ls \<longleftrightarrow> distinct (route_names rs @ local_names ls)"

lemma names_simps [simp]:
  "route_names [] = []" "route_names (r # rs) = fold_case (route_suffix r) # route_names rs"
  "route_names (rs @ rs') = route_names rs @ route_names rs'"
  "local_names [] = []" "local_names (l # ls) = fold_case (local_suffix l) # local_names ls"
  "local_names (ls @ ls') = local_names ls @ local_names ls'"
  by (simp_all add: route_names_def local_names_def)

lemma taken_suffix:
  "list_ex (\<lambda>p. name_eq (route_suffix p) n) rs \<longleftrightarrow> fold_case n \<in> set (route_names rs)"
  "list_ex (\<lambda>p. name_eq (local_suffix p) n) ls \<longleftrightarrow> fold_case n \<in> set (local_names ls)"
proof -
  show "list_ex (\<lambda>p. name_eq (route_suffix p) n) rs \<longleftrightarrow> fold_case n \<in> set (route_names rs)"
    by (induction rs) (auto simp: name_eq_iff)
  show "list_ex (\<lambda>p. name_eq (local_suffix p) n) ls \<longleftrightarrow> fold_case n \<in> set (local_names ls)"
    by (induction ls) (auto simp: name_eq_iff)
qed

lemma check_routes_Ok:
  "check_routes earlier rs = Ok () \<longleftrightarrow>
     distinct (route_names rs) \<and> set (route_names earlier) \<inter> set (route_names rs) = {}"
  by (induction earlier rs rule: check_routes.induct) (auto simp: taken_suffix)

lemma check_local_Ok:
  "check_local routes earlier ls = Ok () \<longleftrightarrow>
     distinct (local_names ls) \<and> set (local_names earlier) \<inter> set (local_names ls) = {}
     \<and> set (route_names routes) \<inter> set (local_names ls) = {}"
  by (induction routes earlier ls rule: check_local.induct) (auto simp: taken_suffix)

lemma check_routes_total [panic_free, simp]: "check_routes earlier rs \<noteq> Panic"
  by (induction earlier rs rule: check_routes.induct) auto

lemma check_local_total [panic_free, simp]: "check_local rs earlier ls \<noteq> Panic"
  by (induction rs earlier ls rule: check_local.induct) auto

lemma routing_table_new_Ok:
  "routing_table_new d rs ls = Ok t \<longleftrightarrow>
     table_ok rs ls \<and> t = \<lparr>rt_default = d, rt_routes = sort_routes rs, rt_local = sort_local ls\<rparr>"
proof -
  have u: "(\<exists>x. m = Ok x \<and> P) \<longleftrightarrow> m = Ok () \<and> P" for m :: "(route_error, unit) result" and P
    by simp
  show ?thesis
    unfolding routing_table_new_def rbind_eq_Ok u check_routes_Ok check_local_Ok
    by (auto simp: table_ok_def)
qed

lemma table_ok_unambiguous:
  assumes "table_ok rs ls"
  shows "routes.unambiguous (set rs)" and "local_zone.unambiguous (set ls)"
    and "r \<in> set rs \<Longrightarrow> l \<in> set ls \<Longrightarrow> \<not> name_eq (route_suffix r) (local_suffix l)"
  using assms
  by (auto simp: table_ok_def routes.unambiguous_def local_zone.unambiguous_def route_names_def
      local_names_def name_eq_iff distinct_map inj_on_def)

section \<open>Selection\<close>

text \<open>
  The policy as a set of rules: the most specific matching rule decides, and the default group
  only when no rule matches.
\<close>

datatype rule = Rule_Forward route | Rule_Local local_record

fun rule_suffix :: "rule \<Rightarrow> domain_name" where
  "rule_suffix (Rule_Forward r) = route_suffix r"
| "rule_suffix (Rule_Local l) = local_suffix l"

definition rules :: "route list \<Rightarrow> local_record list \<Rightarrow> rule set" where
  "rules rs ls = Rule_Forward ` set rs \<union> Rule_Local ` set ls"

definition longest :: "rule set \<Rightarrow> domain_name \<Rightarrow> rule \<Rightarrow> bool" where
  "longest R n x \<longleftrightarrow> x \<in> R \<and> is_subdomain_of n (rule_suffix x) \<and>
     (\<forall>y \<in> R. is_subdomain_of n (rule_suffix y) \<longrightarrow> y = x
        \<or> label_count (rule_suffix y) < label_count (rule_suffix x))"

definition unmatched :: "rule set \<Rightarrow> domain_name \<Rightarrow> bool" where
  "unmatched R n \<longleftrightarrow> (\<forall>y \<in> R. \<not> is_subdomain_of n (rule_suffix y))"

fun selects :: "upstream_group option \<Rightarrow> rule set \<Rightarrow> domain_name \<Rightarrow> selection \<Rightarrow> bool" where
  "selects d R n (Sel_Routed r) = longest R n (Rule_Forward r)"
| "selects d R n (Sel_Local l) = longest R n (Rule_Local l)"
| "selects d R n (Sel_Default g) = (d = Some g \<and> unmatched R n)"
| "selects d R n Sel_Unmatched = (d = None \<and> unmatched R n)"

lemma longest_unique: "longest R n x \<Longrightarrow> longest R n y \<Longrightarrow> x = y"
  unfolding longest_def by (metis order_less_asym)

lemma longest_matched: "longest R n x \<Longrightarrow> \<not> unmatched R n"
  by (auto simp: longest_def unmatched_def)

lemma selects_unique: "selects d R n s \<Longrightarrow> selects d R n s' \<Longrightarrow> s = s'"
  by (cases s; cases s') (auto dest: longest_unique longest_matched)

lemma rules_mem [simp]:
  "Rule_Forward r \<in> rules rs ls \<longleftrightarrow> r \<in> set rs" "Rule_Local l \<in> rules rs ls \<longleftrightarrow> l \<in> set ls"
  by (auto simp: rules_def)

lemma rules_ball:
  "(\<forall>y \<in> rules rs ls. P y) \<longleftrightarrow> (\<forall>r \<in> set rs. P (Rule_Forward r)) \<and> (\<forall>l \<in> set ls. P (Rule_Local l))"
  by (auto simp: rules_def)

lemma rules_distinct:
  assumes "table_ok rs ls" and "x \<in> rules rs ls" and "y \<in> rules rs ls"
    and eq: "name_eq (rule_suffix y) (rule_suffix x)"
  shows "y = x"
proof (cases x; cases y)
  fix r r' assume "x = Rule_Forward r" "y = Rule_Forward r'"
  then show ?thesis using assms table_ok_unambiguous(1) [OF assms(1)] by (simp add: routes.unambiguous_def)
next
  fix l l' assume "x = Rule_Local l" "y = Rule_Local l'"
  then show ?thesis
    using assms table_ok_unambiguous(2) [OF assms(1)] by (simp add: local_zone.unambiguous_def)
next
  fix r l assume "x = Rule_Forward r" "y = Rule_Local l"
  then show ?thesis using assms table_ok_unambiguous(3) [OF assms(1), of r l] by (simp add: name_eq_iff)
next
  fix r l assume "x = Rule_Local l" "y = Rule_Forward r"
  then show ?thesis using assms table_ok_unambiguous(3) [OF assms(1), of r l] by (simp add: name_eq_iff)
qed

lemma longest_among:
  assumes ok: "table_ok rs ls" and x: "x \<in> rules rs ls" "is_subdomain_of n (rule_suffix x)"
    and "\<forall>y \<in> rules rs ls. is_subdomain_of n (rule_suffix y) \<longrightarrow>
      label_count (rule_suffix y) \<le> label_count (rule_suffix x)"
  shows "longest (rules rs ls) n x"
proof -
  have "y = x \<or> label_count (rule_suffix y) < label_count (rule_suffix x)"
    if y: "y \<in> rules rs ls" "is_subdomain_of n (rule_suffix y)" for y
  proof (cases "label_count (rule_suffix y) = label_count (rule_suffix x)")
    case True
    then have "name_eq (rule_suffix y) (rule_suffix x)"
      by (rule is_subdomain_of_unique [OF y(2) x(2)])
    then show ?thesis using rules_distinct [OF ok x(1) y(1)] by simp
  next
    case False
    then show ?thesis using assms(4) y by (metis le_neq_implies_less)
  qed
  then show ?thesis using x by (simp add: longest_def)
qed

lemmas longest_among_split = longest_among [unfolded rules_ball rule_suffix.simps]

lemma select_selects:
  assumes "routing_table_new d rs ls = Ok t"
  shows "selects d (rules rs ls) n (select t n)"
proof -
  have ok: "table_ok rs ls"
    and t: "t = \<lparr>rt_default = d, rt_routes = sort_routes rs, rt_local = sort_local ls\<rparr>"
    using assms by (simp_all add: routing_table_new_Ok)
  note r = routes.find_longest [of n rs] routes.find_none [of n rs]
  note l = local_zone.find_longest [of n ls] local_zone.find_none [of n ls]
  show ?thesis
  proof (cases "find_route n (sort_routes rs)"; cases "find_local n (sort_local ls)")
    assume "find_route n (sort_routes rs) = None" "find_local n (sort_local ls) = None"
    with r(2) l(2) show ?thesis
      by (simp add: select_def t unmatched_def rules_ball split: option.split)
  next
    fix x assume "find_route n (sort_routes rs) = None" "find_local n (sort_local ls) = Some x"
    with r(2) l(1) show ?thesis
      by (auto simp: select_def t intro!: longest_among_split [OF ok])
  next
    fix x assume "find_route n (sort_routes rs) = Some x" "find_local n (sort_local ls) = None"
    with r(1) l(2) show ?thesis
      by (auto simp: select_def t intro!: longest_among_split [OF ok])
  next
    fix x y assume "find_route n (sort_routes rs) = Some x" "find_local n (sort_local ls) = Some y"
    with r(1) l(1) show ?thesis
      by (fastforce simp: select_def t intro!: longest_among_split [OF ok])
  qed
qed

section \<open>Properties of routing\<close>

text \<open>C7: selection refines the longest-suffix policy: the table built from any accepted rules
  selects, for every name, the most specific matching rule whatever its kind, and the default group
  (or nothing) exactly when no rule matches.\<close>

theorem select_iff:
  "routing_table_new d rs ls = Ok t \<Longrightarrow> select t n = s \<longleftrightarrow> selects d (rules rs ls) n s"
  using select_selects selects_unique by blast

theorem select_iff_witness:
  "select \<lparr>rt_default = None, rt_routes = [], rt_local = [\<lparr>local_suffix = DomainName [[97]], local_address = 1, local_ttl = 2\<rparr>]\<rparr>
     (DomainName [[98], [65]]) = Sel_Local \<lparr>local_suffix = DomainName [[97]], local_address = 1, local_ttl = 2\<rparr>"
  by (subst select_iff [of None "[]" "[\<lparr>local_suffix = DomainName [[97]], local_address = 1, local_ttl = 2\<rparr>]"])
    (simp_all add: routing_table_new_def sort_routes_def sort_local_def longest_def rules_def
      is_subdomain_of_def eq_ignore_ascii_case_def to_ascii_lowercase_def)



text \<open>An accepted upstream endpoint is a unicast address with a port, IPv4-mapped addresses are
  reduced to IPv4, and a group is accepted exactly when it has 1 to 8 pairwise different endpoints.\<close>

theorem upstreams_validated:
  "(case upstream_address_new s of
      Ok a \<Rightarrow> unicast_endpoint (upstream_socket a) \<and> upstream_address_new (upstream_socket a) = Ok a
    | Err e \<Rightarrow> e = InvalidAddress
    | Panic \<Rightarrow> False)
   \<and> (upstream_group_new xs = Ok g \<longleftrightarrow> g = UpstreamGroup xs \<and> xs \<noteq> [] \<and> length xs \<le> 8 \<and> distinct xs)"
  using upstream_address_new_Ok [of s] upstream_address_new_total [of s]
  by (auto simp: upstream_group_new_Ok split: result.split)
    (auto simp: upstream_address_new_def Let_def split: if_splits)

end
