(* ===== verification/Runtime.thy ===== *)
theory Runtime
  imports Routing
begin

text \<open>
  The environment the stateful modules run in: clock, stop flag, sockets, entropy and the log.

  A run is a function of an environment \<open>env\<close>. Its \<open>script\<close> is the finite list of what the
  environment will show next: every clock reading, stop-flag load and system call consumes one
  observation. A run that needs an observation when none is left has not returned yet; its value
  is \<open>None\<close>, and the environment still holds everything it did so far, so a property of the actions
  logged in \<open>performed\<close> is a property of every partial execution. A returned value is
  \<open>Some (Ok _)\<close>, \<open>Some (Err _)\<close> or \<open>Some Panic\<close>.

  \<open>checked\<close> is the clock reading of the latest deadline check that passed. The record is extended
  by the state of the module that runs (\<^verbatim>\<open>Forwarder\<close> of \<^verbatim>\<open>src/upstream.rs\<close>). Times are nanoseconds.

  \<open>wp\<close> is the weakest precondition of a run that must not panic, with one postcondition for each
  way a run can end; the locale \<open>run_policy\<close> is the contract of a restriction on the actions of a
  module, with the rules that carry it through every run built from the primitives.
\<close>

section \<open>I/O errors\<close>

datatype io_kind =
    WouldBlock | TimedOut | Interrupted | UnexpectedEof | InvalidData | InvalidInput | WriteZero
  | ConnectionAborted | ConnectionReset | NetworkDown | NetworkUnreachable | HostUnreachable
  | OtherKind nat

datatype io_error = Os io_kind | Custom io_kind string | Cancelled

fun error_kind :: "io_error \<Rightarrow> io_kind" where
  "error_kind (Os k) = k"
| "error_kind (Custom k msg) = k"
| "error_kind Cancelled = Interrupted"

section \<open>Observations and actions\<close>

type_synonym instant = nat
type_synonym duration = nat

datatype io_outcome = Io_Ok "u8 list" | Io_Err io_kind

record observation =
  ob_now :: instant
  ob_stop :: bool
  ob_io :: io_outcome

datatype tcp_stream = TcpStream (stream_peer: socket_addr) (stream_id: nat)

datatype forward_error =
    Fwd_Timeout | Fwd_Cancelled | Fwd_Io io_error | Fwd_Parse parse_error | Fwd_InvalidResponse
  | Fwd_ServerFailure | Fwd_Refused

datatype warning =
    Warn_Upstream upstream_address forward_error
  | Warn_Ignored upstream_address
  | Warn_Malformed parse_error
  | Warn_Forwarding forward_error
  | Warn_Suppressed
  | Warn_Udp_Capacity
  | Warn_Tcp_Capacity
  | Warn_Accept io_error
  | Warn_Udp_Client io_error
  | Warn_Tcp_Client io_error

datatype action =
    Act_Connect socket_addr
  | Act_Udp socket_addr "u8 list" "instant option"
  | Act_Write tcp_stream "u8 list" "instant option"
  | Act_Read tcp_stream "u8 list"
  | Act_Warn warning

record env =
  script :: "observation list"
  checked :: "instant option"
  connections :: nat
  performed :: "action list"

type_synonym ('e, 'a, 'z) io = "'z env_scheme \<Rightarrow> ('e, 'a) result option \<times> 'z env_scheme"

section \<open>Sequencing\<close>

definition io_ok :: "'a \<Rightarrow> ('e, 'a, 'z) io" where
  "io_ok x w = (Some (Ok x), w)"

definition io_err :: "'e \<Rightarrow> ('e, 'a, 'z) io" where
  "io_err e w = (Some (Err e), w)"

text \<open>A computation without effects, such as parsing.\<close>

definition io_lift :: "('e, 'a) result \<Rightarrow> ('e, 'a, 'z) io" where
  "io_lift r w = (Some r, w)"

text \<open>The \<^verbatim>\<open>?\<close> operator.\<close>

definition io_bind :: "('e, 'a, 'z) io \<Rightarrow> ('a \<Rightarrow> ('e, 'b, 'z) io) \<Rightarrow> ('e, 'b, 'z) io" where
  "io_bind m f w =
     (case m w of
        (Some (Ok x), w') \<Rightarrow> f x w'
      | (Some (Err e), w') \<Rightarrow> (Some (Err e), w')
      | (Some Panic, w') \<Rightarrow> (Some Panic, w')
      | (None, w') \<Rightarrow> (None, w'))"

text \<open>\<^verbatim>\<open>match\<close> on a \<^verbatim>\<open>Result\<close>.\<close>

definition io_match ::
  "('e, 'a, 'z) io \<Rightarrow> ('a \<Rightarrow> ('f, 'b, 'z) io) \<Rightarrow> ('e \<Rightarrow> ('f, 'b, 'z) io) \<Rightarrow> ('f, 'b, 'z) io" where
  "io_match m f g w =
     (case m w of
        (Some (Ok x), w') \<Rightarrow> f x w'
      | (Some (Err e), w') \<Rightarrow> g e w'
      | (Some Panic, w') \<Rightarrow> (Some Panic, w')
      | (None, w') \<Rightarrow> (None, w'))"

definition io_map_err :: "('e \<Rightarrow> 'f) \<Rightarrow> ('e, 'a, 'z) io \<Rightarrow> ('f, 'a, 'z) io" where
  "io_map_err g m = io_match m io_ok (\<lambda>e. io_err (g e))"

section \<open>Primitives\<close>

definition observe :: "('e, observation, 'z) io" where
  "observe w =
     (case script w of
        [] \<Rightarrow> (None, w)
      | ob # rest \<Rightarrow> (Some (Ok ob), w\<lparr>script := rest\<rparr>))"

definition perform :: "action \<Rightarrow> ('e, unit, 'z) io" where
  "perform a w = (Some (Ok ()), w\<lparr>performed := performed w @ [a]\<rparr>)"

definition warn :: "warning \<Rightarrow> ('e, unit, 'z) io" where
  "warn m = perform (Act_Warn m)"

text \<open>A system call that yields bytes or fails.\<close>

definition syscall :: "(io_error, u8 list, 'z) io" where
  "syscall = io_bind observe (\<lambda>ob.
     case ob_io ob of Io_Ok bytes \<Rightarrow> io_ok bytes | Io_Err k \<Rightarrow> io_err (Os k))"

definition now :: "('e, instant, 'z) io" where
  "now = io_bind observe (\<lambda>ob. io_ok (ob_now ob))"

text \<open>\<^verbatim>\<open>set_read_timeout(Some(d))\<close> and \<^verbatim>\<open>set_write_timeout(Some(d))\<close>: zero is an error.\<close>

definition set_timeout :: "duration \<Rightarrow> (io_error, unit, 'z) io" where
  "set_timeout d =
     (if d = 0 then io_err (Custom InvalidInput ''cannot set a 0 duration timeout'')
      else io_bind syscall (\<lambda>_. io_ok ()))"

definition tcp_connect :: "socket_addr \<Rightarrow> duration \<Rightarrow> (io_error, tcp_stream, 'z) io" where
  "tcp_connect address d =
     (if d = 0 then io_err (Custom InvalidInput ''cannot set a 0 duration timeout'')
      else
        io_bind (perform (Act_Connect address)) (\<lambda>_.
        io_bind syscall (\<lambda>_ w.
          (Some (Ok (TcpStream address (connections w))), w\<lparr>connections := connections w + 1\<rparr>))))"

text \<open>\<^verbatim>\<open>stream.read\<close> into a buffer of \<open>n\<close> bytes, and \<^verbatim>\<open>stream.write\<close>: both may be partial.\<close>

definition tcp_read :: "tcp_stream \<Rightarrow> nat \<Rightarrow> (io_error, u8 list, 'z) io" where
  "tcp_read stream n =
     io_bind syscall (\<lambda>bytes.
     io_bind (perform (Act_Read stream (take n bytes))) (\<lambda>_. io_ok (take n bytes)))"

definition tcp_write :: "tcp_stream \<Rightarrow> u8 list \<Rightarrow> (io_error, nat, 'z) io" where
  "tcp_write stream bytes =
     io_bind syscall (\<lambda>r w.
       let n = min (length r) (length bytes) in
       io_bind (perform (Act_Write stream (take n bytes) (checked w))) (\<lambda>_. io_ok n) w)"

text \<open>\<^verbatim>\<open>socket.send\<close> of one datagram and \<^verbatim>\<open>socket.recv\<close> into a buffer of \<open>n\<close> bytes.\<close>

definition udp_send :: "socket_addr \<Rightarrow> u8 list \<Rightarrow> (io_error, unit, 'z) io" where
  "udp_send address bytes w =
     io_bind (perform (Act_Udp address bytes (checked w))) (\<lambda>_. io_bind syscall (\<lambda>_. io_ok ())) w"

definition udp_recv :: "nat \<Rightarrow> (io_error, u8 list, 'z) io" where
  "udp_recv n = io_bind syscall (\<lambda>bytes. io_ok (take n bytes))"
section \<open>Reasoning about runs\<close>

named_theorems wp_simps "weakest preconditions of primitives and combinators"
named_theorems shrinks "runs that consume observations"

lemma io_bind_cong [fundef_cong]:
  "m w = m' w' \<Longrightarrow> (\<And>x v. m' w' = (Some (Ok x), v) \<Longrightarrow> f x v = g x v) \<Longrightarrow>
     io_bind m f w = io_bind m' g w'"
  by (auto simp: io_bind_def split: prod.splits option.splits result.splits)

lemma io_match_cong [fundef_cong]:
  "m w = m' w' \<Longrightarrow> (\<And>x v. m' w' = (Some (Ok x), v) \<Longrightarrow> f x v = f' x v) \<Longrightarrow>
     (\<And>e v. m' w' = (Some (Err e), v) \<Longrightarrow> g e v = g' e v) \<Longrightarrow>
     io_match m f g w = io_match m' f' g' w'"
  by (auto simp: io_match_def split: prod.splits option.splits result.splits)

lemma io_bind_lift [simp]: "io_bind (io_lift (Ok x)) f = f x" "io_bind (io_lift (Err e)) f = io_err e"
  by (simp_all add: fun_eq_iff io_bind_def io_lift_def io_err_def)

lemma io_match_lift: "io_match (io_lift (Ok x)) f g = f x" "io_match (io_lift (Err e)) f g = g e"
  by (simp_all add: fun_eq_iff io_match_def io_lift_def)

text \<open>
  \<open>wp m Q E N w\<close>: from \<open>w\<close>, the run \<open>m\<close> does not panic; it ends in \<open>Q\<close> with a value, in \<open>E\<close> with
  an error, and is in \<open>N\<close> while it waits.
\<close>

definition wp ::
  "('e, 'a, 'z) io \<Rightarrow> ('a \<Rightarrow> 'z env_scheme \<Rightarrow> bool) \<Rightarrow> ('e \<Rightarrow> 'z env_scheme \<Rightarrow> bool)
   \<Rightarrow> ('z env_scheme \<Rightarrow> bool) \<Rightarrow> 'z env_scheme \<Rightarrow> bool" where
  "wp m Q E N w =
     (case m w of
        (Some (Ok x), v) \<Rightarrow> Q x v
      | (Some (Err e), v) \<Rightarrow> E e v
      | (Some Panic, v) \<Rightarrow> False
      | (None, v) \<Rightarrow> N v)"

lemma wp_ok [wp_simps]: "wp (io_ok x) Q E N = Q x"
  by (simp add: wp_def io_ok_def fun_eq_iff)

lemma wp_err [wp_simps]: "wp (io_err e) Q E N = E e"
  by (simp add: wp_def io_err_def fun_eq_iff)

lemma wp_lift [wp_simps]:
  "wp (io_lift r) Q E N = (\<lambda>w. case r of Ok x \<Rightarrow> Q x w | Err e \<Rightarrow> E e w | Panic \<Rightarrow> False)"
  by (simp add: wp_def io_lift_def fun_eq_iff split: result.split)

lemma wp_bind [wp_simps]: "wp (io_bind m f) Q E N = wp m (\<lambda>x. wp (f x) Q E N) E N"
  by (rule ext) (auto simp: wp_def io_bind_def split: prod.splits option.splits result.splits)

lemma wp_match [wp_simps]:
  "wp (io_match m f g) Q E N = wp m (\<lambda>x. wp (f x) Q E N) (\<lambda>e. wp (g e) Q E N) N"
  by (rule ext) (auto simp: wp_def io_match_def split: prod.splits option.splits result.splits)

lemma wp_map_err [wp_simps]: "wp (io_map_err g m) Q E N = wp m Q (\<lambda>e. E (g e)) N"
  by (simp add: io_map_err_def wp_match wp_ok wp_err)

lemma wp_observe [wp_simps]:
  "wp observe Q E N = (\<lambda>w. case script w of [] \<Rightarrow> N w | ob # rest \<Rightarrow> Q ob (w\<lparr>script := rest\<rparr>))"
  by (simp add: wp_def observe_def fun_eq_iff split: list.split)

lemma wp_perform [wp_simps]:
  "wp (perform a) Q E N = (\<lambda>w. Q () (w\<lparr>performed := performed w @ [a]\<rparr>))"
  by (simp add: wp_def perform_def fun_eq_iff)

lemma wp_warn [wp_simps]:
  "wp (warn m) Q E N = (\<lambda>w. Q () (w\<lparr>performed := performed w @ [Act_Warn m]\<rparr>))"
  by (simp add: warn_def wp_perform)

lemma wp_syscall [wp_simps]:
  "wp syscall Q E N =
     (\<lambda>w. case script w of [] \<Rightarrow> N w
      | ob # rest \<Rightarrow> (case ob_io ob of Io_Ok bytes \<Rightarrow> Q bytes (w\<lparr>script := rest\<rparr>)
                     | Io_Err k \<Rightarrow> E (Os k) (w\<lparr>script := rest\<rparr>)))"
  by (auto simp: syscall_def wp_bind wp_observe wp_ok wp_err fun_eq_iff
      split: list.split io_outcome.split)

lemma wp_now [wp_simps]:
  "wp now Q E N =
     (\<lambda>w. case script w of [] \<Rightarrow> N w | ob # rest \<Rightarrow> Q (ob_now ob) (w\<lparr>script := rest\<rparr>))"
  by (simp add: now_def wp_bind wp_observe wp_ok fun_eq_iff split: list.split)

lemma wp_mono:
  assumes "wp m Q E N w" and "\<And>x v. Q x v \<Longrightarrow> Q' x v" and "\<And>e v. E e v \<Longrightarrow> E' e v"
    and "\<And>v. N v \<Longrightarrow> N' v"
  shows "wp m Q' E' N' w"
  using assms by (auto simp: wp_def split: prod.splits option.splits result.splits)

lemma wp_conj:
  "wp m Q E N w \<Longrightarrow> wp m Q' E' N' w \<Longrightarrow>
     wp m (\<lambda>x v. Q x v \<and> Q' x v) (\<lambda>e v. E e v \<and> E' e v) (\<lambda>v. N v \<and> N' v) w"
  by (auto simp: wp_def split: prod.splits option.splits result.splits)

lemma wp_returned:
  assumes "wp m Q E N w" and "m w = (r, v)"
  shows "r \<noteq> Some Panic" and "r = Some (Ok x) \<Longrightarrow> Q x v" and "r = Some (Err e) \<Longrightarrow> E e v"
    and "r = None \<Longrightarrow> N v"
  using assms by (auto simp: wp_def)

section \<open>Observations are consumed\<close>

definition left :: "'z env_scheme \<Rightarrow> nat" where
  "left w = length (script w)"

lemma left_update [simp]:
  "left (w\<lparr>checked := c\<rparr>) = left w" "left (w\<lparr>performed := l\<rparr>) = left w"
  "left (w\<lparr>connections := n\<rparr>) = left w" "left (w\<lparr>script := s\<rparr>) = length s"
  by (simp_all add: left_def)

lemma io_bind_Ok [shrinks]:
  "io_bind m f w = (Some (Ok y), v) \<longleftrightarrow> (\<exists>x u. m w = (Some (Ok x), u) \<and> f x u = (Some (Ok y), v))"
  by (auto simp: io_bind_def split: prod.splits option.splits result.splits)

lemma io_bind_Err [shrinks]:
  "io_bind m f w = (Some (Err e), v) \<longleftrightarrow>
     m w = (Some (Err e), v) \<or> (\<exists>x u. m w = (Some (Ok x), u) \<and> f x u = (Some (Err e), v))"
  by (auto simp: io_bind_def split: prod.splits option.splits result.splits)

lemma io_ok_eq [shrinks]: "io_ok x w = (r, v) \<longleftrightarrow> r = Some (Ok x) \<and> v = w"
  by (auto simp: io_ok_def)

lemma io_err_eq [shrinks]: "io_err e w = (r, v) \<longleftrightarrow> r = Some (Err e) \<and> v = w"
  by (auto simp: io_err_def)

lemma syscall_left [shrinks]:
  "syscall w = (Some r, v) \<Longrightarrow> left v < left w"
  by (auto simp: syscall_def io_bind_def observe_def io_ok_def io_err_def left_def
      split: list.splits io_outcome.splits)

lemma set_timeout_left: "set_timeout d w = (Some r, v) \<Longrightarrow> left v \<le> left w"
  by (auto simp: set_timeout_def io_bind_def io_ok_def io_err_def dest: syscall_left
      split: if_splits prod.splits option.splits result.splits)

lemma tcp_read_left: "tcp_read s n w = (Some r, v) \<Longrightarrow> left v < left w"
  by (auto simp: tcp_read_def io_bind_def io_ok_def perform_def dest: syscall_left
      split: prod.splits option.splits result.splits)

lemma tcp_write_left: "tcp_write s bytes w = (Some r, v) \<Longrightarrow> left v < left w"
  by (auto simp: tcp_write_def io_bind_def io_ok_def perform_def Let_def dest: syscall_left
      split: prod.splits option.splits result.splits)

lemma udp_recv_left: "udp_recv n w = (Some r, v) \<Longrightarrow> left v < left w"
  by (auto simp: udp_recv_def io_bind_def io_ok_def dest: syscall_left
      split: prod.splits option.splits result.splits)

section \<open>Weakest preconditions of system calls\<close>

lemma wp_at: "m w = m' w \<Longrightarrow> wp m Q E N w = wp m' Q E N w"
  by (simp add: wp_def)

lemma wp_if [wp_simps]:
  "wp (if c then f else g) Q E N = (if c then wp f Q E N else wp g Q E N)"
  "wp (\<lambda>v. if c then f v else g v) Q E N = (if c then wp f Q E N else wp g Q E N)"
  by simp_all

lemma wp_return [wp_simps]: "wp (\<lambda>w. (Some (Ok x), f w)) Q E N = (\<lambda>w. Q x (f w))"
  by (simp add: wp_def fun_eq_iff)

lemma wp_set_timeout [wp_simps]:
  "wp (set_timeout d) Q E N =
     (if d = 0 then E (Custom InvalidInput ''cannot set a 0 duration timeout'')
      else wp syscall (\<lambda>_. Q ()) E N)"
  by (simp add: set_timeout_def wp_bind wp_err wp_ok)

lemma wp_tcp_read [wp_simps]:
  "wp (tcp_read s n) Q E N =
     wp syscall (\<lambda>b w. Q (take n b) (w\<lparr>performed := performed w @ [Act_Read s (take n b)]\<rparr>)) E N"
  by (simp add: tcp_read_def wp_bind wp_perform wp_ok)

lemma wp_tcp_write [wp_simps]:
  "wp (tcp_write s bytes) Q E N =
     wp syscall (\<lambda>r w. let n = min (length r) (length bytes) in
       Q n (w\<lparr>performed := performed w @ [Act_Write s (take n bytes) (checked w)]\<rparr>)) E N"
proof -
  have step: "wp (\<lambda>w. let n = min (length r) (length bytes) in
        io_bind (perform (Act_Write s (take n bytes) (checked w))) (\<lambda>_. io_ok n) w) Q E N
      = (\<lambda>w. let n = min (length r) (length bytes) in
       Q n (w\<lparr>performed := performed w @ [Act_Write s (take n bytes) (checked w)]\<rparr>))" for r
    by (simp add: fun_eq_iff wp_def io_bind_def perform_def io_ok_def Let_def)
  show ?thesis unfolding tcp_write_def wp_bind step ..
qed

lemma wp_udp_send [wp_simps]:
  "wp (udp_send a bytes) Q E N =
     (\<lambda>w. wp syscall (\<lambda>_. Q ()) E N (w\<lparr>performed := performed w @ [Act_Udp a bytes (checked w)]\<rparr>))"
proof
  fix w
  have "wp (udp_send a bytes) Q E N w =
      wp (io_bind (perform (Act_Udp a bytes (checked w))) (\<lambda>_. io_bind syscall (\<lambda>_. io_ok ()))) Q E N w"
    by (rule wp_at) (simp add: udp_send_def)
  then show "wp (udp_send a bytes) Q E N w =
      wp syscall (\<lambda>_. Q ()) E N (w\<lparr>performed := performed w @ [Act_Udp a bytes (checked w)]\<rparr>)"
    by (simp add: wp_bind wp_perform wp_ok)
qed

lemma wp_udp_recv [wp_simps]: "wp (udp_recv n) Q E N = wp syscall (\<lambda>b. Q (take n b)) E N"
  by (simp add: udp_recv_def wp_bind wp_ok)

lemma wp_tcp_connect [wp_simps]:
  "wp (tcp_connect a d) Q E N =
     (if d = 0 then E (Custom InvalidInput ''cannot set a 0 duration timeout'')
      else (\<lambda>w. wp syscall (\<lambda>_ w. Q (TcpStream a (connections w)) (w\<lparr>connections := connections w + 1\<rparr>))
              E N (w\<lparr>performed := performed w @ [Act_Connect a]\<rparr>)))"
proof -
  have "wp (\<lambda>w. (Some (Ok (TcpStream a (connections w))), w\<lparr>connections := connections w + 1\<rparr>)) Q E N
      = (\<lambda>w. Q (TcpStream a (connections w)) (w\<lparr>connections := connections w + 1\<rparr>))"
    by (simp add: fun_eq_iff wp_def)
  then show ?thesis by (simp add: tcp_connect_def wp_bind wp_perform wp_err)
qed

section \<open>Bytes on a stream\<close>

fun bytes_written :: "tcp_stream \<Rightarrow> action \<Rightarrow> u8 list" where
  "bytes_written s (Act_Write t bytes c) = (if t = s then bytes else [])"
| "bytes_written s _ = []"

fun bytes_read :: "tcp_stream \<Rightarrow> action \<Rightarrow> u8 list" where
  "bytes_read s (Act_Read t bytes) = (if t = s then bytes else [])"
| "bytes_read s _ = []"

definition written :: "tcp_stream \<Rightarrow> 'z env_scheme \<Rightarrow> u8 list" where
  "written s w = concat (map (bytes_written s) (performed w))"

definition received :: "tcp_stream \<Rightarrow> 'z env_scheme \<Rightarrow> u8 list" where
  "received s w = concat (map (bytes_read s) (performed w))"

lemma stream_update [simp]:
  "written s (w\<lparr>script := x\<rparr>) = written s w" "received s (w\<lparr>script := x\<rparr>) = received s w"
  "written s (w\<lparr>checked := c\<rparr>) = written s w" "received s (w\<lparr>checked := c\<rparr>) = received s w"
  "written s (w\<lparr>connections := n\<rparr>) = written s w" "received s (w\<lparr>connections := n\<rparr>) = received s w"
  "written s (w\<lparr>performed := performed w @ l\<rparr>) = written s w @ concat (map (bytes_written s) l)"
  "received s (w\<lparr>performed := performed w @ l\<rparr>) = received s w @ concat (map (bytes_read s) l)"
  by (simp_all add: written_def received_def)

lemma io_map_err_Ok: "io_map_err g m w = (Some (Ok x), v) \<longleftrightarrow> m w = (Some (Ok x), v)"
  by (auto simp: io_map_err_def io_match_def io_ok_def io_err_def
      split: prod.splits option.splits result.splits)

lemma io_lift_Ok: "io_lift r w = (Some (Ok x), v) \<longleftrightarrow> r = Ok x \<and> v = w"
  by (auto simp: io_lift_def)

lemma warn_Ok: "warn m w = (r, v) \<Longrightarrow> left v = left w"
  by (auto simp: warn_def perform_def left_def)

section \<open>Policies\<close>

text \<open>
  A policy names the actions a module may perform, the instant by which its last deadline check
  must have passed, and an invariant of the module's own state. \<open>safe m Q\<close>: from an environment
  that satisfies the policy, the run \<open>m\<close> performs only allowed actions and keeps the invariant,
  however it ends; it does not panic, and a value it returns satisfies \<open>Q\<close>.
\<close>

locale run_policy =
  fixes allowed :: "action \<Rightarrow> bool" and budget :: instant and state_ok :: "'z env_scheme \<Rightarrow> bool"
  assumes warnings_allowed: "allowed (Act_Warn m)"
    and state_script: "state_ok (w\<lparr>script := x\<rparr>) = state_ok w"
    and state_performed: "state_ok (w\<lparr>performed := l\<rparr>) = state_ok w"
    and state_checked: "state_ok (w\<lparr>checked := c\<rparr>) = state_ok w"
    and state_connections: "state_ok (w\<lparr>connections := n\<rparr>) = state_ok w"
begin

definition confined :: "'z env_scheme \<Rightarrow> bool" where
  "confined w \<longleftrightarrow>
     list_all allowed (performed w) \<and> (\<exists>t. checked w = Some t \<and> t < budget) \<and> state_ok w"

definition safe :: "('e, 'a, 'z) io \<Rightarrow> ('a \<Rightarrow> bool) \<Rightarrow> bool" where
  "safe m Q \<longleftrightarrow> (\<forall>w. confined w \<longrightarrow> wp m (\<lambda>x v. confined v \<and> Q x) (\<lambda>_. confined) confined w)"

lemmas state_laws = state_script state_performed state_checked state_connections

lemma confined_update:
  "confined (w\<lparr>script := x\<rparr>) = confined w" "confined (w\<lparr>connections := n\<rparr>) = confined w"
  "t < budget \<Longrightarrow> confined w \<Longrightarrow> confined (w\<lparr>checked := Some t\<rparr>)"
  "confined (w\<lparr>performed := performed w @ [a]\<rparr>) \<longleftrightarrow> confined w \<and> allowed a"
  by (auto simp: confined_def state_laws)

lemma confined_checked: "confined w \<Longrightarrow> \<exists>t. checked w = Some t \<and> t < budget"
  by (simp add: confined_def)

lemma safe_ok: "Q x \<Longrightarrow> safe (io_ok x) Q"
  by (simp add: safe_def wp_simps)

lemma safe_err: "safe (io_err e) Q"
  by (simp add: safe_def wp_simps)

lemma safe_lift: "r \<noteq> Panic \<Longrightarrow> (\<And>x. r = Ok x \<Longrightarrow> Q x) \<Longrightarrow> safe (io_lift r) Q"
  by (cases r) (simp_all add: safe_def wp_simps)

lemma safe_weaken: "safe m Q \<Longrightarrow> (\<And>x. Q x \<Longrightarrow> R x) \<Longrightarrow> safe m R"
  unfolding safe_def by (blast intro: wp_mono)

lemma safe_bind: "safe m R \<Longrightarrow> (\<And>x. R x \<Longrightarrow> safe (f x) Q) \<Longrightarrow> safe (io_bind m f) Q"
  unfolding safe_def wp_bind by (blast intro: wp_mono)

lemma safe_match:
  "safe m R \<Longrightarrow> (\<And>x. R x \<Longrightarrow> safe (f x) Q) \<Longrightarrow> (\<And>e. safe (g e) Q) \<Longrightarrow> safe (io_match m f g) Q"
  unfolding safe_def wp_match by (blast intro: wp_mono)

lemma safe_map_err: "safe m Q \<Longrightarrow> safe (io_map_err g m) Q"
  unfolding safe_def wp_map_err by (blast intro: wp_mono)

lemma safe_at: "safe m Q \<Longrightarrow> confined w \<Longrightarrow> wp m (\<lambda>x v. confined v \<and> Q x) (\<lambda>_. confined) confined w"
  by (simp add: safe_def)

text \<open>\<open>sure m Q\<close>: as \<open>safe\<close>, for a run that has no error outcome.\<close>

definition sure :: "('e, 'a, 'z) io \<Rightarrow> ('a \<Rightarrow> bool) \<Rightarrow> bool" where
  "sure m Q \<longleftrightarrow> (\<forall>w. confined w \<longrightarrow> wp m (\<lambda>x v. confined v \<and> Q x) (\<lambda>_ _. False) confined w)"

lemma sure_ok: "Q x \<Longrightarrow> sure (io_ok x) Q"
  by (simp add: sure_def wp_simps)

lemma sure_lift: "\<exists>x. r = Ok x \<and> Q x \<Longrightarrow> sure (io_lift r) Q"
  by (auto simp: sure_def wp_simps)

lemma sure_warn: "sure (warn m) (\<lambda>_. True)"
  by (auto simp: sure_def wp_simps confined_update warnings_allowed)

lemma sure_bind: "sure m R \<Longrightarrow> (\<And>x. R x \<Longrightarrow> sure (f x) Q) \<Longrightarrow> sure (io_bind m f) Q"
  unfolding sure_def wp_bind by (blast intro: wp_mono)

lemma sure_match:
  "safe m R \<Longrightarrow> (\<And>x. R x \<Longrightarrow> sure (f x) Q) \<Longrightarrow> (\<And>e. sure (g e) Q) \<Longrightarrow> sure (io_match m f g) Q"
  unfolding sure_def safe_def wp_match by (blast intro: wp_mono)

lemma sure_at: "sure m Q \<Longrightarrow> confined w \<Longrightarrow> wp m (\<lambda>x v. confined v \<and> Q x) (\<lambda>_ _. False) confined w"
  by (simp add: sure_def)

lemma safe_state: "(\<And>w. confined w \<Longrightarrow> safe (m w) Q) \<Longrightarrow> safe (\<lambda>w. m w w) Q"
  unfolding safe_def by (metis (no_types, lifting) wp_at)

lemma safe_step:
  "(\<And>w. confined w \<Longrightarrow> confined (f w) \<and> safe (m w) Q) \<Longrightarrow> safe (\<lambda>w. m w (f w)) Q"
  by (simp add: safe_def wp_def)

lemma safe_update:
  "(\<And>w. confined w \<Longrightarrow> confined (f w)) \<Longrightarrow> Q x \<Longrightarrow> safe (\<lambda>w. (Some (Ok x), f w)) Q"
  by (simp add: safe_def wp_simps)

lemma safe_syscall: "safe syscall (\<lambda>_. True)"
  by (auto simp: safe_def wp_simps confined_update split: list.split io_outcome.split)

lemma safe_now: "safe now (\<lambda>_. True)"
  by (auto simp: safe_def wp_simps confined_update split: list.split)

lemma safe_warn: "safe (warn m) (\<lambda>_. True)"
  by (auto simp: safe_def wp_simps confined_update warnings_allowed)

lemma safe_set_timeout: "safe (set_timeout d) (\<lambda>_. True)"
  unfolding set_timeout_def by (auto intro!: safe_bind safe_syscall safe_ok safe_err)

lemma safe_tcp_connect:
  "allowed (Act_Connect a) \<Longrightarrow> safe (tcp_connect a d) (\<lambda>s. stream_peer s = a)"
  by (auto simp: safe_def wp_simps confined_update split: list.split io_outcome.split)

lemma safe_tcp_read:
  "(\<And>bytes. allowed (Act_Read s bytes)) \<Longrightarrow> safe (tcp_read s n) (\<lambda>_. True)"
  by (auto simp: safe_def wp_simps confined_update split: list.split io_outcome.split)

lemma safe_tcp_write:
  assumes "\<And>n t. t < budget \<Longrightarrow> allowed (Act_Write s (take n bytes) (Some t))"
  shows "safe (tcp_write s bytes) (\<lambda>_. True)"
  using assms
  by (auto simp: safe_def wp_simps confined_update Let_def dest!: confined_checked
      split: list.split io_outcome.split)

lemma safe_udp_send:
  assumes "\<And>t. t < budget \<Longrightarrow> allowed (Act_Udp a bytes (Some t))"
  shows "safe (udp_send a bytes) (\<lambda>_. True)"
  using assms
  by (auto simp: safe_def wp_simps confined_update dest!: confined_checked
      split: list.split io_outcome.split)

lemma safe_udp_recv: "safe (udp_recv n) (\<lambda>_. True)"
  by (auto simp: safe_def wp_simps confined_update split: list.split io_outcome.split)

end

end
