(* ===== verification/Transport.thy ===== *)
theory Transport
  imports Runtime
begin

text \<open>
  Deadlines and DNS-over-TCP framing (\<^verbatim>\<open>src/transport.rs\<close>). The buffer of \<^verbatim>\<open>read_exact\<close> is the
  list of bytes read so far, so its \<^verbatim>\<open>bool\<close> result becomes an option: \<open>None\<close> for the clean end of
  file, \<open>Some bytes\<close> for a filled buffer. Every iteration of the read and write loops consumes
  observations, which is their termination measure.

  Proved here: a positive budget is what a passed check leaves; the stop flag wins over expiry;
  a frame that is read is exactly the bytes received, whatever the chunks and transient errors; a
  written frame reaches the stream once, in order, and a failed write is a prefix of it; every
  write follows a deadline check that passed; nothing here panics; once the clock is past the
  deadline a read returns.
\<close>

section \<open>Deadlines\<close>

definition REQUEST_TIMEOUT :: duration where [simp]: "REQUEST_TIMEOUT = 5000000000"
definition IO_POLL :: duration where [simp]: "IO_POLL = 100000000"

datatype transport = Udp | Tcp

datatype deadline = Deadline (expiry: instant)

definition deadline_after :: "duration \<Rightarrow> ('e, deadline, 'z) io" where
  "deadline_after d = io_bind now (\<lambda>t. io_ok (Deadline (t + d)))"

definition capped :: "deadline \<Rightarrow> duration \<Rightarrow> ('e, deadline, 'z) io" where
  "capped dl d = io_bind now (\<lambda>t. io_ok (Deadline (min (expiry dl) (t + d))))"

definition remaining :: "deadline \<Rightarrow> (io_error, duration, 'z) io" where
  "remaining dl =
     io_bind observe (\<lambda>ob.
       if ob_stop ob then io_err Cancelled
       else if ob_now ob < expiry dl then
         (\<lambda>w. (Some (Ok (expiry dl - ob_now ob)), w\<lparr>checked := Some (ob_now ob)\<rparr>))
       else io_err (Custom TimedOut ''exchange deadline expired''))"

definition transient :: "io_error \<Rightarrow> bool" where
  "transient e \<longleftrightarrow> error_kind e = WouldBlock \<or> error_kind e = TimedOut \<or> error_kind e = Interrupted"

lemma remaining_left: "remaining dl w = (Some r, v) \<Longrightarrow> left v < left w"
  by (auto simp: remaining_def io_bind_def observe_def io_err_def left_def
      split: list.splits if_splits)

section \<open>Frames\<close>

function read_loop ::
  "tcp_stream \<Rightarrow> nat \<Rightarrow> u8 list \<Rightarrow> deadline \<Rightarrow> 'z env_scheme
   \<Rightarrow> (io_error, u8 list option) result option \<times> 'z env_scheme" where
  "read_loop stream n bytes dl w =
     (if length bytes < n then
        io_bind (remaining dl) (\<lambda>left_over.
        io_bind (set_timeout (min left_over IO_POLL)) (\<lambda>_.
        io_match (tcp_read stream (n - length bytes))
          (\<lambda>chunk v.
             if chunk = [] \<and> bytes = [] then io_ok None v
             else if chunk = [] then io_err (Custom UnexpectedEof ''partial TCP frame'') v
             else read_loop stream n (bytes @ chunk) dl v)
          (\<lambda>e v.
             if transient e then read_loop stream n bytes dl v
             else io_err e v))) w
      else io_bind (remaining dl) (\<lambda>_. io_ok (Some bytes)) w)"
  by pat_completeness auto
termination
  by (relation "measure (\<lambda>(stream, n, bytes, dl, w). left w)")
    (auto dest!: remaining_left set_timeout_left tcp_read_left)

definition read_exact :: "tcp_stream \<Rightarrow> nat \<Rightarrow> deadline \<Rightarrow> (io_error, u8 list option, 'z) io" where
  "read_exact stream n dl = read_loop stream n [] dl"

definition read_frame :: "tcp_stream \<Rightarrow> deadline \<Rightarrow> (io_error, u8 list option, 'z) io" where
  "read_frame stream dl =
     io_bind (read_exact stream 2 dl) (\<lambda>prefix.
       case prefix of
         None \<Rightarrow> io_ok None
       | Some bytes \<Rightarrow>
           let len = unat (u16_from_be_bytes (bytes ! 0) (bytes ! 1)) in
           if len < HEADER_LENGTH
           then io_err (Custom InvalidData ''TCP DNS frame shorter than header'')
           else
             io_bind (read_exact stream len dl) (\<lambda>body.
               case body of
                 None \<Rightarrow> io_err (Custom UnexpectedEof ''missing TCP frame body'')
               | Some wire \<Rightarrow> io_ok (Some wire)))"

function write_loop ::
  "tcp_stream \<Rightarrow> u8 list \<Rightarrow> nat \<Rightarrow> deadline \<Rightarrow> 'z env_scheme
   \<Rightarrow> (io_error, unit) result option \<times> 'z env_scheme" where
  "write_loop stream frame offset dl w =
     (if offset < length frame then
        io_bind (remaining dl) (\<lambda>left_over.
        io_bind (set_timeout (min left_over IO_POLL)) (\<lambda>_.
        io_match (tcp_write stream (drop offset frame))
          (\<lambda>count v.
             if count = 0 then io_err (Custom WriteZero ''TCP write returned zero'') v
             else write_loop stream frame (offset + count) dl v)
          (\<lambda>e v.
             if transient e then write_loop stream frame offset dl v
             else io_err e v))) w
      else io_bind (remaining dl) (\<lambda>_. io_ok ()) w)"
  by pat_completeness auto
termination
  by (relation "measure (\<lambda>(stream, frame, offset, dl, w). left w)")
    (auto dest!: remaining_left set_timeout_left tcp_write_left)

definition frame_bytes :: "u8 list \<Rightarrow> u8 list" where
  "frame_bytes wire = u16_to_be_bytes (of_nat (length wire)) @ wire"

definition write_frame :: "tcp_stream \<Rightarrow> u8 list \<Rightarrow> deadline \<Rightarrow> (io_error, unit, 'z) io" where
  "write_frame stream wire dl =
     (if HEADER_LENGTH \<le> length wire \<and> length wire \<le> MAX_MESSAGE_LENGTH
      then write_loop stream (frame_bytes wire) 0 dl
      else io_err (Custom InvalidInput ''invalid TCP DNS frame length''))"

declare read_loop.simps [simp del] write_loop.simps [simp del]
section \<open>Deadline checks\<close>

lemma wp_remaining [wp_simps]:
  "wp (remaining dl) Q E N = (\<lambda>w.
     case script w of [] \<Rightarrow> N w
     | ob # rest \<Rightarrow>
         if ob_stop ob then E Cancelled (w\<lparr>script := rest\<rparr>)
         else if ob_now ob < expiry dl then
           Q (expiry dl - ob_now ob) (w\<lparr>script := rest, checked := Some (ob_now ob)\<rparr>)
         else E (Custom TimedOut ''exchange deadline expired'') (w\<lparr>script := rest\<rparr>))"
  by (auto simp: remaining_def wp_simps fun_eq_iff split: list.split)

lemma wp_read_loop:
  "wp (read_loop s n bytes dl) Q E N =
     (if length bytes < n then
        wp (remaining dl) (\<lambda>d. wp (set_timeout (min d IO_POLL)) (\<lambda>_.
          wp (tcp_read s (n - length bytes))
            (\<lambda>chunk. if chunk = [] \<and> bytes = [] then Q None
                     else if chunk = [] then E (Custom UnexpectedEof ''partial TCP frame'')
                     else wp (read_loop s n (bytes @ chunk) dl) Q E N)
            (\<lambda>e. if transient e then wp (read_loop s n bytes dl) Q E N else E e) N) E N) E N
      else wp (remaining dl) (\<lambda>_. Q (Some bytes)) E N)"
proof
  fix w
  show "wp (read_loop s n bytes dl) Q E N w = (if length bytes < n then
        wp (remaining dl) (\<lambda>d. wp (set_timeout (min d IO_POLL)) (\<lambda>_.
          wp (tcp_read s (n - length bytes))
            (\<lambda>chunk. if chunk = [] \<and> bytes = [] then Q None
                     else if chunk = [] then E (Custom UnexpectedEof ''partial TCP frame'')
                     else wp (read_loop s n (bytes @ chunk) dl) Q E N)
            (\<lambda>e. if transient e then wp (read_loop s n bytes dl) Q E N else E e) N) E N) E N
      else wp (remaining dl) (\<lambda>_. Q (Some bytes)) E N) w"
    by (subst wp_at [where m = "read_loop s n bytes dl", OF read_loop.simps])
      (simp only: wp_if wp_bind wp_match wp_ok wp_err if_distribR)
qed

lemma wp_write_loop:
  "wp (write_loop s frame offset dl) Q E N =
     (if offset < length frame then
        wp (remaining dl) (\<lambda>d. wp (set_timeout (min d IO_POLL)) (\<lambda>_.
          wp (tcp_write s (drop offset frame))
            (\<lambda>count. if count = 0 then E (Custom WriteZero ''TCP write returned zero'')
                     else wp (write_loop s frame (offset + count) dl) Q E N)
            (\<lambda>e. if transient e then wp (write_loop s frame offset dl) Q E N else E e) N) E N) E N
      else wp (remaining dl) (\<lambda>_. Q ()) E N)"
proof
  fix w
  show "wp (write_loop s frame offset dl) Q E N w = (if offset < length frame then
        wp (remaining dl) (\<lambda>d. wp (set_timeout (min d IO_POLL)) (\<lambda>_.
          wp (tcp_write s (drop offset frame))
            (\<lambda>count. if count = 0 then E (Custom WriteZero ''TCP write returned zero'')
                     else wp (write_loop s frame (offset + count) dl) Q E N)
            (\<lambda>e. if transient e then wp (write_loop s frame offset dl) Q E N else E e) N) E N) E N
      else wp (remaining dl) (\<lambda>_. Q ()) E N) w"
    by (subst wp_at [where m = "write_loop s frame offset dl", OF write_loop.simps])
      (simp only: wp_if wp_bind wp_match wp_ok wp_err if_distribR)
qed

section \<open>Reading a frame\<close>

text \<open>The latest deadline check of an environment passed before the deadline.\<close>

definition in_budget :: "deadline \<Rightarrow> 'z env_scheme \<Rightarrow> bool" where
  "in_budget dl w \<longleftrightarrow> (\<exists>t. checked w = Some t \<and> t < expiry dl)"

lemma in_budget_update [simp]:
  "in_budget dl (w\<lparr>script := x\<rparr>) = in_budget dl w"
  "in_budget dl (w\<lparr>performed := l\<rparr>) = in_budget dl w"
  "in_budget dl (w\<lparr>connections := n\<rparr>) = in_budget dl w"
  "in_budget dl (w\<lparr>checked := Some t\<rparr>) \<longleftrightarrow> t < expiry dl"
  by (auto simp: in_budget_def)

lemma min_poll_pos [simp]: "t < expiry dl \<Longrightarrow> min (expiry dl - t) IO_POLL \<noteq> 0"
  by (simp add: min_def)

text \<open>Environments that differ only in what has been observed.\<close>

definition quiet :: "deadline \<Rightarrow> 'z env_scheme \<Rightarrow> 'z env_scheme \<Rightarrow> bool" where
  "quiet dl w v \<longleftrightarrow> performed v = performed w \<and> connections v = connections w
     \<and> env.more v = env.more w \<and> (checked v = checked w \<or> in_budget dl v)"

lemma quiet_update [simp]:
  "quiet dl w (v\<lparr>script := x\<rparr>) = quiet dl w v" "quiet dl w w"
  "t < expiry dl \<Longrightarrow> quiet dl w (w\<lparr>checked := Some t\<rparr>)"
  "t < expiry dl \<Longrightarrow> quiet dl w (w\<lparr>script := x, checked := Some t\<rparr>)"
  by (simp_all add: quiet_def)

lemma quiet_streams: "quiet dl w v \<Longrightarrow> received s v = received s w \<and> written s v = written s w"
  by (simp add: quiet_def received_def written_def)

text \<open>One round of a polling loop: check the deadline, set the timeout, make the call.\<close>

lemma wp_poll:
  assumes "\<And>v. quiet dl w v \<Longrightarrow> N v" and "\<And>e v. quiet dl w v \<Longrightarrow> E e v"
    and "\<And>b v. quiet dl w v \<Longrightarrow> left v < left w \<Longrightarrow> in_budget dl v \<Longrightarrow> A b v"
    and "\<And>k v. quiet dl w v \<Longrightarrow> left v < left w \<Longrightarrow> in_budget dl v \<Longrightarrow> B (Os k) v"
  shows "wp (remaining dl) (\<lambda>d. wp (set_timeout (min d IO_POLL)) (\<lambda>_. wp syscall A B N) E N) E N w"
  using assms by (auto simp: wp_simps left_def split: list.split io_outcome.split)

lemma wp_remaining_quiet:
  assumes "\<And>v. quiet dl w v \<Longrightarrow> N v" and "\<And>e v. quiet dl w v \<Longrightarrow> E e v"
    and "\<And>d v. quiet dl w v \<Longrightarrow> left v < left w \<Longrightarrow> in_budget dl v \<Longrightarrow> 0 < d \<Longrightarrow> Q d v"
  shows "wp (remaining dl) Q E N w"
  using assms by (auto simp: wp_simps left_def split: list.split)

lemma read_loop_spec:
  fixes w :: "'z env_scheme"
  shows "length bytes \<le> n \<Longrightarrow>
     wp (read_loop s n bytes dl)
       (\<lambda>r v. case r of
          None \<Rightarrow> bytes = [] \<and> received s v = received s w
        | Some out \<Rightarrow> length out = n \<and> (\<exists>new. out = bytes @ new \<and> received s v = received s w @ new)
                      \<and> in_budget dl v)
       (\<lambda>e v. \<exists>new. received s v = received s w @ new \<and> length bytes + length new \<le> n)
       (\<lambda>v. \<exists>new. received s v = received s w @ new \<and> length bytes + length new \<le> n) w"
proof (induction w arbitrary: bytes rule: measure_induct_rule [where f = left])
  case (less w)
  let ?Q = "\<lambda>bytes w r (v :: 'z env_scheme). case r of
          None \<Rightarrow> bytes = [] \<and> received s v = received s w
        | Some out \<Rightarrow> length out = n \<and> (\<exists>new. out = bytes @ new \<and> received s v = received s w @ new)
                      \<and> in_budget dl v"
  let ?N = "\<lambda>bytes w (v :: 'z env_scheme). \<exists>new. received s v = received s w @ new \<and> length bytes + length new \<le> n"
  have more: "wp (read_loop s n (bytes @ chunk) dl) (?Q bytes w) (\<lambda>_. ?N bytes w) (?N bytes w) u"
    if "left u < left w" "received s u = received s w @ chunk" "length (bytes @ chunk) \<le> n"
      "chunk = [] \<or> (bytes @ chunk) \<noteq> []" for chunk u
    by (rule wp_mono [OF less.IH [OF that(1,3)]])
      (use that(2-4) in \<open>auto split: option.splits\<close>)
  have again: "wp (read_loop s n bytes dl) (?Q bytes w) (\<lambda>_. ?N bytes w) (?N bytes w) u"
    if "left u < left w" "quiet dl w u" for u
    using more [of u "[]"] that less.prems quiet_streams [OF that(2), of s] by simp
  show ?case
  proof (cases "length bytes < n")
    case True
    show ?thesis
      by (subst wp_read_loop, subst if_P [OF True], subst wp_tcp_read, rule wp_poll) (use True in \<open>auto intro!: more again simp: quiet_streams\<close>)
  next
    case False
    show ?thesis
      by (subst wp_read_loop, subst if_not_P [OF False], rule wp_remaining_quiet) (use False less.prems in \<open>auto simp: quiet_streams\<close>)
  qed
qed

lemma read_exact_spec:
  fixes w :: "'z env_scheme"
  shows "wp (read_exact s n dl)
       (\<lambda>r v. case r of
          None \<Rightarrow> received s v = received s w
        | Some out \<Rightarrow> length out = n \<and> received s v = received s w @ out \<and> in_budget dl v)
       (\<lambda>e v. True) (\<lambda>v. True) w"
  unfolding read_exact_def
  by (rule wp_mono [OF read_loop_spec]) (auto split: option.splits)

lemma take_two: "length bytes = 2 \<Longrightarrow> bytes = [bytes ! 0, bytes ! 1]"
  by (auto simp: numeral_2_eq_2 length_Suc_conv)

text \<open>What reading a frame means for the bytes of the stream.\<close>

fun frame_read ::
  "tcp_stream \<Rightarrow> deadline \<Rightarrow> 'z env_scheme \<Rightarrow> u8 list option \<Rightarrow> 'z env_scheme \<Rightarrow> bool" where
  "frame_read s dl w None v \<longleftrightarrow> received s v = received s w"
| "frame_read s dl w (Some wire) v \<longleftrightarrow>
     received s v = received s w @ frame_bytes wire \<and> 12 \<le> length wire \<and> length wire \<le> 65535
     \<and> in_budget dl v"

lemma read_frame_spec:
  fixes w :: "'z env_scheme"
  shows "wp (read_frame s dl) (frame_read s dl w) (\<lambda>_ _. True) (\<lambda>_. True) w"
proof -
  have body: "wp (read_exact s (unat x) dl) (\<lambda>body. wp (case body of
        None \<Rightarrow> io_err (Custom UnexpectedEof ''missing TCP frame body'')
      | Some wire \<Rightarrow> io_ok (Some wire)) (frame_read s dl w) (\<lambda>_ _. True) (\<lambda>_. True))
      (\<lambda>_ _. True) (\<lambda>_. True) u"
    if "received s u = received s w @ u16_to_be_bytes x" "12 \<le> unat x" for x and u :: "'z env_scheme"
    by (rule wp_mono [OF read_exact_spec])
      (use that unat_u16_bound [of x] in \<open>auto simp: wp_simps frame_bytes_def split: option.splits\<close>)
  have "u16_to_be_bytes (u16_from_be_bytes (bytes ! 0) (bytes ! Suc 0)) = bytes"
    if "length bytes = 2" for bytes
    using take_two [OF that] by (simp add: u16_to_from_be)
  then show ?thesis
    unfolding read_frame_def wp_bind
    by (intro wp_mono [OF read_exact_spec])
      (auto simp: wp_simps Let_def intro!: body split: option.splits)
qed

section \<open>Writing a frame\<close>

lemma write_loop_spec:
  fixes w :: "'z env_scheme"
  shows "offset \<le> length frame \<Longrightarrow>
     wp (write_loop s frame offset dl)
       (\<lambda>_ v. written s v = written s w @ drop offset frame \<and> in_budget dl v)
       (\<lambda>e v. \<exists>k. written s v = written s w @ take k (drop offset frame))
       (\<lambda>v. \<exists>k. written s v = written s w @ take k (drop offset frame)) w"
proof (induction w arbitrary: offset rule: measure_induct_rule [where f = left])
  case (less w)
  let ?Q = "\<lambda>v :: 'z env_scheme. written s v = written s w @ drop offset frame \<and> in_budget dl v"
  let ?N = "\<lambda>v :: 'z env_scheme. \<exists>k. written s v = written s w @ take k (drop offset frame)"
  have more: "wp (write_loop s frame (offset + n) dl) (\<lambda>_. ?Q) (\<lambda>_. ?N) ?N u"
    if "left u < left w" "written s u = written s w @ take n (drop offset frame)"
      "offset + n \<le> length frame" for n u
  proof -
    have "take n (drop offset frame) @ drop (offset + n) frame = drop offset frame"
      by (metis append_take_drop_id drop_drop add.commute)
    moreover have "take n (drop offset frame) @ take k (drop (offset + n) frame)
        = take (n + k) (drop offset frame)" for k
      unfolding take_add drop_drop by (simp add: add.commute)
    ultimately show ?thesis
      by (intro wp_mono [OF less.IH [OF that(1,3)]]) (auto simp: that(2))
  qed
  have again: "wp (write_loop s frame offset dl) (\<lambda>_. ?Q) (\<lambda>_. ?N) ?N u"
    if "left u < left w" "quiet dl w u" for u
    using more [of u 0] that less.prems quiet_streams [OF that(2), of s] by simp
  have keep: "?N v" if "quiet dl w v" for v
    using quiet_streams [OF that, of s] by (intro exI [where x = 0]) simp
  show ?case
  proof (cases "offset < length frame")
    case True
    show ?thesis
      by (subst wp_write_loop, subst if_P [OF True], subst wp_tcp_write, rule wp_poll)
        (use True in \<open>auto intro!: more again keep simp: quiet_streams Let_def\<close>)
  next
    case False
    show ?thesis
      by (subst wp_write_loop, subst if_not_P [OF False], rule wp_remaining_quiet)
        (use False less.prems keep in \<open>auto simp: quiet_streams\<close>)
  qed
qed

lemma write_frame_spec:
  fixes w :: "'z env_scheme"
  shows "wp (write_frame s wire dl)
       (\<lambda>_ v. written s v = written s w @ frame_bytes wire \<and> in_budget dl v
              \<and> 12 \<le> length wire \<and> length wire \<le> 65535)
       (\<lambda>e v. \<exists>k. written s v = written s w @ take k (frame_bytes wire))
       (\<lambda>v. \<exists>k. written s v = written s w @ take k (frame_bytes wire)) w"
proof (cases "12 \<le> length wire \<and> length wire \<le> 65535")
  case True
  then show ?thesis
    unfolding write_frame_def using write_loop_spec [of 0 "frame_bytes wire" s dl w]
    by (auto elim!: wp_mono)
next
  case False
  then show ?thesis
    unfolding write_frame_def by (auto simp: wp_simps intro!: exI [where x = 0])
qed

section \<open>Frames are self-delimiting\<close>

lemma frame_bytes_length: "length wire \<le> 65535 \<Longrightarrow> length (frame_bytes wire) = length wire + 2"
  by (simp add: frame_bytes_def)

text \<open>A stream of frames determines the messages: neither frame can be a prefix of the other.\<close>

lemma frame_bytes_unique:
  assumes "length a \<le> 65535" and "length b \<le> 65535" and "frame_bytes a @ x = frame_bytes b @ y"
  shows "a = b" and "x = y"
proof -
  have "u16_to_be_bytes (of_nat (length a)) = u16_to_be_bytes (of_nat (length b))"
    using assms(3) by (simp add: frame_bytes_def)
  then have "(of_nat (length a) :: u16) = of_nat (length b)"
    by (metis u16_from_to_be)
  then have "unat (of_nat (length a) :: u16) = unat (of_nat (length b) :: u16)" by simp
  then have "length a = length b" using assms(1,2) by simp
  then show "a = b" "x = y" using assms(3) by (simp_all add: frame_bytes_def)
qed

section \<open>Progress\<close>

text \<open>
  Once every clock reading is past the deadline, or every reading sees the stop flag, a read
  returns after one more deadline check.
\<close>

definition over :: "deadline \<Rightarrow> 'z env_scheme \<Rightarrow> bool" where
  "over dl w \<longleftrightarrow> script w \<noteq> [] \<and> (ob_stop (hd (script w)) \<or> expiry dl \<le> ob_now (hd (script w)))"

lemma remaining_over: "over dl w \<Longrightarrow> \<exists>e v. remaining dl w = (Some (Err e), v)"
  by (cases "script w")
    (auto simp: over_def remaining_def io_bind_def observe_def io_err_def)

lemma read_frame_over: "over dl w \<Longrightarrow> \<exists>e v. read_frame s dl w = (Some (Err e), v)"
  using remaining_over [of dl w]
  by (auto simp: read_frame_def read_exact_def io_bind_def read_loop.simps [of s 2 "[]" dl w])

lemma write_frame_over: "over dl w \<Longrightarrow> \<exists>e v. write_frame s wire dl w = (Some (Err e), v)"
  using remaining_over [of dl w]
  by (auto simp: write_frame_def io_bind_def io_err_def write_loop.simps [of s _ 0 dl w] frame_bytes_def)

section \<open>Actions of framing\<close>

context run_policy
begin

lemma quiet_confined:
  assumes "quiet dl w v" and "expiry dl \<le> budget" and "confined w"
  shows "confined v"
proof -
  have "v = w\<lparr>script := script v, checked := checked v\<rparr>"
    using assms(1) by (intro env.equality) (simp_all add: quiet_def)
  then have "state_ok v = state_ok w" by (metis state_script state_checked)
  then show ?thesis using assms by (auto simp: quiet_def confined_def in_budget_def)
qed

lemma safe_remaining: "expiry dl \<le> budget \<Longrightarrow> safe (remaining dl) (\<lambda>d. 0 < d)"
  unfolding safe_def by (intro allI impI wp_remaining_quiet) (auto intro: quiet_confined)

lemma safe_capped: "safe (capped dl d) (\<lambda>x. expiry x \<le> expiry dl)"
  unfolding capped_def by (auto intro!: safe_bind safe_now safe_ok)

lemma wp_read_loop_confined:
  "expiry dl \<le> budget \<Longrightarrow> confined w \<Longrightarrow> (\<And>bytes. allowed (Act_Read s bytes)) \<Longrightarrow>
     wp (read_loop s n bytes dl) (\<lambda>_. confined) (\<lambda>_. confined) confined w"
proof (induction w arbitrary: bytes rule: measure_induct_rule [where f = left])
  case (less w)
  note confined = quiet_confined [OF _ less.prems(1,2)]
  show ?case
  proof (cases "length bytes < n")
    case True
    show ?thesis
      by (subst wp_read_loop, subst if_P [OF True], subst wp_tcp_read, rule wp_poll)
        (auto intro: confined intro!: less.IH [OF _ less.prems(1)] simp: confined_update less.prems(3))
  next
    case False
    show ?thesis
      by (subst wp_read_loop, subst if_not_P [OF False], rule wp_remaining_quiet) (auto intro: confined)
  qed
qed

lemma safe_read_frame:
  assumes "expiry dl \<le> budget" and "\<And>bytes. allowed (Act_Read s bytes)"
  shows "safe (read_frame s dl) (\<lambda>_. True)"
proof -
  have "safe (read_exact s n dl) (\<lambda>_. True)" for n
    unfolding safe_def read_exact_def using wp_read_loop_confined [OF assms(1) _ assms(2)]
    by (auto elim: wp_mono)
  then show ?thesis
    unfolding read_frame_def Let_def
    by (auto intro!: safe_bind [where R = "\<lambda>_. True"] safe_ok safe_err split: option.split)
qed

lemma wp_write_loop_confined:
  "expiry dl \<le> budget \<Longrightarrow> confined w \<Longrightarrow>
     (\<And>i n t. t < budget \<Longrightarrow> allowed (Act_Write s (take n (drop i frame)) (Some t))) \<Longrightarrow>
     wp (write_loop s frame offset dl) (\<lambda>_. confined) (\<lambda>_. confined) confined w"
proof (induction w arbitrary: offset rule: measure_induct_rule [where f = left])
  case (less w)
  have log: "allowed (Act_Write s (take n (drop i frame)) (checked v))" if "confined v" for v n i
    using that less.prems(3) confined_checked by fastforce
  have log0: "allowed (Act_Write s [] (checked v))" if "confined v" for v
    using log [OF that, of 0 0] by simp
  note confined = quiet_confined [OF _ less.prems(1,2)]
  show ?case
  proof (cases "offset < length frame")
    case True
    show ?thesis
      by (subst wp_write_loop, subst if_P [OF True], subst wp_tcp_write, rule wp_poll)
        (use True in \<open>auto intro: confined intro!: less.IH [OF _ less.prems(1)] less.prems(3) log log0
          simp: Let_def confined_update\<close>)
  next
    case False
    show ?thesis
      by (subst wp_write_loop, subst if_not_P [OF False], rule wp_remaining_quiet) (auto intro: confined)
  qed
qed

lemma safe_write_frame:
  assumes "expiry dl \<le> budget"
    and "\<And>i n t. t < budget \<Longrightarrow> allowed (Act_Write s (take n (drop i (frame_bytes wire))) (Some t))"
  shows "safe (write_frame s wire dl) (\<lambda>_. True)"
  using wp_write_loop_confined [OF assms(1) _ assms(2)]
  by (auto simp: safe_def write_frame_def wp_simps elim: wp_mono)

end

section \<open>Properties of framing\<close>

text \<open>C12: reading a frame never panics, and a message it returns is exactly what the stream
  delivered in that call: the two length bytes and then the message, whatever the sizes of the
  chunks and however many calls were interrupted or timed out. A clean end of file delivers no
  byte.\<close>

theorem read_frame_exact:
  assumes "read_frame s dl w = (r, v)"
  shows "r \<noteq> Some Panic
    \<and> (r = Some (Ok None) \<longrightarrow> received s v = received s w)
    \<and> (\<forall>wire. r = Some (Ok (Some wire)) \<longrightarrow> received s v = received s w @ frame_bytes wire
         \<and> 12 \<le> length wire \<and> length wire \<le> 65535)"
  using wp_returned [OF read_frame_spec assms] by fastforce

text \<open>C13: writing a frame never panics; when it succeeds the stream has got the length bytes and
  the message once and in order, and when it fails or is still waiting it has got a prefix of them.\<close>

theorem write_frame_exact:
  assumes "write_frame s wire dl w = (r, v)"
  shows "r \<noteq> Some Panic
    \<and> (r = Some (Ok ()) \<longrightarrow> written s v = written s w @ frame_bytes wire)
    \<and> (\<exists>k. written s v = written s w @ take k (frame_bytes wire))"
proof (cases r)
  case None
  then show ?thesis using wp_returned(4) [OF write_frame_spec assms] by auto
next
  case (Some x)
  then show ?thesis
    using wp_returned [OF write_frame_spec assms] by (cases x) (auto intro: exI [where x = "length (frame_bytes wire)"])
qed

text \<open>Framing transfers messages: when one side has written a frame on a fresh stream and the
  other side has read a frame from the bytes it delivers, they are the same message.\<close>

theorem frame_transfer:
  assumes "write_frame s wire dl w = (Some (Ok ()), v)" and "written s w = []"
    and "read_frame s' dl' w' = (Some (Ok (Some wire')), v')" and "received s' w' = []"
    and "written s v = received s' v' @ rest"
  shows "wire' = wire"
proof -
  note wr = wp_returned(2) [OF write_frame_spec assms(1) refl]
  note rd = wp_returned(2) [OF read_frame_spec assms(3) refl]
  have "frame_bytes wire @ [] = frame_bytes wire' @ rest" using wr rd assms(2,4,5) by simp
  from frame_bytes_unique(1) [OF _ _ this] wr rd show ?thesis by simp
qed

text \<open>A sample stream: a frame of twelve bytes that arrives in two chunks, and leaves in two.\<close>

definition seen :: "u8 list \<Rightarrow> observation" where
  "seen bytes = \<lparr>ob_now = 0, ob_stop = False, ob_io = Io_Ok bytes\<rparr>"

definition sample_stream :: tcp_stream where
  "sample_stream = TcpStream (SocketV4 1 53) 0"

definition sample_body :: "u8 list" where
  "sample_body = [1, 2, 3, 4, 5, 6, 7, 8, 9, 10, 11, 12]"

definition sample_env :: "observation list \<Rightarrow> env" where
  "sample_env obs = \<lparr>script = obs, checked = None, connections = 0, performed = []\<rparr>"

definition sample_reads :: "observation list" where
  "sample_reads = [seen [], seen [], seen [0, 12], seen [], seen [], seen [], seen sample_body, seen []]"

definition sample_writes :: "observation list" where
  "sample_writes = [seen [], seen [], seen [0, 0, 0, 0, 0, 0], seen [], seen [], seen [0, 0, 0, 0, 0, 0, 0, 0], seen []]"

lemmas run_simps = io_bind_def io_match_def io_map_err_def io_lift_def io_ok_def io_err_def observe_def
  perform_def warn_def syscall_def now_def set_timeout_def udp_send_def udp_recv_def remaining_def
  tcp_read_def tcp_write_def

lemma sample_read:
  "\<exists>v. read_frame sample_stream (Deadline 9) (sample_env sample_reads) = (Some (Ok (Some sample_body)), v)
     \<and> received sample_stream v = [0, 12] @ sample_body"
  by (simp add: read_frame_def read_exact_def read_loop.simps run_simps sample_env_def sample_reads_def
      seen_def sample_body_def u16_from_be_bytes_def received_def sample_stream_def)

lemma sample_write:
  "\<exists>v. write_frame sample_stream sample_body (Deadline 9) (sample_env sample_writes) = (Some (Ok ()), v)
     \<and> written sample_stream v = [0, 12] @ sample_body"
  by (simp add: write_frame_def write_loop.simps run_simps sample_env_def sample_writes_def
      seen_def sample_body_def frame_bytes_def u16_to_be_bytes_def written_def sample_stream_def)

theorem read_frame_exact_witness:
  "received sample_stream (snd (read_frame sample_stream (Deadline 9) (sample_env sample_reads)))
     = received sample_stream (sample_env sample_reads) @ frame_bytes sample_body"
proof -
  obtain v where "read_frame sample_stream (Deadline 9) (sample_env sample_reads) = (Some (Ok (Some sample_body)), v)"
    using sample_read by blast
  from read_frame_exact [OF this] this show ?thesis by simp
qed

theorem write_frame_exact_witness:
  "written sample_stream (snd (write_frame sample_stream sample_body (Deadline 9) (sample_env sample_writes)))
     = written sample_stream (sample_env sample_writes) @ frame_bytes sample_body"
proof -
  obtain v where "write_frame sample_stream sample_body (Deadline 9) (sample_env sample_writes) = (Some (Ok ()), v)"
    using sample_write by blast
  from write_frame_exact [OF this] this show ?thesis by simp
qed

theorem frame_transfer_witness:
  "case fst (read_frame sample_stream (Deadline 9) (sample_env sample_reads)) of
     Some (Ok (Some wire)) \<Rightarrow> wire = sample_body | _ \<Rightarrow> False"
proof -
  obtain x u where r: "read_frame sample_stream (Deadline 9) (sample_env sample_reads) = (Some (Ok (Some x)), u)"
    "received sample_stream u = [0, 12] @ sample_body"
    using sample_read by blast
  obtain v where w: "write_frame sample_stream sample_body (Deadline 9) (sample_env sample_writes) = (Some (Ok ()), v)"
    "written sample_stream v = [0, 12] @ sample_body"
    using sample_write by blast
  have "x = sample_body"
    by (rule frame_transfer [OF w(1) _ r(1), where rest = "[]"])
      (simp add: written_def sample_env_def, simp add: received_def sample_env_def, simp add: w r)
  then show ?thesis using r(1) by simp
qed

end
