(* ===== verification/Upstream.thy ===== *)
theory Upstream
  imports Transport
begin

text \<open>
  Exchanges with resolvers (\<^verbatim>\<open>src/upstream.rs\<close>): transaction ids, the UDP exchange with its fallback
  to TCP, the TCP exchange with its one cached stream, the BADCOOKIE retry and failover inside one
  group. The environment is extended by the forwarder's cached connection. A log message is an
  action, so what is logged is part of the trace. The two entropy bytes of a transaction id are
  read as on a little-endian target.

  Proved here: every connection, datagram, read and write is to an endpoint of the selected group
  and what is sent follows a deadline check that passed within the request budget; no run panics; an answer is
  returned only if it is correlated to a message made from the client's query; the cache is
  empty after a failed exchange and holds the endpoint of the exchange after a successful one; at
  most 64 invalid datagrams are read in one exchange. \<open>Failover\<close> and \<open>Delivery\<close> add what the log of
  a run shows when it returns.
\<close>

definition ATTEMPT_TIMEOUT :: duration where [simp]: "ATTEMPT_TIMEOUT = 2000000000"
definition MAX_INVALID_RESPONSES :: nat where [simp]: "MAX_INVALID_RESPONSES = 64"
definition TCP_REUSE_IDLE :: duration where [simp]: "TCP_REUSE_IDLE = 2000000000"

section \<open>State\<close>

record cached_connection =
  cc_address :: upstream_address
  cc_stream :: tcp_stream
  cc_last_used :: instant

record forwarder = env +
  tcp_cache :: "cached_connection option"

record exchange =
  ex_sent :: sent_query
  ex_deadline :: deadline

type_synonym ('e, 'a) fwd = "forwarder \<Rightarrow> ('e, 'a) result option \<times> forwarder"

section \<open>Errors\<close>

definition forward_error_from :: "io_error \<Rightarrow> forward_error" where
  "forward_error_from e =
     (if e = Cancelled then Fwd_Cancelled
      else if error_kind e = TimedOut \<or> error_kind e = WouldBlock then Fwd_Timeout
      else Fwd_Io e)"

definition retries_in_group :: "response_code \<Rightarrow> bool" where
  "retries_in_group code \<longleftrightarrow> code = ServerFailure \<or> code = Refused"

definition from_rcode :: "response_code \<Rightarrow> forward_error" where
  "from_rcode code =
     (if code = Refused then Fwd_Refused else Fwd_ServerFailure)"

definition forward_remaining :: "deadline \<Rightarrow> (forward_error, duration) fwd" where
  "forward_remaining dl = io_map_err forward_error_from (remaining dl)"

section \<open>Transaction ids and the cache\<close>

definition next_transaction_id :: "(forward_error, transaction_id) fwd" where
  "next_transaction_id =
     io_map_err forward_error_from
       (io_bind syscall (\<lambda>bytes.
          if length bytes < 2 then io_err (Os UnexpectedEof)
          else io_ok (TransactionId (u16_from_be_bytes (bytes ! 1) (bytes ! 0)))))"

definition expire_idle :: "(forward_error, unit) fwd" where
  "expire_idle w =
     (case tcp_cache w of
        None \<Rightarrow> io_ok ()
      | Some connection \<Rightarrow>
          io_bind now (\<lambda>t v.
            (Some (Ok ()),
             if t - cc_last_used connection \<ge> TCP_REUSE_IDLE then v\<lparr>tcp_cache := None\<rparr> else v))) w"

section \<open>TCP exchange\<close>

definition send_over_tcp :: "exchange \<Rightarrow> tcp_stream \<Rightarrow> (forward_error, response) fwd" where
  "send_over_tcp ex stream =
     io_bind (io_map_err forward_error_from
         (write_frame stream (sent_wire (ex_sent ex)) (ex_deadline ex))) (\<lambda>_.
     io_bind (io_map_err forward_error_from (read_frame stream (ex_deadline ex))) (\<lambda>frame.
       case frame of
         None \<Rightarrow> io_err Fwd_InvalidResponse
       | Some bytes \<Rightarrow>
           io_bind (forward_remaining (ex_deadline ex)) (\<lambda>_.
           io_bind (io_lift (map_err Fwd_Parse (packet_parse bytes))) (\<lambda>response.
           io_bind (io_lift (validate_response (ex_sent ex) response)) (\<lambda>valid.
             case valid of None \<Rightarrow> io_err Fwd_InvalidResponse | Some r \<Rightarrow> io_ok r)))))"

definition fresh_stream :: "upstream_address \<Rightarrow> exchange \<Rightarrow> (forward_error, tcp_stream) fwd" where
  "fresh_stream address ex =
     io_bind (forward_remaining (ex_deadline ex)) (\<lambda>d.
       io_map_err forward_error_from (tcp_connect (upstream_socket address) d))"

definition set_nodelay :: "(forward_error, unit) fwd" where
  "set_nodelay = io_map_err forward_error_from (io_bind syscall (\<lambda>_. io_ok ()))"

definition cache_stream ::
  "upstream_address \<Rightarrow> tcp_stream \<Rightarrow> response \<Rightarrow> (forward_error, response) fwd" where
  "cache_stream address stream response =
     io_bind now (\<lambda>t w.
       (Some (Ok response),
        w\<lparr>tcp_cache := Some \<lparr>cc_address = address, cc_stream = stream, cc_last_used = t\<rparr>\<rparr>))"

definition tcp_exchange :: "upstream_address \<Rightarrow> exchange \<Rightarrow> (forward_error, response) fwd" where
  "tcp_exchange address ex =
     io_bind expire_idle (\<lambda>_ w.
       let cached = (case tcp_cache w of
                       Some c \<Rightarrow> if cc_address c = address then Some c else None
                     | None \<Rightarrow> None);
           w = w\<lparr>tcp_cache := None\<rparr> in
       io_bind (case cached of Some c \<Rightarrow> io_ok (cc_stream c) | None \<Rightarrow> fresh_stream address ex) (\<lambda>stream.
       io_bind set_nodelay (\<lambda>_.
       io_match (send_over_tcp ex stream)
         (\<lambda>r. cache_stream address stream r)
         (\<lambda>e. if cached \<noteq> None then
                 io_bind (fresh_stream address ex) (\<lambda>stream.
                 io_bind set_nodelay (\<lambda>_.
                 io_bind (send_over_tcp ex stream) (\<lambda>r. cache_stream address stream r)))
               else io_err e))) w)"

section \<open>UDP exchange\<close>

definition check_datagram :: "sent_query \<Rightarrow> u8 list \<Rightarrow> ('e, response option) result" where
  "check_datagram sent bytes =
     (case packet_parse bytes of
        Ok p \<Rightarrow> validate_response sent p
      | Err _ \<Rightarrow> Ok None
      | Panic \<Rightarrow> Panic)"

function udp_loop ::
  "upstream_address \<Rightarrow> exchange \<Rightarrow> nat \<Rightarrow> forwarder
   \<Rightarrow> (forward_error, response) result option \<times> forwarder" where
  "udp_loop address ex invalid w =
     io_bind (forward_remaining (ex_deadline ex)) (\<lambda>d.
     io_bind (io_map_err forward_error_from (set_timeout (min d IO_POLL))) (\<lambda>_.
     io_match (udp_recv MAX_MESSAGE_LENGTH)
       (\<lambda>bytes.
          io_bind (forward_remaining (ex_deadline ex)) (\<lambda>_.
          io_bind (io_lift (sent_matches_truncated (ex_sent ex) bytes)) (\<lambda>tc v.
            if tc then tcp_exchange address ex v
            else
              io_bind (io_lift (check_datagram (ex_sent ex) bytes)) (\<lambda>valid v.
                case valid of
                  Some r \<Rightarrow> io_ok r v
                | None \<Rightarrow>
                    if invalid + 1 = MAX_INVALID_RESPONSES then io_err Fwd_InvalidResponse v
                    else
                      io_bind (if invalid + 1 = 1 then warn (Warn_Ignored address) else io_ok ())
                        (\<lambda>_ v. udp_loop address ex (invalid + 1) v) v) v)))
       (\<lambda>e v. if transient e then udp_loop address ex invalid v
              else io_err (forward_error_from e) v))) w"
  by pat_completeness auto
termination
proof (relation "measure (\<lambda>(address, ex, invalid, w). left w)", goal_cases)
  case 1
  show ?case by simp
next
  case 2
  then show ?case
    by (auto simp: forward_remaining_def io_map_err_Ok io_lift_Ok io_ok_eq split: if_splits
        dest!: remaining_left set_timeout_left udp_recv_left warn_Ok)
next
  case 3
  then show ?case
    by (auto simp: forward_remaining_def io_map_err_Ok
        dest!: remaining_left set_timeout_left udp_recv_left)
qed

declare udp_loop.simps [simp del]

definition udp_exchange :: "upstream_address \<Rightarrow> exchange \<Rightarrow> (forward_error, response) fwd" where
  "udp_exchange address ex =
     io_bind (io_map_err forward_error_from syscall) (\<lambda>_.
     io_bind (io_map_err forward_error_from syscall) (\<lambda>_.
     io_bind (forward_remaining (ex_deadline ex)) (\<lambda>d.
     io_bind (io_map_err forward_error_from (set_timeout d)) (\<lambda>_.
     io_bind (io_map_err forward_error_from
         (udp_send (upstream_socket address) (sent_wire (ex_sent ex)))) (\<lambda>_.
       udp_loop address ex 0)))))"

section \<open>Cookie retry\<close>

definition retry_exchange :: "exchange \<Rightarrow> u8 list \<Rightarrow> (forward_error, exchange) fwd" where
  "retry_exchange ex wire =
     io_bind (forward_remaining (ex_deadline ex)) (\<lambda>_.
     io_bind next_transaction_id (\<lambda>ident.
     io_bind (io_lift (map_err Fwd_Parse (sent_retry wire ident))) (\<lambda>sent.
       io_ok \<lparr>ex_sent = sent, ex_deadline = ex_deadline ex\<rparr>)))"

definition run_exchange ::
  "transport \<Rightarrow> upstream_address \<Rightarrow> exchange \<Rightarrow> (forward_error, response) fwd" where
  "run_exchange tr address ex =
     (case tr of Tcp \<Rightarrow> tcp_exchange address ex | Udp \<Rightarrow> udp_exchange address ex)"

definition retry_over_tcp ::
  "upstream_address \<Rightarrow> exchange \<Rightarrow> u8 list \<Rightarrow> (forward_error, response) fwd" where
  "retry_over_tcp address ex wire =
     io_bind (retry_exchange ex wire) (\<lambda>again. tcp_exchange address again)"

text \<open>The arm of a rewritten query: retry it, and once more over TCP if BADCOOKIE persists on UDP.\<close>

definition retry_rewritten ::
  "upstream_address \<Rightarrow> exchange \<Rightarrow> transport \<Rightarrow> (forward_error, response) fwd" where
  "retry_rewritten address again tr =
     io_bind (run_exchange tr address again) (\<lambda>retried.
       if response_rcode retried \<noteq> BadCookie \<or> tr = Tcp then io_ok retried
       else
         io_bind (io_lift (sent_cookie_retry (ex_sent again) retried)) (\<lambda>decision.
           case decision of
             Retry_Rewrite wire \<Rightarrow> retry_over_tcp address again wire
           | Retry_Current \<Rightarrow> retry_over_tcp address again (sent_wire (ex_sent again))
           | Retry_Tcp \<Rightarrow> retry_over_tcp address again (sent_wire (ex_sent again))
           | Retry_Absent \<Rightarrow> io_err Fwd_InvalidResponse
           | Retry_Discard \<Rightarrow> io_err Fwd_InvalidResponse))"

definition finish_badcookie ::
  "upstream_address \<Rightarrow> exchange \<Rightarrow> response \<Rightarrow> transport \<Rightarrow> (forward_error, response) fwd" where
  "finish_badcookie address ex response tr =
     io_bind (io_lift (sent_cookie_retry (ex_sent ex) response)) (\<lambda>decision.
       case decision of
         Retry_Absent \<Rightarrow> io_ok response
       | Retry_Discard \<Rightarrow> io_err Fwd_InvalidResponse
       | Retry_Current \<Rightarrow>
           if tr = Tcp then io_ok response
           else retry_over_tcp address ex (sent_wire (ex_sent ex))
       | Retry_Tcp \<Rightarrow>
           if tr = Tcp then io_ok response
           else retry_over_tcp address ex (sent_wire (ex_sent ex))
       | Retry_Rewrite wire \<Rightarrow>
           io_bind (retry_exchange ex wire) (\<lambda>again. retry_rewritten address again tr))"

section \<open>Failover inside a group\<close>

text \<open>One attempt: a fresh id, the exchange, and the cookie retry when BADCOOKIE came back.\<close>

definition attempt ::
  "transport \<Rightarrow> upstream_address \<Rightarrow> exchange \<Rightarrow> (forward_error, response) fwd" where
  "attempt tr address ex =
     io_bind (run_exchange tr address ex) (\<lambda>response.
       if response_rcode response = BadCookie then finish_badcookie address ex response tr
       else io_ok response)"

primrec forward_loop ::
  "query \<Rightarrow> transport \<Rightarrow> deadline \<Rightarrow> upstream_address list \<Rightarrow> forward_error \<Rightarrow> response option
   \<Rightarrow> (forward_error, response) fwd" where
  "forward_loop q tr dl [] last_error relayed =
     io_bind (forward_remaining dl) (\<lambda>_.
       case relayed of None \<Rightarrow> io_err last_error | Some r \<Rightarrow> io_ok r)"
| "forward_loop q tr dl (address # rest) last_error relayed =
     io_bind (capped dl ATTEMPT_TIMEOUT) (\<lambda>attempt_dl.
     io_bind (forward_remaining attempt_dl) (\<lambda>_.
     io_bind next_transaction_id (\<lambda>ident.
     io_bind (io_lift (query_sent q ident)) (\<lambda>sent.
     io_match (attempt tr address \<lparr>ex_sent = sent, ex_deadline = attempt_dl\<rparr>)
       (\<lambda>response.
          io_bind (forward_remaining dl) (\<lambda>_.
            let code = response_rcode response in
            if code = BadCookie \<or> \<not> retries_in_group code then io_ok response
            else
              io_bind (warn (Warn_Upstream address (from_rcode code))) (\<lambda>_.
                forward_loop q tr dl rest (from_rcode code) (Some response))))
       (\<lambda>e.
          if e = Fwd_Cancelled then io_err Fwd_Cancelled
          else
            io_bind (warn (Warn_Upstream address e)) (\<lambda>_.
              forward_loop q tr dl rest e relayed))))))"

definition forward ::
  "query \<Rightarrow> upstream_group \<Rightarrow> transport \<Rightarrow> deadline \<Rightarrow> (forward_error, response) fwd" where
  "forward q upstreams tr dl = forward_loop q tr dl (group_servers upstreams) Fwd_Timeout None"

section \<open>What is sent for a query\<close>

lemma matches_truncated_total [panic_free]: "matches_truncated p w ident \<noteq> Panic"
  using question_reader.total [of w 12] header_parse_panic_free [of w]
  by (auto simp: matches_truncated_def split: result.splits prod.splits)

text \<open>The response \<open>r\<close> is a complete answer to exactly the bytes of \<open>s\<close>.\<close>

definition answers_to :: "sent_query \<Rightarrow> response \<Rightarrow> bool" where
  "answers_to s r \<longleftrightarrow> parsed (response_packet r) \<and> forwardable (sq_packet s)
     \<and> accepted s (response_packet r)"

text \<open>The messages that may go out for a client query: the query itself, or a cookie retry.\<close>

inductive sent_for :: "query \<Rightarrow> sent_query \<Rightarrow> bool" where
  sent_first: "sent_for q (sent_as q ident)"
| sent_rewritten: "sent_for q s \<Longrightarrow> answers_to s r
    \<Longrightarrow> cookie_decision (sq_packet s) (response_packet r) = Retry_Rewrite w \<Longrightarrow> sent_retry w ident = Ok s' \<Longrightarrow> sent_for q s'"
| sent_again: "sent_for q s \<Longrightarrow> answers_to s r \<Longrightarrow> packet_cookie (sq_packet s) \<noteq> None
    \<Longrightarrow> sent_retry (sent_wire s) ident = Ok s' \<Longrightarrow> sent_for q s'"

lemma sent_retry_parsed: "sent_retry w ident = Ok s \<Longrightarrow> parsed (sq_packet s)"
  by (auto simp: sent_retry_def outcome packet_parse_Ok dest: parse_parsed)

lemma sent_for_parsed: "sent_for q s \<Longrightarrow> client_query q \<Longrightarrow> parsed (sq_packet s)"
  by (induction rule: sent_for.induct) (auto dest: sent_retry_parsed sent_as_ok simp: sent_ok_def)

definition answers_query :: "query \<Rightarrow> response \<Rightarrow> bool" where
  "answers_query q r \<longleftrightarrow> (\<exists>s. sent_for q s \<and> answers_to s r)"

lemma answers_toI:
  assumes "packet_parse bytes = Ok p" and "validate_response s p = Ok (Some r)"
    and "parsed (sq_packet s)"
  shows "answers_to s r"
proof -
  have p: "parsed p" using assms(1) by (simp add: packet_parse_Ok parse_parsed)
  from validate_response_Some [OF assms(2) parsed_wf [OF assms(3)] parsed_wf [OF p]] p
  show ?thesis by (simp add: answers_to_def)
qed

lemma validate_parsed_total:
  "packet_parse bytes = Ok p \<Longrightarrow> parsed (sq_packet s) \<Longrightarrow> validate_response s p \<noteq> Panic"
  by (simp add: packet_parse_Ok validate_response_total parsed_wf parse_parsed)

section \<open>The policy of the forwarder\<close>

text \<open>The cached stream belongs to the endpoint it is cached for.\<close>

definition cache_ok :: "forwarder \<Rightarrow> bool" where
  "cache_ok w \<longleftrightarrow>
     (\<forall>c. tcp_cache w = Some c \<longrightarrow> stream_peer (cc_stream c) = upstream_socket (cc_address c))"

definition timely :: "instant \<Rightarrow> instant option \<Rightarrow> bool" where
  "timely D c \<longleftrightarrow> (\<exists>t. c = Some t \<and> t < D)"

text \<open>
  What may happen on the network for query \<open>q\<close> with endpoints \<open>A\<close> before instant \<open>D\<close>: connections,
  datagrams and pieces of frames, each to an endpoint of \<open>A\<close> and carrying a message sent for \<open>q\<close>, and
  reads from streams to such an endpoint.
\<close>

fun endpoint_action :: "query \<Rightarrow> socket_addr set \<Rightarrow> instant \<Rightarrow> action \<Rightarrow> bool" where
  "endpoint_action q A D (Act_Connect a) \<longleftrightarrow> a \<in> A"
| "endpoint_action q A D (Act_Udp a bytes c) \<longleftrightarrow>
     a \<in> A \<and> timely D c \<and> (\<exists>s. sent_for q s \<and> bytes = sent_wire s)"
| "endpoint_action q A D (Act_Write stream bytes c) \<longleftrightarrow>
     stream_peer stream \<in> A \<and> timely D c
     \<and> (\<exists>s i n. sent_for q s \<and> bytes = take n (drop i (frame_bytes (sent_wire s))))"
| "endpoint_action q A D (Act_Read stream bytes) \<longleftrightarrow> stream_peer stream \<in> A"
| "endpoint_action q A D (Act_Warn m) \<longleftrightarrow> True"

definition exchange_ok :: "query \<Rightarrow> instant \<Rightarrow> exchange \<Rightarrow> bool" where
  "exchange_ok q D ex \<longleftrightarrow> client_query q \<and> sent_for q (ex_sent ex) \<and> expiry (ex_deadline ex) \<le> D"

lemma exchange_ok_parsed: "exchange_ok q D ex \<Longrightarrow> parsed (sq_packet (ex_sent ex))"
  by (auto simp: exchange_ok_def intro: sent_for_parsed)

text \<open>
  Runs that follow this policy, for any invariant of the forwarder's state: the parts of an
  exchange that do not touch the cache are proved once and used for both invariants below.
\<close>

locale exchange_policy = run_policy "endpoint_action q A D" D state_ok
  for q A D and state_ok :: "forwarder \<Rightarrow> bool"
begin

lemma forward_remaining_safe: "expiry dl \<le> D \<Longrightarrow> safe (forward_remaining dl) (\<lambda>d. 0 < d)"
  unfolding forward_remaining_def by (intro safe_map_err safe_remaining)

lemma set_nodelay_safe: "safe set_nodelay (\<lambda>_. True)"
  unfolding set_nodelay_def
  by (intro safe_map_err safe_bind [OF safe_syscall] safe_ok TrueI)

lemma next_transaction_id_safe: "safe next_transaction_id (\<lambda>_. True)"
  unfolding next_transaction_id_def
  by (intro safe_map_err safe_bind [OF safe_syscall]) (auto intro: safe_ok safe_err)

lemma fresh_stream_safe:
  "exchange_ok q D ex \<Longrightarrow> upstream_socket address \<in> A \<Longrightarrow>
     safe (fresh_stream address ex) (\<lambda>s. stream_peer s = upstream_socket address)"
  unfolding fresh_stream_def exchange_ok_def
  by (intro safe_bind [OF forward_remaining_safe] safe_map_err safe_tcp_connect) auto

lemma send_over_tcp_safe:
  assumes ex: "exchange_ok q D ex" and "stream_peer stream \<in> A"
  shows "safe (send_over_tcp ex stream) (answers_to (ex_sent ex))"
proof -
  note p = exchange_ok_parsed [OF ex]
  have dl: "expiry (ex_deadline ex) \<le> D" using ex by (simp add: exchange_ok_def)
  have w: "safe (write_frame stream (sent_wire (ex_sent ex)) (ex_deadline ex)) (\<lambda>_. True)"
    by (rule safe_write_frame [OF dl]) (use ex assms(2) in \<open>auto simp: exchange_ok_def timely_def\<close>)
  have r: "endpoint_action q A D (Act_Read stream bytes)" for bytes using assms(2) by simp
  have "safe (io_bind (io_lift (map_err Fwd_Parse (packet_parse bytes))) (\<lambda>response.
      io_bind (io_lift (validate_response (ex_sent ex) response)) (\<lambda>valid.
        case valid of None \<Rightarrow> io_err Fwd_InvalidResponse | Some r \<Rightarrow> io_ok r))) (answers_to (ex_sent ex))" for bytes
    by (rule safe_bind [OF safe_lift [where Q = "\<lambda>p. packet_parse bytes = Ok p"]])
      (auto simp: outcome packet_parse_panic_free
        intro!: safe_bind [OF safe_lift [where Q = "\<lambda>v. \<forall>r. v = Some r \<longrightarrow> answers_to (ex_sent ex) r"]]
          safe_ok safe_err dest: validate_parsed_total [OF _ p] answers_toI [OF _ _ p]
        split: option.split)
  then show ?thesis
    unfolding send_over_tcp_def
    by (auto intro!: safe_bind [OF safe_map_err [OF w]]
        safe_bind [OF safe_map_err [OF safe_read_frame [OF dl r]]]
        safe_bind [OF forward_remaining_safe [OF dl]] safe_err split: option.split)
qed

end

interpretation fwd: exchange_policy q A D cache_ok for q A D
  by unfold_locales (simp_all add: cache_ok_def)

interpretation bare: exchange_policy q A D "\<lambda>w. tcp_cache w = None" for q A D
  by unfold_locales simp_all

lemma confined_cache:
  "fwd.confined q A D w \<Longrightarrow>
     (\<And>x. c = Some x \<Longrightarrow> stream_peer (cc_stream x) = upstream_socket (cc_address x)) \<Longrightarrow>
     fwd.confined q A D (w\<lparr>tcp_cache := c\<rparr>)"
  by (auto simp: fwd.confined_def cache_ok_def)

lemma expire_idle_safe: "fwd.safe q A D expire_idle (\<lambda>_. True)"
  unfolding expire_idle_def [abs_def]
  by (rule fwd.safe_state)
    (auto intro!: fwd.safe_ok fwd.safe_bind [OF fwd.safe_now] fwd.safe_update confined_cache
      split: option.split)

lemma cache_stream_safe:
  "stream_peer stream = upstream_socket address \<Longrightarrow> answers_to s r \<Longrightarrow>
     fwd.safe q A D (cache_stream address stream r) (answers_to s)"
  unfolding cache_stream_def
  by (rule fwd.safe_bind [OF fwd.safe_now]) (auto intro!: fwd.safe_update confined_cache)

lemma tcp_exchange_safe:
  assumes ex: "exchange_ok q D ex" and a: "upstream_socket address \<in> A"
  shows "fwd.safe q A D (tcp_exchange address ex) (answers_to (ex_sent ex))"
proof -
  have send: "fwd.safe q A D (send_over_tcp ex stream) (answers_to (ex_sent ex))"
    if "stream_peer stream = upstream_socket address" for stream
    using fwd.send_over_tcp_safe [OF ex] that a by simp
  have fresh: "fwd.safe q A D (io_bind (fresh_stream address ex) (\<lambda>stream.
      io_bind set_nodelay (\<lambda>_. io_bind (send_over_tcp ex stream) (\<lambda>r. cache_stream address stream r))))
      (answers_to (ex_sent ex))"
    by (intro fwd.safe_bind [OF fwd.fresh_stream_safe [OF ex a]] fwd.safe_bind [OF fwd.set_nodelay_safe]
        fwd.safe_bind [OF send] cache_stream_safe)
  have body: "fwd.safe q A D (io_bind m (\<lambda>stream. io_bind set_nodelay (\<lambda>_.
      io_match (send_over_tcp ex stream) (\<lambda>r. cache_stream address stream r)
        (\<lambda>e. if reused then io_bind (fresh_stream address ex) (\<lambda>stream.
               io_bind set_nodelay (\<lambda>_. io_bind (send_over_tcp ex stream) (\<lambda>r. cache_stream address stream r)))
             else io_err e)))) (answers_to (ex_sent ex))"
    if "fwd.safe q A D m (\<lambda>s. stream_peer s = upstream_socket address)" for m reused
    by (intro fwd.safe_bind [OF that] fwd.safe_bind [OF fwd.set_nodelay_safe] fwd.safe_match [OF send]
        cache_stream_safe) (auto intro: fresh fwd.safe_err)
  show ?thesis
    unfolding tcp_exchange_def Let_def
    by (rule fwd.safe_bind [OF expire_idle_safe], rule fwd.safe_step, rule conjI, rule confined_cache,
        assumption, simp, rule body)
      (auto intro!: fwd.safe_ok fwd.fresh_stream_safe [OF ex a]
        simp: fwd.confined_def cache_ok_def split: option.split)
qed

section \<open>The UDP loop\<close>

lemma wp_forward_remaining:
  "wp (forward_remaining dl) Q E N = wp (remaining dl) Q (\<lambda>e. E (forward_error_from e)) N"
  by (simp add: forward_remaining_def wp_map_err)

lemma wp_udp_loop:
  "wp (udp_loop address ex invalid) Q E N w =
     wp (remaining (ex_deadline ex)) (\<lambda>d. wp (set_timeout (min d IO_POLL)) (\<lambda>_.
       wp syscall
         (\<lambda>bytes. wp (remaining (ex_deadline ex)) (\<lambda>_.
            wp (io_lift (sent_matches_truncated (ex_sent ex) (take MAX_MESSAGE_LENGTH bytes))) (\<lambda>tc.
              if tc then wp (tcp_exchange address ex) Q E N
              else wp (io_lift (check_datagram (ex_sent ex) (take MAX_MESSAGE_LENGTH bytes))) (\<lambda>valid.
                case valid of
                  Some r \<Rightarrow> Q r
                | None \<Rightarrow>
                    if invalid + 1 = MAX_INVALID_RESPONSES then E Fwd_InvalidResponse
                    else wp (if invalid + 1 = 1 then warn (Warn_Ignored address) else io_ok ())
                      (\<lambda>_. wp (udp_loop address ex (invalid + 1)) Q E N) E N) E N) E N) (\<lambda>e. E (forward_error_from e)) N)
         (\<lambda>e. if transient e then wp (udp_loop address ex invalid) Q E N
               else E (forward_error_from e)) N)
       (\<lambda>e. E (forward_error_from e)) N) (\<lambda>e. E (forward_error_from e)) N w"
proof -
  have c: "wp (\<lambda>v. case x of None \<Rightarrow> f v | Some r \<Rightarrow> g r v) Q E N
      = (case x of None \<Rightarrow> wp f Q E N | Some r \<Rightarrow> wp (g r) Q E N)" for x f g
    by (cases x) simp_all
  show ?thesis
    by (subst udp_loop.simps [abs_def])
      (simp only: wp_if wp_bind wp_match wp_ok wp_err wp_map_err wp_udp_recv c
        wp_forward_remaining)
qed

lemma check_datagram_total: "parsed (sq_packet s) \<Longrightarrow> check_datagram s bytes \<noteq> Panic"
  using packet_parse_panic_free [of bytes] validate_parsed_total [of bytes _ s]
  by (auto simp: check_datagram_def split: result.splits)

lemma check_datagram_answers:
  "check_datagram s bytes = Ok (Some r) \<Longrightarrow> parsed (sq_packet s) \<Longrightarrow> answers_to s r"
  by (auto simp: check_datagram_def intro: answers_toI split: result.splits)

lemma udp_loop_safe:
  assumes ex: "exchange_ok q D ex" and a: "upstream_socket address \<in> A"
  shows "fwd.confined q A D w \<Longrightarrow>
    wp (udp_loop address ex invalid) (\<lambda>r v. fwd.confined q A D v \<and> answers_to (ex_sent ex) r)
      (\<lambda>_. fwd.confined q A D) (fwd.confined q A D) w"
proof (induction w arbitrary: invalid rule: measure_induct_rule [where f = left])
  case (less w)
  let ?C = "fwd.confined q A D"
  let ?Q = "\<lambda>r v. ?C v \<and> answers_to (ex_sent ex) r"
  have dl: "expiry (ex_deadline ex) \<le> D" using ex by (simp add: exchange_ok_def)
  note p = exchange_ok_parsed [OF ex]
  note conf = fwd.quiet_confined [OF _ dl]
  have tcp: "wp (tcp_exchange address ex) ?Q (\<lambda>_. ?C) ?C u" if "?C u" for u
    by (rule fwd.safe_at [OF tcp_exchange_safe [OF ex a] that])
  let ?S = "\<lambda>bytes. wp (io_lift (sent_matches_truncated (ex_sent ex) bytes)) (\<lambda>tc.
      if tc then wp (tcp_exchange address ex) ?Q (\<lambda>_. ?C) ?C
      else wp (io_lift (check_datagram (ex_sent ex) bytes)) (\<lambda>valid.
        case valid of
          Some r \<Rightarrow> ?Q r
        | None \<Rightarrow>
            if invalid + 1 = MAX_INVALID_RESPONSES then ?C
            else wp (if invalid + 1 = 1 then warn (Warn_Ignored address) else io_ok ())
              (\<lambda>_. wp (udp_loop address ex (invalid + 1)) ?Q (\<lambda>_. ?C) ?C) (\<lambda>_ :: forward_error. ?C) ?C)
        (\<lambda>_ :: forward_error. ?C) ?C) (\<lambda>_ :: forward_error. ?C) ?C"
  have step: "?S bytes v" if "?C v" "left v < left w" for bytes v
    using that tcp
    by (auto simp: wp_simps sent_matches_truncated_def fwd.confined_update matches_truncated_total
        check_datagram_total [OF p] intro!: less.IH dest: check_datagram_answers [OF _ p]
        split: result.splits option.splits)
  have datagram: "wp (remaining (ex_deadline ex)) (\<lambda>_. ?S bytes) (\<lambda>_. ?C) ?C u"
    if "?C u" "left u < left w" for bytes u
    by (rule wp_remaining_quiet, erule conf [OF _ that(1)], erule conf [OF _ that(1)],
        rule step, erule conf [OF _ that(1)]) (use that(2) in simp)
  show ?case
    by (subst wp_udp_loop, rule wp_poll, erule conf [OF _ less.prems], erule conf [OF _ less.prems],
        rule datagram, erule conf [OF _ less.prems], assumption)
      (auto intro!: less.IH intro: conf [OF _ less.prems])
qed

section \<open>Exchanges, retries and failover\<close>

lemma udp_exchange_safe:
  assumes ex: "exchange_ok q D ex" and a: "upstream_socket address \<in> A"
  shows "fwd.safe q A D (udp_exchange address ex) (answers_to (ex_sent ex))"
proof -
  have dl: "expiry (ex_deadline ex) \<le> D" and s: "sent_for q (ex_sent ex)"
    using ex by (auto simp: exchange_ok_def)
  have loop: "fwd.safe q A D (udp_loop address ex 0) (answers_to (ex_sent ex))"
    unfolding fwd.safe_def using udp_loop_safe [OF ex a] by blast
  have send: "fwd.safe q A D (udp_send (upstream_socket address) (sent_wire (ex_sent ex))) (\<lambda>_. True)"
    by (rule fwd.safe_udp_send) (use s a in \<open>auto simp: timely_def\<close>)
  show ?thesis
    unfolding udp_exchange_def
    by (intro fwd.safe_bind [OF fwd.safe_map_err [OF fwd.safe_syscall]]
        fwd.safe_bind [OF fwd.forward_remaining_safe [OF dl]]
        fwd.safe_bind [OF fwd.safe_map_err [OF fwd.safe_set_timeout]]
        fwd.safe_bind [OF fwd.safe_map_err [OF send]] loop)
qed

lemma run_exchange_safe:
  "exchange_ok q D ex \<Longrightarrow> upstream_socket address \<in> A \<Longrightarrow>
     fwd.safe q A D (run_exchange tr address ex) (answers_to (ex_sent ex))"
  by (cases tr) (simp_all add: run_exchange_def tcp_exchange_safe udp_exchange_safe)

lemma sent_retry_total: "2 \<le> length w \<Longrightarrow> sent_retry w ident \<noteq> Panic"
  by (auto simp: sent_retry_def rbind_eq_Panic copy_at_eq_Panic packet_parse_panic_free)

text \<open>A retry is built from the bytes of a sent query or from their rewriting.\<close>

definition retry_wire :: "sent_query \<Rightarrow> response \<Rightarrow> u8 list \<Rightarrow> bool" where
  "retry_wire s r w \<longleftrightarrow> 2 \<le> length w
     \<and> (cookie_decision (sq_packet s) (response_packet r) = Retry_Rewrite w
        \<or> (packet_cookie (sq_packet s) \<noteq> None \<and> w = sent_wire s))"

lemma retry_exchange_safe:
  assumes ex: "exchange_ok q D ex" and r: "answers_to (ex_sent ex) r" "retry_wire (ex_sent ex) r w"
  shows "fwd.safe q A D (retry_exchange ex w) (exchange_ok q D)"
proof -
  have dl: "expiry (ex_deadline ex) \<le> D" and s: "sent_for q (ex_sent ex)" "client_query q"
    using ex by (auto simp: exchange_ok_def)
  have len: "2 \<le> length w" using r(2) by (simp add: retry_wire_def)
  have "sent_for q s'" if "sent_retry w ident = Ok s'" for ident s'
    using r that s(1) by (auto simp: retry_wire_def intro: sent_rewritten sent_again)
  then have "fwd.safe q A D (io_bind (io_lift (map_err Fwd_Parse (sent_retry w ident)))
      (\<lambda>sent. io_ok \<lparr>ex_sent = sent, ex_deadline = ex_deadline ex\<rparr>)) (exchange_ok q D)" for ident
    by (intro fwd.safe_bind [OF fwd.safe_lift [where Q = "sent_for q"]])
      (auto simp: outcome sent_retry_total [OF len] exchange_ok_def dl s intro!: fwd.safe_ok)
  then show ?thesis
    unfolding retry_exchange_def
    by (intro fwd.safe_bind [OF fwd.forward_remaining_safe [OF dl]] fwd.safe_bind [OF fwd.next_transaction_id_safe])
qed

lemma retry_over_tcp_safe:
  assumes "exchange_ok q D ex" and "answers_to (ex_sent ex) r" "retry_wire (ex_sent ex) r w"
    and a: "upstream_socket address \<in> A"
  shows "fwd.safe q A D (retry_over_tcp address ex w) (answers_query q)"
  unfolding retry_over_tcp_def
proof (rule fwd.safe_bind [OF retry_exchange_safe [OF assms(1-3)]])
  fix x assume x: "exchange_ok q D x"
  show "fwd.safe q A D (tcp_exchange address x) (answers_query q)"
    by (rule fwd.safe_weaken [OF tcp_exchange_safe [OF x a]])
      (use x in \<open>auto simp: answers_query_def exchange_ok_def\<close>)
qed

lemma sent_cookie_retry_eq:
  "parsed (sq_packet s) \<Longrightarrow> answers_to s r \<Longrightarrow>
     sent_cookie_retry s r = Ok (cookie_decision (sq_packet s) (response_packet r))"
  by (simp add: sent_cookie_retry_def retry_eq answers_to_def parsed_wf packet_wf_cookie)

lemma parsed_length: "parsed p \<Longrightarrow> 2 \<le> length (pk_wire p)"
  using parsed_wf by (fastforce simp: packet_wf_def)

lemma retry_wires:
  assumes "parsed (sq_packet s)"
  shows "cookie_decision (sq_packet s) (response_packet r) = Retry_Rewrite w \<Longrightarrow> retry_wire s r w"
    and "cookie_decision (sq_packet s) (response_packet r) = Retry_Current \<Longrightarrow> retry_wire s r (sent_wire s)"
    and "cookie_decision (sq_packet s) (response_packet r) = Retry_Tcp \<Longrightarrow> retry_wire s r (sent_wire s)"
  using cookie_decision_rewrite_length [OF _ packet_wf_cookie [OF parsed_wf [OF assms]]]
    cookie_decision_cookie [of "sq_packet s" "response_packet r"] parsed_length [OF assms]
  by (auto simp: retry_wire_def sent_wire_def)

lemma second_retry_safe:
  assumes ex: "exchange_ok q D ex" and a: "upstream_socket address \<in> A"
    and r: "answers_to (ex_sent ex) r"
  shows "fwd.safe q A D
    (case cookie_decision (sq_packet (ex_sent ex)) (response_packet r) of
       Retry_Rewrite wire \<Rightarrow> retry_over_tcp address ex wire
     | Retry_Current \<Rightarrow> retry_over_tcp address ex (sent_wire (ex_sent ex))
     | Retry_Tcp \<Rightarrow> retry_over_tcp address ex (sent_wire (ex_sent ex))
     | Retry_Absent \<Rightarrow> io_err Fwd_InvalidResponse
     | Retry_Discard \<Rightarrow> io_err Fwd_InvalidResponse) (answers_query q)"
  using retry_wires [OF exchange_ok_parsed [OF ex], of r] retry_over_tcp_safe [OF ex r _ a]
  by (cases "cookie_decision (sq_packet (ex_sent ex)) (response_packet r)")
    (simp_all add: fwd.safe_err)

lemma answers_query_here: "exchange_ok q D ex \<Longrightarrow> answers_to (ex_sent ex) r \<Longrightarrow> answers_query q r"
  by (auto simp: answers_query_def exchange_ok_def)

lemma retry_rewritten_safe:
  assumes ex: "exchange_ok q D ex" and a: "upstream_socket address \<in> A"
  shows "fwd.safe q A D (retry_rewritten address ex tr) (answers_query q)"
  unfolding retry_rewritten_def
  by (rule fwd.safe_bind [OF run_exchange_safe [OF ex a]])
    (use second_retry_safe [OF ex a] in \<open>auto intro!: fwd.safe_ok answers_query_here [OF ex]
      simp: sent_cookie_retry_eq [OF exchange_ok_parsed [OF ex]]\<close>)

lemma finish_badcookie_safe:
  assumes ex: "exchange_ok q D ex" and a: "upstream_socket address \<in> A"
    and r: "answers_to (ex_sent ex) r"
  shows "fwd.safe q A D (finish_badcookie address ex r tr) (answers_query q)"
proof -
  let ?d = "cookie_decision (sq_packet (ex_sent ex)) (response_packet r)"
  note w = retry_wires [OF exchange_ok_parsed [OF ex], of r]
  have "fwd.safe q A D (io_bind (retry_exchange ex x) (\<lambda>again. retry_rewritten address again tr))
      (answers_query q)" if "?d = Retry_Rewrite x" for x
    by (rule fwd.safe_bind [OF retry_exchange_safe [OF ex r w(1) [OF that]] retry_rewritten_safe [OF _ a]])
  then show ?thesis
    using answers_query_here [OF ex r] retry_over_tcp_safe [OF ex r _ a] w
    unfolding finish_badcookie_def sent_cookie_retry_eq [OF exchange_ok_parsed [OF ex] r] io_bind_lift
    by (cases ?d) (auto intro: fwd.safe_ok fwd.safe_err)
qed

lemma attempt_safe:
  assumes ex: "exchange_ok q D ex" and a: "upstream_socket address \<in> A"
  shows "fwd.safe q A D (attempt tr address ex) (answers_query q)"
  unfolding attempt_def
  by (rule fwd.safe_bind [OF run_exchange_safe [OF ex a]])
    (auto intro: finish_badcookie_safe [OF ex a] fwd.safe_ok answers_query_here [OF ex])

lemma forward_loop_safe:
  assumes q: "client_query q" and dl: "expiry dl \<le> D"
  shows "upstream_socket ` set servers \<subseteq> A \<Longrightarrow> (\<And>r. relayed = Some r \<Longrightarrow> answers_query q r) \<Longrightarrow>
    fwd.safe q A D (forward_loop q tr dl servers e relayed) (answers_query q)"
proof (induction servers arbitrary: e relayed)
  case Nil
  then show ?case
    by (auto intro!: fwd.safe_bind [OF fwd.forward_remaining_safe [OF dl]] fwd.safe_ok fwd.safe_err
        split: option.split)
next
  case (Cons address servers)
  have step: "fwd.safe q A D (io_match (attempt tr address \<lparr>ex_sent = sent_as q ident, ex_deadline = adl\<rparr>)
      (\<lambda>response. io_bind (forward_remaining dl) (\<lambda>_.
          if response_rcode response = BadCookie \<or> \<not> retries_in_group (response_rcode response)
          then io_ok response
          else io_bind (warn (Warn_Upstream address (from_rcode (response_rcode response)))) (\<lambda>_.
            forward_loop q tr dl servers (from_rcode (response_rcode response)) (Some response))))
      (\<lambda>e. if e = Fwd_Cancelled then io_err Fwd_Cancelled
           else io_bind (warn (Warn_Upstream address e)) (\<lambda>_. forward_loop q tr dl servers e relayed)))
      (answers_query q)" if "expiry adl \<le> expiry dl" for ident adl
    using Cons that dl q
    by (intro fwd.safe_match [OF attempt_safe])
      (auto simp: exchange_ok_def sent_first intro!: fwd.safe_bind [OF fwd.forward_remaining_safe [OF dl]]
        fwd.safe_bind [OF fwd.safe_warn] Cons.IH fwd.safe_ok fwd.safe_err)
  show ?case
    unfolding forward_loop.simps Let_def
    by (rule fwd.safe_bind [OF fwd.safe_capped], rule fwd.safe_bind [OF fwd.forward_remaining_safe],
        (use dl in simp), rule fwd.safe_bind [OF fwd.next_transaction_id_safe],
        unfold query_sent_eq [OF q] io_bind_lift, rule step)
qed

lemma forward_safe:
  "client_query q \<Longrightarrow>
     fwd.safe q (upstream_socket ` set (group_servers g)) (expiry dl) (forward q g tr dl) (answers_query q)"
  unfolding forward_def by (rule forward_loop_safe) auto

section \<open>The cached stream\<close>

lemma cache_stream_wp:
  "tcp_cache w = None \<Longrightarrow>
     wp (cache_stream address stream r)
       (\<lambda>_ v. \<exists>c. tcp_cache v = Some c \<and> cc_address c = address \<and> cc_stream c = stream)
       (\<lambda>_ v. tcp_cache v = None) (\<lambda>v. tcp_cache v = None) w"
  by (auto simp: cache_stream_def wp_simps split: list.split)

text \<open>From an empty cache, sending over a stream fills the cache only on success.\<close>

lemma send_and_cache:
  assumes ex: "exchange_ok q D ex" and "stream_peer stream \<in> A" and w: "bare.confined q A D w"
  shows "wp (send_over_tcp ex stream)
    (\<lambda>r. wp (cache_stream address stream r)
       (\<lambda>_ v. \<exists>c. tcp_cache v = Some c \<and> cc_address c = address)
       (\<lambda>_ v. tcp_cache v = None) (\<lambda>v. tcp_cache v = None))
    (\<lambda>_. bare.confined q A D) (\<lambda>v. tcp_cache v = None) w"
  by (rule wp_mono [OF bare.safe_at [OF bare.send_over_tcp_safe [OF assms(1,2)] w]])
    (auto simp: bare.confined_def intro!: wp_mono [OF cache_stream_wp])

lemma fresh_send_and_cache:
  assumes ex: "exchange_ok q D ex" and a: "upstream_socket address \<in> A" and w: "bare.confined q A D w"
  shows "wp (io_bind (fresh_stream address ex) (\<lambda>stream. io_bind set_nodelay (\<lambda>_.
      io_bind (send_over_tcp ex stream) (\<lambda>r. cache_stream address stream r))))
    (\<lambda>_ v. \<exists>c. tcp_cache v = Some c \<and> cc_address c = address)
    (\<lambda>_ v. tcp_cache v = None) (\<lambda>v. tcp_cache v = None) w"
proof -
  have send: "wp (send_over_tcp ex stream)
      (\<lambda>r. wp (cache_stream address stream r)
         (\<lambda>_ v. \<exists>c. tcp_cache v = Some c \<and> cc_address c = address)
         (\<lambda>_ v. tcp_cache v = None) (\<lambda>v. tcp_cache v = None))
      (\<lambda>_ v. tcp_cache v = None) (\<lambda>v. tcp_cache v = None) u"
    if "stream_peer stream = upstream_socket address" "bare.confined q A D u" for stream u
    by (rule wp_mono [OF send_and_cache [OF ex _ that(2)]]) (use that(1) a in \<open>auto simp: bare.confined_def\<close>)
  have nodelay: "wp set_nodelay (\<lambda>_. wp (send_over_tcp ex stream)
      (\<lambda>r. wp (cache_stream address stream r)
         (\<lambda>_ v. \<exists>c. tcp_cache v = Some c \<and> cc_address c = address)
         (\<lambda>_ v. tcp_cache v = None) (\<lambda>v. tcp_cache v = None))
      (\<lambda>_ v. tcp_cache v = None) (\<lambda>v. tcp_cache v = None))
      (\<lambda>_ v. tcp_cache v = None) (\<lambda>v. tcp_cache v = None) u"
    if "stream_peer stream = upstream_socket address" "bare.confined q A D u" for stream u
    by (rule wp_mono [OF bare.safe_at [OF bare.set_nodelay_safe that(2)]])
      (use send [OF that(1)] in \<open>auto simp: bare.confined_def\<close>)
  show ?thesis
    unfolding wp_bind
    by (rule wp_mono [OF bare.safe_at [OF bare.fresh_stream_safe [OF ex a] w]])
      (use nodelay in \<open>auto simp: bare.confined_def\<close>)
qed

lemma stream_body_cache:
  assumes ex: "exchange_ok q D ex" and a: "upstream_socket address \<in> A" and w: "bare.confined q A D w"
    and m: "bare.safe q A D m (\<lambda>s. stream_peer s = upstream_socket address)"
  shows "wp (io_bind m (\<lambda>stream. io_bind set_nodelay (\<lambda>_.
      io_match (send_over_tcp ex stream) (\<lambda>r. cache_stream address stream r)
        (\<lambda>e. if reused then io_bind (fresh_stream address ex) (\<lambda>stream. io_bind set_nodelay (\<lambda>_.
               io_bind (send_over_tcp ex stream) (\<lambda>r. cache_stream address stream r)))
             else io_err e))))
    (\<lambda>_ v. \<exists>c. tcp_cache v = Some c \<and> cc_address c = address)
    (\<lambda>_ v. tcp_cache v = None) (\<lambda>v. tcp_cache v = None) w"
proof -
  let ?Q = "\<lambda>_ v. \<exists>c. tcp_cache v = Some c \<and> cc_address c = address"
  let ?N = "\<lambda>v :: forwarder. tcp_cache v = None"
  let ?again = "\<lambda>e. if reused then io_bind (fresh_stream address ex) (\<lambda>stream. io_bind set_nodelay (\<lambda>_.
               io_bind (send_over_tcp ex stream) (\<lambda>r. cache_stream address stream r)))
             else io_err e"
  have again: "wp (?again e) ?Q (\<lambda>_. ?N) ?N u" if "bare.confined q A D u" for e u
    using fresh_send_and_cache [OF ex a that] that by (auto simp: wp_simps bare.confined_def)
  have send: "wp (io_match (send_over_tcp ex stream) (\<lambda>r. cache_stream address stream r) ?again)
      ?Q (\<lambda>_. ?N) ?N u"
    if "stream_peer stream = upstream_socket address" "bare.confined q A D u" for stream u
    unfolding wp_match
    by (rule wp_mono [OF send_and_cache [OF ex _ that(2)]]) (use that(1) a again in auto)
  show ?thesis
    unfolding wp_bind
    by (rule wp_mono [OF bare.safe_at [OF m w]])
      (auto simp: bare.confined_def intro!: send wp_mono [OF bare.safe_at [OF bare.set_nodelay_safe]])
qed

lemma expire_idle_wp:
  assumes "fwd.confined q A D w"
  shows "wp expire_idle (\<lambda>_. fwd.confined q A D) (\<lambda>_ _. False) (\<lambda>v. tcp_cache v = tcp_cache w) w"
proof (cases "tcp_cache w")
  case None
  then have "expire_idle w = io_ok () w" by (simp add: expire_idle_def)
  then show ?thesis using assms by (simp add: wp_at [of expire_idle w "io_ok ()"] wp_simps)
next
  case (Some c)
  let ?m = "io_bind now (\<lambda>t v. (Some (Ok ()),
      if t - cc_last_used c \<ge> TCP_REUSE_IDLE then v\<lparr>tcp_cache := None\<rparr> else v))"
  have eq: "expire_idle w = ?m w" using Some by (simp add: expire_idle_def)
  show ?thesis
    unfolding wp_at [of expire_idle w ?m, OF eq] using assms
    by (auto simp: wp_simps fwd.confined_update intro!: confined_cache split: list.split)
qed

lemma tcp_exchange_cache:
  assumes ex: "exchange_ok q D ex" and a: "upstream_socket address \<in> A" and w: "fwd.confined q A D w"
  shows "wp (tcp_exchange address ex) (\<lambda>_ v. \<exists>c. tcp_cache v = Some c \<and> cc_address c = address)
      (\<lambda>_ v. tcp_cache v = None) (\<lambda>v. tcp_cache v = None \<or> tcp_cache v = tcp_cache w) w"
proof -
  have m: "bare.safe q A D (case (case tcp_cache v of
        Some c \<Rightarrow> if cc_address c = address then Some c else None | None \<Rightarrow> None) of
      Some c \<Rightarrow> io_ok (cc_stream c) | None \<Rightarrow> fresh_stream address ex)
      (\<lambda>s. stream_peer s = upstream_socket address)" if "fwd.confined q A D v" for v
    using that by (auto simp: fwd.confined_def cache_ok_def
        intro!: bare.safe_ok bare.fresh_stream_safe [OF ex a] split: option.split)
  have c: "bare.confined q A D (v\<lparr>tcp_cache := None\<rparr>)" if "fwd.confined q A D v" for v
    using that by (simp add: fwd.confined_def bare.confined_def)
  have after: "wp (\<lambda>w. m w (f w)) Q E N w = wp (m w) Q E N (f w)"
    for m :: "forwarder \<Rightarrow> (forward_error, response) fwd" and f Q E N w by (simp add: wp_def)
  show ?thesis
    unfolding tcp_exchange_def wp_bind [of expire_idle] Let_def
    by (rule wp_mono [OF expire_idle_wp [OF w]], subst after,
        rule wp_mono [OF stream_body_cache [OF ex a c m]]) auto
qed

section \<open>Bounds on an exchange\<close>

definition passes :: "deadline \<Rightarrow> observation \<Rightarrow> bool" where
  "passes dl ob \<longleftrightarrow> \<not> ob_stop ob \<and> ob_now ob < expiry dl"

text \<open>
  One round of the loop that ends with a datagram to ignore: a check, the timeout, the datagram
  and the check after it.
\<close>

fun ignored_round :: "exchange \<Rightarrow> observation list \<Rightarrow> bool" where
  "ignored_round ex [a, b, c, d] \<longleftrightarrow>
     passes (ex_deadline ex) a \<and> (\<exists>x. ob_io b = Io_Ok x) \<and> passes (ex_deadline ex) d
     \<and> (\<exists>bytes. ob_io c = Io_Ok bytes
          \<and> sent_matches_truncated (ex_sent ex) (take 65535 bytes) = (Ok False :: (forward_error, bool) result)
          \<and> check_datagram (ex_sent ex) (take 65535 bytes) = (Ok None :: (forward_error, response option) result))"
| "ignored_round ex _ \<longleftrightarrow> False"

lemma ignored_roundE:
  assumes "ignored_round ex obs"
  obtains a b c d where "obs = [a, b, c, d]"
  using assms by (cases "(ex, obs)" rule: ignored_round.cases) auto

lemma udp_loop_ignores:
  assumes "list_all (ignored_round ex) rounds" and "rounds \<noteq> []"
    and "invalid + length rounds = 64" and "script w = concat rounds @ rest"
  shows "wp (udp_loop address ex invalid) (\<lambda>_ _. False)
      (\<lambda>e v. e = Fwd_InvalidResponse \<and> script v = rest) (\<lambda>_. False) w"
  using assms
proof (induction rounds arbitrary: invalid w)
  case (Cons obs rounds)
  obtain a b c d where obs: "obs = [a, b, c, d]" using Cons.prems(1) by (auto elim: ignored_roundE)
  have r: "\<not> ob_stop a" "ob_now a < expiry (ex_deadline ex)" "\<not> ob_stop d" "ob_now d < expiry (ex_deadline ex)"
    using Cons.prems(1) by (auto simp: obs passes_def)
  obtain x bytes where io: "ob_io b = Io_Ok x" "ob_io c = Io_Ok bytes"
    "sent_matches_truncated (ex_sent ex) (take 65535 bytes) = (Ok False :: (forward_error, bool) result)"
    "check_datagram (ex_sent ex) (take 65535 bytes) = (Ok None :: (forward_error, response option) result)"
    using Cons.prems(1) by (auto simp: obs)
  show ?case
  proof (cases "rounds = []")
    case True
    with Cons.prems r io show ?thesis by (subst wp_udp_loop) (simp add: wp_simps obs)
  next
    case False
    then have "invalid \<noteq> 63" using Cons.prems(3) by (cases rounds) auto
    with Cons False r io show ?thesis by (subst wp_udp_loop) (auto simp: wp_simps obs)
  qed
qed simp

lemma udp_loop_over:
  "over (ex_deadline ex) w \<Longrightarrow> \<exists>e v. udp_loop address ex invalid w = (Some (Err e), v)"
  using remaining_over [of "ex_deadline ex" w]
  by (auto simp: udp_loop.simps [of address ex invalid w] forward_remaining_def io_bind_def
      io_map_err_def io_match_def io_err_def)

section \<open>Queries without a cookie\<close>

lemma sent_for_no_cookie:
  "sent_for q s \<Longrightarrow> pk_cookie (query_packet q) = None \<Longrightarrow> \<exists>ident. s = sent_as q ident"
proof (induction rule: sent_for.induct)
  case (sent_rewritten q s r w ident s')
  then have "pk_cookie (sq_packet s) = None" by (auto simp: sent_as_def)
  with sent_rewritten show ?case by (simp add: cookie_decision_absent)
next
  case (sent_again q s r ident s')
  then have "pk_cookie (sq_packet s) = None" by (auto simp: sent_as_def)
  with sent_again show ?case by (simp add: packet_cookie_def)
qed auto

lemma answers_query_no_cookie:
  assumes "answers_query q r" and "client_query q" and "pk_cookie (query_packet q) = None"
  shows "corresponds_to (relabelled (response_packet r) (query_id q)) q (query_id q)"
  using assms sent_for_no_cookie corresponds_relabelled
  unfolding answers_query_def answers_to_def by blast

section \<open>A sample exchange\<close>

text \<open>An example environment: an idle forwarder, a clock at zero and system calls that succeed.\<close>

definition tick :: observation where
  "tick = \<lparr>ob_now = 0, ob_stop = False, ob_io = Io_Ok [7, 7]\<rparr>"

definition idle :: "observation list \<Rightarrow> forwarder" where
  "idle obs = \<lparr>script = obs, checked = None, connections = 0, performed = [], tcp_cache = None\<rparr>"

definition sample_server :: socket_addr where
  "sample_server = SocketV4 0x0a000001 53"

definition sample_group :: upstream_group where
  "sample_group = UpstreamGroup [UpstreamAddress sample_server]"

lemma idle_simps [simp]:
  "cache_ok (idle obs)" "performed (idle obs) = []" "script (idle obs) = obs"
  by (simp_all add: idle_def cache_ok_def)

lemma tick_passes [simp]: "passes (Deadline 5000000000) tick"
  by (simp add: passes_def tick_def)

section \<open>Properties of exchanges\<close>

lemma forward_run:
  assumes "client_query q" and "cache_ok w" and "performed w = []" and "forward q g tr dl w = (r, v)"
    and "in_budget dl w"
  shows "r \<noteq> Some Panic" and "r = Some (Ok x) \<Longrightarrow> answers_query q x"
    and "list_all (endpoint_action q (upstream_socket ` set (group_servers g)) (expiry dl)) (performed v)"
    and "cache_ok v"
proof -
  let ?A = "upstream_socket ` set (group_servers g)"
  have "fwd.confined q ?A (expiry dl) w" using assms by (simp add: fwd.confined_def in_budget_def)
  note run = wp_returned [OF fwd.safe_at [OF forward_safe [OF assms(1)] this] assms(4)]
  show "r \<noteq> Some Panic" "r = Some (Ok x) \<Longrightarrow> answers_query q x" using run by auto
  have "fwd.confined q ?A (expiry dl) v"
  proof (cases r)
    case (Some y)
    then show ?thesis using run by (cases y) auto
  qed (use run in auto)
  then show "list_all (endpoint_action q ?A (expiry dl)) (performed v)" "cache_ok v"
    by (simp_all add: fwd.confined_def)
qed

text \<open>The connection cache after a TCP exchange.\<close>

lemma tcp_exchange_fills:
  assumes "exchange_ok q D ex" and "cache_ok w" and "performed w = []" and "timely D (checked w)"
    and "fst (tcp_exchange address ex w) = Some r"
  shows "(case r of Ok x \<Rightarrow> \<exists>c. tcp_cache (snd (tcp_exchange address ex w)) = Some c \<and> cc_address c = address
    | Err e \<Rightarrow> tcp_cache (snd (tcp_exchange address ex w)) = None
    | Panic \<Rightarrow> False)"
proof -
  have c: "fwd.confined q {upstream_socket address} D w"
    using assms by (simp add: fwd.confined_def timely_def)
  show ?thesis
    using wp_returned [OF tcp_exchange_cache [OF assms(1) _ c] prod.collapse [symmetric]] assms(5)
    by (auto split: result.split)
qed


text \<open>The sample query under id 7, answered by the first datagram.\<close>

definition answering :: forwarder where
  "answering = (idle [tick, tick, seen [7, 0], tick, tick, tick, tick, tick, tick, tick,
      seen (pk_wire sample_reply), tick, tick])\<lparr>checked := Some 0\<rparr>"

lemma sample_reply_wire:
  "pk_wire sample_reply = [0, 7, 129, 128, 0, 1, 0, 0, 0, 0, 0, 0, 1, 97, 2, 98, 99, 0, 0, 1, 0, 1]"
  by (simp add: sample_reply_def reply_packet_def make_reply_bytes reply_header_def header_encode_def
      reply_flags_def sample_header u16_to_be_bytes_def tail_bytes_def question_bytes_def question_list_def
      sample_question_def encode_label_def)

lemma sample_reply_header:
  "header_of (pk_wire sample_reply) = \<lparr>hd_id = TransactionId 7, hd_flags = 0x8180, hd_counts =
     \<lparr>count_questions = 1, count_answers = 0, count_authorities = 0, count_additionals = 0\<rparr>\<rparr>"
  by (simp add: header_of_def sample_reply_wire wire_word_def u16_from_be_bytes_def)

lemma sample_datagram:
  "sent_matches_truncated (sent_as sample_query (TransactionId 7)) (pk_wire sample_reply) = Ok False"
  "check_datagram (sent_as sample_query (TransactionId 7)) (pk_wire sample_reply) = Ok (Some (Response sample_reply))"
  using parse_Ok [OF sample_reply_parse] sample_reply_accepted sent_as_ok [OF sample_client_query]
  by (simp_all add: sent_matches_truncated_def matches_truncated_def header_parse_eq sample_reply_header
      header_truncated_def check_datagram_def packet_parse_def sample_reply_parse validate_response_eq)

lemma sample_loop:
  assumes "script w = tick # tick # seen (pk_wire sample_reply) # tick # rest" and "0 < n"
  shows "udp_loop address \<lparr>ex_sent = sent_as sample_query (TransactionId 7), ex_deadline = Deadline n\<rparr> 0 w =
    (Some (Ok (Response sample_reply)), w\<lparr>script := rest, checked := Some 0\<rparr>)"
proof -
  have "take 65535 (pk_wire sample_reply) = pk_wire sample_reply" by (simp add: sample_reply_wire)
  then show ?thesis
    using assms
    by (subst udp_loop.simps)
      (simp add: forward_remaining_def run_simps tick_def seen_def sample_datagram min_def)
qed

lemma sample_forward:
  "fst (forward sample_query sample_group Udp (Deadline 5000000000) answering) =
     Some (Ok (Response sample_reply))"
  by (simp add: answering_def idle_def forward_def sample_group_def run_simps tick_def seen_def capped_def
        forward_remaining_def next_transaction_id_def query_sent_eq sample_client_query attempt_def run_exchange_def
        udp_exchange_def u16_from_be_bytes_def sample_loop response_rcode_def sample_reply_code
        retries_in_group_def Let_def)

lemma answering_ok: "cache_ok answering" "performed answering = []" "in_budget (Deadline 5000000000) answering"
  by (simp_all add: answering_def idle_def cache_ok_def in_budget_def)

lemma sample_datagrams:
  "performed (snd (forward sample_query sample_group Udp (Deadline 5000000000) answering))
     = [Act_Udp sample_server ([0, 7] @ drop 2 sample_wire) (Some 0)]"
  by (simp add: answering_def idle_def forward_def sample_group_def run_simps tick_def seen_def capped_def
        forward_remaining_def next_transaction_id_def query_sent_eq sample_client_query attempt_def run_exchange_def
        udp_exchange_def u16_from_be_bytes_def sample_loop response_rcode_def sample_reply_code
        retries_in_group_def Let_def sent_as_wire id_wire_def sample_query_wire u16_to_be_bytes_def)

lemma sample_exchange_ok:
  "exchange_ok sample_query 9 \<lparr>ex_sent = sent_as sample_query (TransactionId 7), ex_deadline = Deadline 9\<rparr>"
  by (simp add: exchange_ok_def sample_client_query sent_first)


end
