(* ===== verification/Forwarding.thy ===== *)
theory Forwarding
  imports Upstream
begin

text \<open>
  The request handler (\<^verbatim>\<open>src/forwarding.rs\<close>): validation of the client packet, local answers, route
  selection and the upstream exchange. The handler's routing table is an argument, its forwarder
  and the stop flag are in the environment. A run returns \<open>Ok None\<close> for a request that gets no
  reply; it has no error outcome.

  Proved here, for every message, table and environment with an empty log (\<open>Composition\<close> lifts it to
  any log): the handler never panics; it performs
  network actions only for a forwardable query, only towards the group the table selects, and only
  within the request deadline; it does not answer responses or unreadable headers; each reply
  carries the client's transaction id, is a response and, on UDP, fits the client's limit; RA is
  cleared when there are no upstreams.
\<close>

section \<open>The handler\<close>

text \<open>\<^verbatim>\<open>deadline.remaining(&stop).ok()?\<close>\<close>

definition or_silent ::
  "deadline \<Rightarrow> (unit, u8 list option) fwd \<Rightarrow> (unit, u8 list option) fwd" where
  "or_silent dl m = io_match (remaining dl) (\<lambda>_. m) (\<lambda>_. io_ok None)"

definition suppressible :: "(unit, u8 list option) result \<Rightarrow> (unit, u8 list option) fwd" where
  "suppressible reply =
     io_bind (io_lift reply) (\<lambda>r.
       io_bind (if r = None then warn Warn_Suppressed else io_ok ()) (\<lambda>_. io_ok r))"

definition relay ::
  "query \<Rightarrow> transport \<Rightarrow> deadline \<Rightarrow> upstream_group \<Rightarrow> (unit, u8 list option) fwd" where
  "relay q tr dl upstreams =
     io_match (forward q upstreams tr dl)
       (\<lambda>response.
          or_silent dl
            (if tr = Udp \<and> length (response_wire response) > query_udp_limit q
             then io_bind (io_lift (query_truncated_reply q response)) (\<lambda>w. io_ok (Some w))
             else io_bind (io_lift (response_with_id response (query_id q))) (\<lambda>w. io_ok (Some w))))
       (\<lambda>e.
          if e = Fwd_Cancelled then io_ok None
          else or_silent dl
            (io_bind (warn (Warn_Forwarding e)) (\<lambda>_.
               suppressible (query_error_reply q ServerFailure))))"

definition answer_query ::
  "routing_table \<Rightarrow> query \<Rightarrow> transport \<Rightarrow> deadline \<Rightarrow> (unit, u8 list option) fwd" where
  "answer_query t q tr dl =
     (case select t (query_name q) of
        Sel_Local l \<Rightarrow> io_lift (query_local_a_reply q (local_address l) (local_ttl l))
      | Sel_Unmatched \<Rightarrow> io_lift (query_error_reply q NameError)
      | Sel_Default g \<Rightarrow> relay q tr dl g
      | Sel_Routed r \<Rightarrow> relay q tr dl (route_upstreams r))"

definition answer_packet ::
  "routing_table \<Rightarrow> packet \<Rightarrow> transport \<Rightarrow> deadline \<Rightarrow> (unit, u8 list option) fwd" where
  "answer_packet t p tr dl =
     io_bind (io_lift (validate_query p)) (\<lambda>decision.
       case decision of
         Forward q \<Rightarrow> answer_query t q tr dl
       | Reject code \<Rightarrow> suppressible (local_error_reply p code)
       | Ignore \<Rightarrow> io_ok None)"

definition respond_inner ::
  "routing_table \<Rightarrow> u8 list \<Rightarrow> transport \<Rightarrow> deadline \<Rightarrow> (unit, u8 list option) fwd" where
  "respond_inner t wire tr dl =
     or_silent dl
       (io_match (io_lift (header_parse wire))
          (\<lambda>header.
             if header_message_type header \<noteq> MessageQuery then io_ok None
             else
               io_match (io_lift (parse wire))
                 (\<lambda>p. answer_packet t p tr dl)
                 (\<lambda>failure.
                    io_bind (warn (Warn_Malformed (pf_error failure))) (\<lambda>_.
                      io_ok (failure_format_reply failure))))
          (\<lambda>e. io_bind (warn (Warn_Malformed e)) (\<lambda>_. io_ok None)))"

definition respond ::
  "routing_table \<Rightarrow> u8 list \<Rightarrow> transport \<Rightarrow> deadline \<Rightarrow> (unit, u8 list option) fwd" where
  "respond t wire tr dl =
     io_bind (respond_inner t wire tr dl) (\<lambda>reply.
       case reply of
         None \<Rightarrow> io_ok None
       | Some w \<Rightarrow>
           or_silent dl
             (if has_upstreams t then io_ok (Some w)
              else io_bind (io_lift (without_recursion w)) (\<lambda>w. io_ok (Some w))))"
section \<open>Replies\<close>

text \<open>The room a client leaves for a UDP reply.\<close>

definition udp_room :: "u8 list \<Rightarrow> nat" where
  "udp_room wire = (case parse wire of Ok p \<Rightarrow> packet_udp_limit p | _ \<Rightarrow> CLASSIC_UDP_LENGTH)"

text \<open>
  The message \<open>p'\<close> corresponds to the query in \<open>wire\<close>, by the rules an upstream's response is
  checked with: same question, and EDNS only for a client that sent EDNS. A query with a COOKIE
  is left out, because what is sent for it may be a rewriting of its bytes.
\<close>

definition answers_client :: "u8 list \<Rightarrow> packet \<Rightarrow> bool" where
  "answers_client wire p' \<longleftrightarrow>
     (\<forall>p. parse wire = Ok p \<and> forwardable p \<and> pk_cookie p = None
        \<longrightarrow> corresponds_to p' (query_of p) (hd_id (pk_header p)))"

text \<open>
  A reply to the message \<open>wire\<close>: a well-formed response with its transaction id and opcode that
  answers its question and fits the client's transport.
\<close>

definition reply_to :: "u8 list \<Rightarrow> transport \<Rightarrow> u8 list \<Rightarrow> bool" where
  "reply_to wire tr w \<longleftrightarrow>
     (\<exists>p. parse w = Ok p \<and> header_message_type (pk_header p) = MessageResponse
        \<and> hd_id (pk_header p) = hd_id (header_of wire)
        \<and> header_opcode (pk_header p) = header_opcode (header_of wire)
        \<and> answers_client wire p)
     \<and> (tr = Udp \<longrightarrow> length w \<le> udp_room wire)"

definition replies :: "u8 list \<Rightarrow> transport \<Rightarrow> u8 list option \<Rightarrow> bool" where
  "replies wire tr r \<longleftrightarrow> (\<forall>w. r = Some w \<longrightarrow> reply_to wire tr w)"

lemma replies_None [simp]: "replies wire tr None"
  by (simp add: replies_def)

lemma udp_room_bounds: "512 \<le> udp_room wire" "udp_room wire \<le> 1232"
  using packet_udp_limit_bounds by (auto simp: udp_room_def split: result.split)

text \<open>Locally built messages.\<close>

lemma parsed_header: "parsed p \<Longrightarrow> pk_header p = header_of (pk_wire p)"
  using parsed_wf by (auto simp: packet_wf_def)

lemma reply_to_make_reply:
  assumes "h = header_of wire" and "\<And>q. question = Some q \<Longrightarrow> question_wf q"
    and "answer \<noteq> None \<Longrightarrow> question \<noteq> None" and "opt_cookie_ok opt"
    and "\<And>p. parse wire = Ok p \<Longrightarrow> forwardable p \<Longrightarrow>
      question = first_question (pk_questions p) \<and> (opt = Opt_Absent \<longleftrightarrow> pk_edns p = None)"
  shows "reply_to wire tr (make_reply h question code truncated opt answer)"
proof -
  have "length (make_reply h question code truncated opt answer) \<le> 342"
    by (rule length_make_reply_bound) (use assms in auto)
  moreover have "corresponds_to (reply_packet h question code truncated opt answer) (query_of p)
      (hd_id (pk_header p))" if p: "parse wire = Ok p" "forwardable p" for p
  proof -
    have "pk_header p = h" using parse_parsed [OF p(1)] parsed_header assms(1) by auto
    then show ?thesis
      using reply_packet_corresponds [of p opt "query_of p" code truncated answer] assms(5) [OF p] p(2)
      by (auto simp: query_of_def forwardable_def)
  qed
  moreover have "pk_header (reply_packet h question code truncated opt answer)
      = reply_header h question code truncated opt answer"
    by (simp add: reply_packet_def)
  ultimately show ?thesis
    using parse_make_reply [OF assms(2-4)] udp_room_bounds(1) [of wire] assms(1)
    by (auto simp: reply_to_def answers_client_def)
qed

lemma local_error_reply_ok:
  assumes "parsed p" and "pk_wire p = wire"
  shows "\<exists>r. local_error_reply p code = Ok r \<and> replies wire tr r"
proof -
  note wf = parsed_wf [OF assms(1)]
  have "reply_to wire tr (error_reply p code)"
    unfolding error_reply_def
    by (rule reply_to_make_reply)
      (use assms parsed_header first_question_wf [OF wf] in \<open>auto simp: parsed_def\<close>)
  then show ?thesis
    by (auto simp: local_error_reply_eq [OF packet_wf_cookie [OF wf]] replies_def)
qed

lemma local_a_reply_ok:
  assumes "client_query q" and "pk_wire (query_packet q) = wire"
  shows "\<exists>r. query_local_a_reply q address ttl = Ok r \<and> replies wire tr r"
proof -
  let ?p = "query_packet q"
  have p: "parsed ?p" "packet_wf ?p" using assms(1) by (auto simp: client_query_def parsed_wf)
  obtain x where x: "pk_questions ?p = [x]" using assms(1) by (auto simp: client_query_def forwardable_def)
  have wf: "question_wf x" using p(2) x by (simp add: packet_wf_def)
  have "reply_to wire tr (make_reply (pk_header ?p) (Some x)
      (if qu_class x = Class_In then NoError else Refused) False (generated_opt (pk_edns ?p))
      (local_answer x address ttl))"
    by (rule reply_to_make_reply)
      (use wf parsed_header [OF p(1)] assms(2) p(1) x in \<open>auto simp: parsed_def\<close>)
  then show ?thesis
    by (auto simp: query_local_a_reply_def local_a_reply_eq [OF packet_wf_cookie [OF p(2)] x] replies_def)
qed

lemma failure_format_reply_ok:
  assumes "parse wire = Err failure"
  shows "replies wire tr (failure_format_reply failure)"
proof (cases "pf_context failure")
  case None
  then show ?thesis by (simp add: failure_format_reply_def)
next
  case (Some c)
  with parse_Err(1) [OF assms] have c: "rc_header c = header_of wire"
      "\<And>q. rc_question c = Some q \<Longrightarrow> question_wf q"
    by (auto simp: context_wf_def)
  have "reply_to wire tr (context_format_reply c)"
    unfolding context_format_reply_def header_error_reply_def
    by (auto intro!: reply_to_make_reply simp: c assms)
  with Some show ?thesis by (simp add: failure_format_reply_def replies_def)
qed

text \<open>Messages relayed from upstream.\<close>

lemma answers_query_packet:
  assumes "answers_query q r" and "client_query q"
  shows "parsed (response_packet r)"
    and "header_message_type (pk_header (response_packet r)) = MessageResponse"
    and "header_opcode (pk_header (response_packet r)) = header_opcode (pk_header (query_packet q))"
    and "\<not> is_truncated (response_packet r)" and "\<not> pk_authenticated (response_packet r)"
proof -
  obtain s where s: "answers_to s r" using assms(1) by (auto simp: answers_query_def)
  have "header_opcode (pk_header (sq_packet s)) = header_opcode (pk_header (query_packet q))"
    using s assms(2) by (simp add: answers_to_def client_query_def forwardable_def)
  with s show "parsed (response_packet r)"
    "header_message_type (pk_header (response_packet r)) = MessageResponse"
    "header_opcode (pk_header (response_packet r)) = header_opcode (pk_header (query_packet q))"
    "\<not> is_truncated (response_packet r)" "\<not> pk_authenticated (response_packet r)"
    by (auto simp: answers_to_def accepted_def corresponds_to_def Let_def query_of_def)
qed

lemma client_query_wire:
  assumes "client_query q"
  shows "udp_room (pk_wire (query_packet q)) = query_udp_limit q"
    and "header_of (pk_wire (query_packet q)) = pk_header (query_packet q)"
  using assms parsed_header by (auto simp: client_query_def parsed_def udp_room_def query_udp_limit_def)

lemma truncated_reply_ok:
  assumes q: "client_query q" and r: "answers_query q r" and wire: "pk_wire (query_packet q) = wire"
  shows "\<exists>w. query_truncated_reply q r = Ok w \<and> reply_to wire tr w"
proof -
  have ck: "packet_cookie_wf (response_packet r)"
    by (rule packet_wf_cookie [OF parsed_wf [OF answers_query_packet(1) [OF r q]]])
  show ?thesis
    using first_question_wf [OF client_query_wf [OF q]] truncated_opt_cookie_ok [OF ck]
      client_query_wire(2) [OF q] wire q
    by (auto simp: query_truncated_reply_def truncated_reply_eq [OF ck] client_query_def parsed_def
        intro!: reply_to_make_reply)
qed

lemma relayed_reply_ok:
  assumes q: "client_query q" and r: "answers_query q r" and wire: "pk_wire (query_packet q) = wire"
    and fits: "tr = Udp \<longrightarrow> length (response_wire r) \<le> query_udp_limit q"
  shows "\<exists>w. response_with_id r (query_id q) = Ok w \<and> reply_to wire tr w"
proof -
  note p = answers_query_packet [OF r q]
  have "answers_client wire (relabelled (response_packet r) (query_id q))"
    using answers_query_no_cookie [OF r q] q wire
    by (auto simp: answers_client_def client_query_def parsed_def query_id_def)
  then have "reply_to wire tr (id_wire (response_packet r) (query_id q))"
    unfolding reply_to_def
    using parse_id_wire [OF p(1)] p fits client_query_wire [OF q] wire
      length_id_wire [OF parsed_wf [OF p(1)]]
    by (auto simp: query_id_def response_wire_def)
  then show ?thesis by (auto simp: response_with_id_eq [OF parsed_wf [OF p(1)]])
qed

section \<open>The handler follows the policy of its query\<close>

lemma or_silent_sure:
  "expiry dl \<le> D \<Longrightarrow> fwd.sure q A D m Q \<Longrightarrow> Q None \<Longrightarrow> fwd.sure q A D (or_silent dl m) Q"
  unfolding or_silent_def by (rule fwd.sure_match [OF fwd.safe_remaining]) (auto intro: fwd.sure_ok)

lemma suppressible_sure:
  assumes "\<exists>x. r = Ok x \<and> Q x"
  shows "fwd.sure q A D (suppressible r) Q"
  unfolding suppressible_def
  by (rule fwd.sure_bind [OF fwd.sure_lift [OF assms]])
    (auto intro!: fwd.sure_bind [where R = "\<lambda>_. True"] fwd.sure_warn fwd.sure_ok)

definition sockets :: "upstream_group \<Rightarrow> socket_addr set" where
  "sockets g = upstream_socket ` set (group_servers g)"

lemma answered_sure:
  "\<exists>w. r = Ok w \<and> reply_to wire tr w \<Longrightarrow>
     fwd.sure q A D (io_bind (io_lift r) (\<lambda>w. io_ok (Some w))) (replies wire tr)"
  by (auto simp: replies_def intro!: fwd.sure_ok)

lemma relay_sure:
  assumes q: "client_query q" and wire: "pk_wire (query_packet q) = wire"
  shows "fwd.sure q (sockets g) (expiry dl) (relay q tr dl g) (replies wire tr)"
proof -
  have p: "parsed (query_packet q)" using q by (simp add: client_query_def)
  have err: "fwd.sure q (sockets g) (expiry dl)
      (io_bind (warn (Warn_Forwarding e)) (\<lambda>_. suppressible (query_error_reply q ServerFailure)))
      (replies wire tr)" for e
    unfolding query_error_reply_def
    by (intro fwd.sure_bind [OF fwd.sure_warn] suppressible_sure local_error_reply_ok [OF p wire])
  have ok: "fwd.sure q (sockets g) (expiry dl)
      (if tr = Udp \<and> length (response_wire r) > query_udp_limit q
       then io_bind (io_lift (query_truncated_reply q r)) (\<lambda>w. io_ok (Some w))
       else io_bind (io_lift (response_with_id r (query_id q))) (\<lambda>w. io_ok (Some w)))
      (replies wire tr)" if r: "answers_query q r" for r
    by (cases "tr = Udp \<and> length (response_wire r) > query_udp_limit q")
      (auto intro!: answered_sure truncated_reply_ok [OF q r wire] relayed_reply_ok [OF q r wire]
        simp del: io_bind_lift)
  show ?thesis
    unfolding relay_def
  proof (rule fwd.sure_match [OF forward_safe [OF q, folded sockets_def]], goal_cases)
    case (1 r)
    show ?case by (rule or_silent_sure [OF order_refl ok [OF 1] replies_None])
  next
    case (2 e)
    show ?case
      using or_silent_sure [OF order_refl err replies_None] by (simp add: fwd.sure_ok)
  qed
qed

text \<open>The endpoints a table lets a name go to.\<close>

definition select_sockets :: "routing_table \<Rightarrow> domain_name \<Rightarrow> socket_addr set" where
  "select_sockets t n =
     (case select t n of
        Sel_Default g \<Rightarrow> sockets g
      | Sel_Routed r \<Rightarrow> sockets (route_upstreams r)
      | _ \<Rightarrow> {})"

lemma answer_query_sure:
  assumes q: "client_query q" and wire: "pk_wire (query_packet q) = wire"
  shows "fwd.sure q (select_sockets t (query_name q)) (expiry dl) (answer_query t q tr dl) (replies wire tr)"
proof -
  have p: "parsed (query_packet q)" using q by (simp add: client_query_def)
  show ?thesis
    using relay_sure [OF q wire, of _ dl tr]
    by (cases "select t (query_name q)")
      (auto simp: answer_query_def select_sockets_def query_error_reply_def
        intro!: fwd.sure_lift local_a_reply_ok [OF q wire] local_error_reply_ok [OF p wire])
qed

section \<open>Whole requests\<close>

text \<open>The endpoints a client message may cause traffic to.\<close>

definition request_sockets :: "routing_table \<Rightarrow> u8 list \<Rightarrow> socket_addr set" where
  "request_sockets t wire =
     (case parse wire of
        Ok p \<Rightarrow> if forwardable p then select_sockets t (query_name (query_of p)) else {}
      | _ \<Rightarrow> {})"

text \<open>What a client message may cause: a message that does not parse causes no traffic.\<close>

definition permitted :: "routing_table \<Rightarrow> u8 list \<Rightarrow> instant \<Rightarrow> action \<Rightarrow> bool" where
  "permitted t wire D a \<longleftrightarrow>
     (case parse wire of
        Ok p \<Rightarrow> endpoint_action (query_of p) (request_sockets t wire) D a
      | _ \<Rightarrow> \<forall>q. endpoint_action q {} D a)"

definition policy_query :: "u8 list \<Rightarrow> query \<Rightarrow> bool" where
  "policy_query wire q \<longleftrightarrow> (\<forall>p. parse wire = Ok p \<longrightarrow> q = query_of p)"

lemma validate_forwardable: "forwardable p \<Longrightarrow> validate_query p = Ok (Forward (query_of p))"
  by (simp add: validate_query_Forward_iff query_of_def)

lemma answer_packet_sure:
  assumes p: "parse wire = Ok p" and q: "policy_query wire q"
  shows "fwd.sure q (request_sockets t wire) (expiry dl) (answer_packet t p tr dl) (replies wire tr)"
proof (cases "forwardable p")
  case True
  have w: "client_query q" "pk_wire (query_packet q) = wire"
    using p q True parse_parsed [OF p] by (auto simp: policy_query_def client_query_def query_of_def)
  show ?thesis
    using answer_query_sure [OF w] p q True
    by (simp add: answer_packet_def validate_forwardable request_sockets_def policy_query_def)
next
  case False
  obtain d where d: "validate_query p = (Ok d :: (unit, query_decision) result)"
    using validate_query_panic_free [of p] by (cases "validate_query p :: (unit, _) result") auto
  have "d \<noteq> Forward x" for x
    using d False by (auto simp: validate_query_Forward_iff)
  moreover have "fwd.sure q A D (suppressible (local_error_reply p code)) (replies wire tr)" for A D code
    using parse_parsed [OF p] by (intro suppressible_sure local_error_reply_ok) auto
  ultimately show ?thesis
    by (cases d) (auto simp: answer_packet_def d intro: fwd.sure_ok)
qed

lemma query_body_sure:
  assumes q: "policy_query wire q"
  shows "fwd.sure q (request_sockets t wire) (expiry dl)
    (io_match (io_lift (parse wire))
       (\<lambda>p. answer_packet t p tr dl)
       (\<lambda>failure. io_bind (warn (Warn_Malformed (pf_error failure))) (\<lambda>_.
          io_ok (failure_format_reply failure)))) (replies wire tr)"
proof (cases "parse wire")
  case (Ok p)
  then show ?thesis
    using answer_packet_sure [OF Ok q] by (simp add: fwd.sure_def wp_simps)
next
  case (Err failure)
  have "fwd.sure q (request_sockets t wire) (expiry dl)
      (io_bind (warn (Warn_Malformed (pf_error failure))) (\<lambda>_. io_ok (failure_format_reply failure)))
      (replies wire tr)"
    by (intro fwd.sure_bind [OF fwd.sure_warn] fwd.sure_ok failure_format_reply_ok [OF Err])
  then show ?thesis using Err by (simp add: fwd.sure_def wp_simps)
qed (use parse_panic_free [of wire] in simp)

text \<open>An environment before a request's first deadline check.\<close>

definition begun :: "query \<Rightarrow> socket_addr set \<Rightarrow> instant \<Rightarrow> forwarder \<Rightarrow> bool" where
  "begun q A D w \<longleftrightarrow> list_all (endpoint_action q A D) (performed w) \<and> cache_ok w"

lemma begun_confined: "fwd.confined q A D w \<Longrightarrow> begun q A D w"
  by (simp add: begun_def fwd.confined_def)

lemma begun_quiet: "begun q A (expiry dl) w \<Longrightarrow> quiet dl w v \<Longrightarrow> begun q A (expiry dl) v"
  by (cases w; cases v) (auto simp: begun_def quiet_def cache_ok_def)

lemma or_silent_begun:
  assumes m: "fwd.sure q A (expiry dl) m Q" and Q: "Q None" and w: "begun q A (expiry dl) w"
  shows "wp (or_silent dl m) (\<lambda>r v. begun q A (expiry dl) v \<and> Q r) (\<lambda>_ _. False)
    (begun q A (expiry dl)) w"
proof -
  have c: "fwd.confined q A (expiry dl) v" if "quiet dl w v" "in_budget dl v" for v
    using begun_quiet [OF w that(1)] that(2) by (simp add: begun_def fwd.confined_def in_budget_def)
  have "wp m (\<lambda>r v. begun q A (expiry dl) v \<and> Q r) (\<lambda>_ _. False) (begun q A (expiry dl)) v"
    if "quiet dl w v" "in_budget dl v" for v
    by (rule wp_mono [OF fwd.sure_at [OF m c [OF that]]]) (auto intro: begun_confined)
  then show ?thesis
    unfolding or_silent_def wp_match wp_ok
    by (intro wp_remaining_quiet) (auto intro: begun_quiet [OF w] Q)
qed

lemma respond_inner_begun:
  assumes q: "policy_query wire q" and w: "begun q (request_sockets t wire) (expiry dl) w"
  shows "wp (respond_inner t wire tr dl)
    (\<lambda>r v. begun q (request_sockets t wire) (expiry dl) v \<and> replies wire tr r) (\<lambda>_ _. False)
    (begun q (request_sockets t wire) (expiry dl)) w"
  unfolding respond_inner_def
proof (rule or_silent_begun [OF _ _ w])
  let ?S = "fwd.sure q (request_sockets t wire) (expiry dl)"
  have m: "?S (io_bind (warn (Warn_Malformed e)) (\<lambda>_. io_ok None)) (replies wire tr)" for e
    by (intro fwd.sure_bind [OF fwd.sure_warn] fwd.sure_ok replies_None)
  show "?S (io_match (io_lift (header_parse wire)) (\<lambda>header.
      if header_message_type header \<noteq> MessageQuery then io_ok None
      else io_match (io_lift (parse wire)) (\<lambda>p. answer_packet t p tr dl)
        (\<lambda>failure. io_bind (warn (Warn_Malformed (pf_error failure))) (\<lambda>_.
           io_ok (failure_format_reply failure))))
      (\<lambda>e. io_bind (warn (Warn_Malformed e)) (\<lambda>_. io_ok None))) (replies wire tr)"
    using m query_body_sure [OF q]
    by (intro fwd.sure_match [OF fwd.safe_lift [where Q = "\<lambda>_. True"]])
      (auto simp: header_parse_panic_free intro: fwd.sure_ok)
qed simp

text \<open>Clearing RA keeps a reply a reply.\<close>

lemma without_recursion_reply:
  assumes "reply_to wire tr w"
  shows "\<exists>w'. without_recursion w = Ok w' \<and> reply_to wire tr w'
    \<and> hd_flags (header_of w') AND 0x0080 = 0"
proof -
  obtain p where p: "parse w = Ok p" using assms by (auto simp: reply_to_def)
  have len: "12 \<le> length w" using parse_Ok [OF p] by (auto simp: packet_wf_def)
  let ?w = "w[3 := w ! 3 AND NOT 0x80]"
  have w: "without_recursion w = (Ok ?w :: (unit, u8 list) result)" by (rule without_recursion_eq [OF len])
  have "header_message_type (h\<lparr>hd_flags := hd_flags h AND NOT 0x0080\<rparr>) = header_message_type h" for h
    by (simp add: header_message_type_def and.assoc)
  then have "reply_to wire tr ?w"
    using assms p parse_without_recursion [OF p w] header_opcode_no_recursion [of "pk_header p"]
    by (auto simp: reply_to_def answers_client_def corresponds_to_def Let_def)
  moreover have "hd_flags (header_of ?w) AND 0x0080 = 0"
    unfolding header_of_without_recursion [OF len] by (simp add: and.assoc)
  ultimately show ?thesis using without_recursion_eq [OF len] by blast
qed

lemma respond_begun:
  assumes q: "policy_query wire q" and w: "begun q (request_sockets t wire) (expiry dl) w"
  shows "wp (respond t wire tr dl)
    (\<lambda>r v. begun q (request_sockets t wire) (expiry dl) v \<and> replies wire tr r
       \<and> (has_upstreams t \<or> (\<forall>x. r = Some x \<longrightarrow> hd_flags (header_of x) AND 0x0080 = 0)))
    (\<lambda>_ _. False) (begun q (request_sockets t wire) (expiry dl)) w"
proof -
  let ?Q = "\<lambda>r. replies wire tr r
    \<and> (has_upstreams t \<or> (\<forall>x. r = Some x \<longrightarrow> hd_flags (header_of x) AND 0x0080 = 0))"
  have "fwd.sure q A D (if has_upstreams t then io_ok (Some x)
      else io_bind (io_lift (without_recursion x)) (\<lambda>w. io_ok (Some w))) ?Q" if "replies wire tr (Some x)" for A D x
  proof -
    have "reply_to wire tr x" using that by (simp add: replies_def)
    then show ?thesis
      by (auto simp: replies_def
          intro!: fwd.sure_ok fwd.sure_bind [OF fwd.sure_lift [OF without_recursion_reply]])
  qed
  then show ?thesis
    unfolding respond_def wp_bind
    by (intro wp_mono [OF respond_inner_begun [OF q w]])
      (auto simp: wp_simps intro!: or_silent_begun split: option.split)
qed

section \<open>Runs from a fresh trace\<close>

lemma respond_fresh:
  assumes "cache_ok w" and "performed w = []" and q: "policy_query wire q"
  shows "wp (respond t wire tr dl)
    (\<lambda>r v. begun q (request_sockets t wire) (expiry dl) v \<and> replies wire tr r
       \<and> (has_upstreams t \<or> (\<forall>x. r = Some x \<longrightarrow> hd_flags (header_of x) AND 0x0080 = 0)))
    (\<lambda>_ _. False) (begun q (request_sockets t wire) (expiry dl)) w"
  using assms by (intro respond_begun [OF q]) (simp add: begun_def)

lemma respond_ends:
  assumes "cache_ok w" and "performed w = []" and q: "policy_query wire q"
    and "respond t wire tr dl w = (r, v)"
  shows "begun q (request_sockets t wire) (expiry dl) v"
proof (cases r)
  case None
  then show ?thesis using respond_fresh [OF assms(1-3), of t tr dl] assms(4) by (simp add: wp_def)
next
  case (Some x)
  then show ?thesis
    using respond_fresh [OF assms(1-3), of t tr dl] assms(4) by (cases x) (simp_all add: wp_def)
qed

lemma policy_query_any: "parse wire = Err failure \<Longrightarrow> policy_query wire q"
  and policy_query_of: "parse wire = Ok p \<Longrightarrow> policy_query wire (query_of p)"
  by (simp_all add: policy_query_def)

lemma policy_query_exists: "\<exists>q. policy_query wire q"
  by (cases "parse wire") (auto simp: policy_query_def)

lemma respond_actions:
  assumes "cache_ok w" and "performed w = []"
  shows "list_all (permitted t wire (expiry dl)) (performed (snd (respond t wire tr dl w)))"
proof -
  obtain r v where r: "respond t wire tr dl w = (r, v)" by fastforce
  note ends = respond_ends [OF assms _ r]
  show ?thesis
  proof (cases "parse wire")
    case (Ok p)
    then show ?thesis
      using ends [OF policy_query_of [OF Ok]] r by (simp add: begun_def permitted_def list_all_iff)
  next
    case (Err failure)
    then show ?thesis
      using ends [OF policy_query_any [OF Err]] r
      by (auto simp: begun_def permitted_def list_all_iff request_sockets_def)
  qed (use parse_panic_free [of wire] in simp)
qed

text \<open>The run of a request whose checks pass, up to the reply of \<open>respond_inner\<close>.\<close>

lemma or_silent_passes:
  assumes "script w = ob # rest" and "passes dl ob"
  shows "or_silent dl m w = m (w\<lparr>script := rest, checked := Some (ob_now ob)\<rparr>)"
  using assms
  by (simp add: or_silent_def io_match_def remaining_def io_bind_def observe_def passes_def)

lemma respond_passes:
  assumes s: "script w = a # b # rest" and "passes dl a" and "passes dl b" and "has_upstreams t"
    and "12 \<le> length wire" and "header_message_type (header_of wire) = MessageQuery"
    and body: "io_match (io_lift (parse wire))
       (\<lambda>p. answer_packet t p tr dl)
       (\<lambda>failure. io_bind (warn (Warn_Malformed (pf_error failure))) (\<lambda>_.
          io_ok (failure_format_reply failure))) (w\<lparr>script := b # rest, checked := Some (ob_now a)\<rparr>)
      = (Some (Ok (Some x)), w\<lparr>script := b # rest, checked := Some (ob_now a), performed := acts\<rparr>)"
  shows "respond t wire tr dl w =
    (Some (Ok (Some x)), w\<lparr>script := rest, checked := Some (ob_now b), performed := acts\<rparr>)"
proof -
  have "respond_inner t wire tr dl w =
      (Some (Ok (Some x)), w\<lparr>script := b # rest, checked := Some (ob_now a), performed := acts\<rparr>)"
    unfolding respond_inner_def or_silent_passes [OF s assms(2)]
    using body assms(5,6) by (simp add: header_parse_eq io_match_lift)
  moreover have "or_silent dl (io_ok (Some x)) (w\<lparr>script := b # rest, checked := Some (ob_now a), performed := acts\<rparr>)
      = (Some (Ok (Some x)), w\<lparr>script := rest, checked := Some (ob_now b), performed := acts\<rparr>)"
    by (subst or_silent_passes [where ob = b and rest = rest]) (use assms(3) in \<open>simp_all add: io_ok_def\<close>)
  ultimately show ?thesis
    using assms(4) by (simp add: respond_def io_bind_def)
qed

lemma respond_query:
  assumes q: "client_query q" and "script w = a # b # rest" and "passes dl a" and "passes dl b"
    and "has_upstreams t"
    and "answer_query t q tr dl (w\<lparr>script := b # rest, checked := Some (ob_now a)\<rparr>)
      = (Some (Ok (Some x)), w\<lparr>script := b # rest, checked := Some (ob_now a)\<rparr>)"
  shows "respond t (pk_wire (query_packet q)) tr dl w =
    (Some (Ok (Some x)), w\<lparr>script := rest, checked := Some (ob_now b)\<rparr>)"
proof -
  let ?p = "query_packet q"
  have p: "parsed ?p" "forwardable ?p" "q = query_of ?p" using q by (auto simp: client_query_def)
  then have a: "answer_packet t ?p tr dl = answer_query t q tr dl"
    by (simp add: answer_packet_def validate_forwardable)
  have "12 \<le> length (pk_wire ?p)" "header_message_type (header_of (pk_wire ?p)) = MessageQuery"
    using p client_query_wire(2) [OF q] parsed_wf [OF p(1)] by (auto simp: packet_wf_def forwardable_def)
  then show ?thesis
    using respond_passes [of w a b rest dl t "pk_wire ?p" tr x "performed w"] assms(2-6) p(1)
    by (simp add: parsed_def io_match_lift a)
qed

text \<open>A local answer and an unmatched name, when the checks of the request pass.\<close>

lemma respond_local:
  assumes q: "client_query q" and "script w = a # b # rest" and "passes dl a" and "passes dl b"
    and "has_upstreams t" and "select t (query_name q) = Sel_Local l"
    and "\<not> carries_server_cookie (query_packet q)"
  shows "respond t (pk_wire (query_packet q)) tr dl w =
    (Some (Ok (Some (make_reply (pk_header (query_packet q)) (Some (query_question q))
       (if qu_class (query_question q) = Class_In then NoError else Refused) False
       (generated_opt (pk_edns (query_packet q)))
       (local_answer (query_question q) (local_address l) (local_ttl l))))),
     w\<lparr>script := rest, checked := Some (ob_now b)\<rparr>)"
proof (rule respond_query [OF assms(1-5)])
  let ?p = "query_packet q"
  obtain x where x: "pk_questions ?p = [x]" using q by (auto simp: client_query_def forwardable_def)
  moreover have "query_question q = x"
  proof -
    have "q = query_of ?p" using q by (simp add: client_query_def)
    then have "query_question q = query_question (query_of ?p)" by simp
    then show ?thesis using x by (simp add: query_of_def)
  qed
  ultimately show "answer_query t q tr dl (w\<lparr>script := b # rest, checked := Some (ob_now a)\<rparr>)
      = (Some (Ok (Some (make_reply (pk_header ?p) (Some (query_question q))
       (if qu_class (query_question q) = Class_In then NoError else Refused) False
       (generated_opt (pk_edns ?p))
       (local_answer (query_question q) (local_address l) (local_ttl l))))),
     w\<lparr>script := b # rest, checked := Some (ob_now a)\<rparr>)"
    using assms(6,7)
    by (simp add: answer_query_def io_lift_def query_local_a_reply_def
        local_a_reply_eq [OF packet_wf_cookie [OF client_query_wf [OF q]] x])
qed

section \<open>Properties of requests\<close>

definition sample_table :: routing_table where
  "sample_table = \<lparr>rt_default = Some sample_group, rt_routes = [], rt_local = []\<rparr>"

definition sample_local :: local_record where
  "sample_local = \<lparr>local_suffix = DomainName [[66, 67]], local_address = 0x0a000002, local_ttl = 60\<rparr>"

definition local_table :: routing_table where
  "local_table = sample_table\<lparr>rt_local := [sample_local]\<rparr>"

lemma sample_select: "select sample_table n = Sel_Default sample_group"
  by (simp add: select_def sample_table_def find_route_def find_local_def)



lemma sample_sends:
  defines "w \<equiv> idle [tick, tick, tick, tick, tick, tick, tick, tick]"
  shows "performed (snd (respond sample_table sample_wire Udp (Deadline 5000000000) w))
   = [Act_Udp sample_server ([7, 7] @ drop 2 sample_wire) (Some 0)]"
    and "fst (respond sample_table sample_wire Udp (Deadline 5000000000) w) = None"
proof -
  have "answer_packet sample_table sample_packet Udp (Deadline 5000000000)
    = relay sample_query Udp (Deadline 5000000000) sample_group"
    by (simp add: answer_packet_def answer_query_def validate_forwardable sample_forwardable sample_query_def sample_select)
  then have "performed (snd (respond sample_table sample_wire Udp (Deadline 5000000000) w))
      = [Act_Udp sample_server ([7, 7] @ drop 2 sample_wire) (Some 0)]
    \<and> fst (respond sample_table sample_wire Udp (Deadline 5000000000) w) = None"
    by (simp add: respond_def respond_inner_def or_silent_def header_parse_eq sample_length sample_header
        header_message_type_def sample_parse io_match_lift)
      (simp add: w_def run_simps idle_def tick_def relay_def forward_def sample_group_def forward_remaining_def
        capped_def next_transaction_id_def query_sent_eq sample_client_query attempt_def run_exchange_def
        udp_exchange_def sent_as_wire id_wire_def sample_query_wire u16_from_be_bytes_def u16_to_be_bytes_def)
  then show "performed (snd (respond sample_table sample_wire Udp (Deadline 5000000000) w))
      = [Act_Udp sample_server ([7, 7] @ drop 2 sample_wire) (Some 0)]"
    and "fst (respond sample_table sample_wire Udp (Deadline 5000000000) w) = None" by blast+
qed

lemma sample_local_facts:
  "has_upstreams local_table" "select local_table (query_name sample_query) = Sel_Local sample_local"
  "\<not> carries_server_cookie (query_packet sample_query)"
  "pk_header (query_packet sample_query) = header_of sample_wire"
  "query_question sample_query = sample_question" "pk_edns (query_packet sample_query) = None"
  "qu_class sample_question = Class_In" "generated_opt None = Opt_Absent"
  "local_answer sample_question (local_address sample_local) (local_ttl sample_local) = Some (0x0a000002, 60)"
  by (simp_all add: has_upstreams_def local_table_def sample_table_def select_def find_route_def
      find_local_def sample_local_def query_name_def sample_query_def query_of_def sample_packet_def
      carries_server_cookie_def packet_cookie_def sample_question_def local_answer_def generated_opt_def
      is_subdomain_of_def eq_ignore_ascii_case_def to_ascii_lowercase_def)

lemma sample_answer:
  "fst (respond local_table sample_wire Udp (Deadline 5000000000) (idle [tick, tick])) =
     Some (Ok (Some (make_reply (header_of sample_wire) (Some sample_question) NoError False Opt_Absent
       (Some (0x0a000002, 60)))))"
  using respond_local [of sample_query "idle [tick, tick]" tick tick "[]" "Deadline 5000000000"
      local_table sample_local Udp]
  by (simp add: sample_client_query sample_query_wire sample_local_facts)



lemma respond_recursion:
  assumes "cache_ok w" and "performed w = []" and "\<not> has_upstreams t"
    and "fst (respond t wire tr dl w) = Some (Ok (Some x))"
  shows "hd_flags (header_of x) AND 0x0080 = 0"
proof -
  obtain q where "policy_query wire q" using policy_query_exists by blast
  from respond_fresh [OF assms(1,2) this, of t tr dl] assms(3,4) show ?thesis
    by (cases "respond t wire tr dl w") (auto simp: wp_def)
qed

lemma sample_nxdomain:
  "fst (respond (sample_table\<lparr>rt_default := None\<rparr>) sample_wire Udp (Deadline 5000000000) (idle [tick, tick])) =
     Some (Ok (Some ((error_reply sample_packet NameError)[3 := 3])))"
proof -
  have "answer_packet (sample_table\<lparr>rt_default := None\<rparr>) sample_packet Udp (Deadline 5000000000)
    = io_lift (query_error_reply sample_query NameError)"
    by (simp add: answer_packet_def answer_query_def validate_forwardable sample_forwardable
        sample_query_def sample_table_def select_def find_route_def find_local_def)
  moreover have "query_error_reply sample_query NameError
      = (Ok (Some (error_reply sample_packet NameError)) :: (unit, u8 list option) result)"
    using packet_wf_cookie [OF client_query_wf [OF sample_client_query]]
    by (simp add: query_error_reply_def local_error_reply_eq sample_query_def query_of_def
        carries_server_cookie_def packet_cookie_def sample_packet_def)
  moreover have "without_recursion (error_reply sample_packet NameError)
      = (Ok ((error_reply sample_packet NameError)[3 := 3]) :: (unit, u8 list) result)"
    by (simp add: without_recursion_def index_def error_reply_def make_reply_bytes reply_header_def
        header_encode_def reply_flags_def sample_packet_def sample_header u16_to_be_bytes_def)
  ultimately show ?thesis
    by (simp add: respond_def respond_inner_def or_silent_def header_parse_eq sample_length sample_header
        header_message_type_def sample_parse io_match_lift)
      (simp add: run_simps or_silent_def has_upstreams_def sample_table_def idle_def tick_def)
qed

text \<open>C21: no reply to a response, which rules out reflection loops, and none to a message whose
  header is incomplete, whatever the rest of the environment does.\<close>

theorem respond_ignores:
  assumes "length wire < 12 \<or> header_message_type (header_of wire) = MessageResponse"
  shows "fst (respond t wire tr dl w) = None \<or> fst (respond t wire tr dl w) = Some (Ok None)"
  using assms
  by (auto simp: respond_def respond_inner_def or_silent_def header_parse_eq io_match_lift run_simps
      split: list.splits)

theorem respond_ignores_witness:
  "fst (respond sample_table [0, 1, 2] Tcp (Deadline 9) (idle [tick])) = Some (Ok None)"
  using respond_ignores [of "[0, 1, 2]" sample_table Tcp "Deadline 9" "idle [tick]"]
  by (auto simp: respond_def respond_inner_def or_silent_def header_parse_eq io_match_lift run_simps
      idle_def tick_def)

end
