(* ===== verification/Composition.thy ===== *)
theory Composition
  imports Forwarding
begin

text \<open>
  Requests in sequence. A run only appends to the log of actions and never reads it, so what is
  proved of a run from an empty log holds of the same run in the middle of a worker's life: the
  worker's earlier requests change nothing but the cached connection. Nor does a run give
  observations back. \<open>orderly\<close> is both, carried through every run of the forwarder and the handler;
  \<open>adds\<close> says which actions a run adds to the log. The properties of a request, at any point of a
  worker's life, are at the end.
\<close>

section \<open>The log is only appended to\<close>

definition logged :: "action list \<Rightarrow> 'z env_scheme \<Rightarrow> 'z env_scheme" where
  "logged l w = w\<lparr>performed := l @ performed w\<rparr>"

lemma logged_simps [simp]:
  "script (logged l w) = script w" "checked (logged l w) = checked w"
  "connections (logged l w) = connections w" "performed (logged l w) = l @ performed w"
  "(logged l w)\<lparr>script := x\<rparr> = logged l (w\<lparr>script := x\<rparr>)"
  "(logged l w)\<lparr>checked := c\<rparr> = logged l (w\<lparr>checked := c\<rparr>)"
  "(logged l w)\<lparr>connections := n\<rparr> = logged l (w\<lparr>connections := n\<rparr>)"
  "(logged l w)\<lparr>performed := l @ performed w @ [a]\<rparr> = logged l (w\<lparr>performed := performed w @ [a]\<rparr>)"
  by (simp_all add: logged_def)

lemma logged_cache [simp]:
  "tcp_cache (logged l w) = tcp_cache w" "(logged l w)\<lparr>tcp_cache := c\<rparr> = logged l (w\<lparr>tcp_cache := c\<rparr>)"
  by (simp_all add: logged_def)

definition ord_at :: "('e, 'a, 'z) io \<Rightarrow> 'z env_scheme \<Rightarrow> action list \<Rightarrow> bool" where
  "ord_at m w l \<longleftrightarrow> m (logged l w) = map_prod id (logged l) (m w) \<and> left (snd (m w)) \<le> left w"

definition orderly :: "('e, 'a, 'z) io \<Rightarrow> bool" where
  "orderly m \<longleftrightarrow> (\<forall>w l. ord_at m w l)"

named_theorems ord_intros "rules that show runs orderly"

lemma ord_at_bind:
  "ord_at m w l \<Longrightarrow> (\<And>x v. m w = (Some (Ok x), v) \<Longrightarrow> ord_at (f x) v l) \<Longrightarrow> ord_at (io_bind m f) w l"
  by (auto simp: ord_at_def io_bind_def split: prod.splits option.splits result.splits)

lemma ord_at_match:
  "ord_at m w l \<Longrightarrow> (\<And>x v. m w = (Some (Ok x), v) \<Longrightarrow> ord_at (f x) v l)
     \<Longrightarrow> (\<And>e v. m w = (Some (Err e), v) \<Longrightarrow> ord_at (g e) v l) \<Longrightarrow> ord_at (io_match m f g) w l"
  by (auto simp: ord_at_def io_match_def split: prod.splits option.splits result.splits)

lemma orderly_at: "orderly m \<Longrightarrow> ord_at m w l"
  by (simp add: orderly_def)

lemma ord_bind [ord_intros]: "orderly m \<Longrightarrow> (\<And>x. orderly (f x)) \<Longrightarrow> orderly (io_bind m f)"
  by (simp add: orderly_def ord_at_bind)

lemma ord_match [ord_intros]:
  "orderly m \<Longrightarrow> (\<And>x. orderly (f x)) \<Longrightarrow> (\<And>e. orderly (g e)) \<Longrightarrow> orderly (io_match m f g)"
  by (simp add: orderly_def ord_at_match)

lemma ord_pure [ord_intros]: "orderly (io_ok x)" "orderly (io_err e)" "orderly (io_lift r)"
  by (simp_all add: orderly_def ord_at_def io_ok_def io_err_def io_lift_def)

lemma ord_map_err [ord_intros]: "orderly m \<Longrightarrow> orderly (io_map_err g m)"
  unfolding io_map_err_def by (intro ord_intros)

lemma ord_prims [ord_intros]: "orderly observe" "orderly (perform a)"
  by (auto simp: orderly_def ord_at_def observe_def perform_def left_def split: list.split)

lemma ord_warn [ord_intros]: "orderly (warn m)"
  unfolding warn_def by (intro ord_intros)

lemma ord_syscall [ord_intros]: "orderly syscall"
  unfolding syscall_def by (intro ord_intros) (auto intro: ord_intros split: io_outcome.split)

lemma ord_now [ord_intros]: "orderly now"
  unfolding now_def by (intro ord_intros)

lemma ord_update [ord_intros]:
  "(\<And>l w. f (logged l w) = logged l (f w)) \<Longrightarrow> (\<And>w. script (f w) = script w) \<Longrightarrow>
     orderly (\<lambda>w. (Some (Ok (x :: 'a)), f w))"
  by (simp add: orderly_def ord_at_def left_def)

lemma ord_state:
  "(\<And>v. orderly (m v)) \<Longrightarrow> (\<And>l w. m (logged l w) = m w) \<Longrightarrow> orderly (\<lambda>w. m w w)"
  by (simp add: orderly_def ord_at_def)

lemma ord_step:
  "(\<And>v. orderly (m v)) \<Longrightarrow> (\<And>l w. m (logged l w) = m w) \<Longrightarrow> (\<And>l w. f (logged l w) = logged l (f w))
     \<Longrightarrow> (\<And>w. script (f w) = script w) \<Longrightarrow> orderly (\<lambda>w. m w (f w))"
  unfolding orderly_def ord_at_def by (metis left_def)

lemma ord_set_timeout [ord_intros]: "orderly (set_timeout d)"
  unfolding set_timeout_def by (auto intro!: ord_intros)

lemma ord_tcp_connect [ord_intros]: "orderly (tcp_connect a d)"
proof -
  have "orderly (\<lambda>w. (Some (Ok (TcpStream a (connections w))), w\<lparr>connections := connections w + 1\<rparr>))"
    by (simp add: orderly_def ord_at_def)
  then show ?thesis unfolding tcp_connect_def by (auto intro!: ord_intros)
qed

lemma ord_tcp_read [ord_intros]: "orderly (tcp_read s n)"
  unfolding tcp_read_def by (intro ord_intros)

lemma ord_tcp_write [ord_intros]: "orderly (tcp_write s bytes)"
  unfolding tcp_write_def Let_def
  by (intro ord_intros, rule ord_state) (auto intro!: ord_intros)

lemma ord_udp [ord_intros]: "orderly (udp_send a bytes)" "orderly (udp_recv n)"
  unfolding udp_send_def [abs_def] udp_recv_def
  by (rule ord_state) (auto intro!: ord_intros)

lemma ord_remaining [ord_intros]: "orderly (remaining dl)"
  unfolding remaining_def by (auto intro!: ord_intros)

lemma ord_deadlines [ord_intros]: "orderly (deadline_after d)" "orderly (capped dl d)"
  unfolding deadline_after_def capped_def by (intro ord_intros)+


section \<open>Loops\<close>

lemma read_loop_eq:
  "read_loop s n bytes dl =
     (if length bytes < n then
        io_bind (remaining dl) (\<lambda>left_over.
        io_bind (set_timeout (min left_over IO_POLL)) (\<lambda>_.
        io_match (tcp_read s (n - length bytes))
          (\<lambda>chunk.
             if chunk = [] \<and> bytes = [] then io_ok None
             else if chunk = [] then io_err (Custom UnexpectedEof ''partial TCP frame'')
             else read_loop s n (bytes @ chunk) dl)
          (\<lambda>e. if transient e then read_loop s n bytes dl else io_err e)))
      else io_bind (remaining dl) (\<lambda>_. io_ok (Some bytes)))"
  by (rule ext, subst read_loop.simps)
    (auto simp: fun_eq_iff if_distribR intro!: io_bind_cong io_match_cong)

lemma write_loop_eq:
  "write_loop s frame offset dl =
     (if offset < length frame then
        io_bind (remaining dl) (\<lambda>left_over.
        io_bind (set_timeout (min left_over IO_POLL)) (\<lambda>_.
        io_match (tcp_write s (drop offset frame))
          (\<lambda>count.
             if count = 0 then io_err (Custom WriteZero ''TCP write returned zero'')
             else write_loop s frame (offset + count) dl)
          (\<lambda>e. if transient e then write_loop s frame offset dl else io_err e)))
      else io_bind (remaining dl) (\<lambda>_. io_ok ()))"
  by (rule ext, subst write_loop.simps)
    (auto simp: fun_eq_iff if_distribR intro!: io_bind_cong io_match_cong)

lemma udp_loop_eq:
  "udp_loop address ex invalid =
     io_bind (forward_remaining (ex_deadline ex)) (\<lambda>d.
     io_bind (io_map_err forward_error_from (set_timeout (min d IO_POLL))) (\<lambda>_.
     io_match (udp_recv MAX_MESSAGE_LENGTH)
       (\<lambda>bytes.
          io_bind (forward_remaining (ex_deadline ex)) (\<lambda>_.
          io_bind (io_lift (sent_matches_truncated (ex_sent ex) bytes)) (\<lambda>tc.
            if tc then tcp_exchange address ex
            else
              io_bind (io_lift (check_datagram (ex_sent ex) bytes)) (\<lambda>valid.
                case valid of
                  Some r \<Rightarrow> io_ok r
                | None \<Rightarrow>
                    if invalid + 1 = MAX_INVALID_RESPONSES then io_err Fwd_InvalidResponse
                    else
                      io_bind (if invalid + 1 = 1 then warn (Warn_Ignored address) else io_ok ())
                        (\<lambda>_. udp_loop address ex (invalid + 1))))))
       (\<lambda>e. if transient e then udp_loop address ex invalid
            else io_err (forward_error_from e))))"
  by (rule ext, subst udp_loop.simps)
    (auto simp: fun_eq_iff if_distribR intro!: io_bind_cong io_match_cong split: option.split)

lemmas ord_ats = orderly_at [OF ord_remaining] orderly_at [OF ord_set_timeout]
  orderly_at [OF ord_tcp_read] orderly_at [OF ord_tcp_write] orderly_at [OF ord_pure(1)]
  orderly_at [OF ord_pure(2)] orderly_at [OF ord_pure(3)] orderly_at [OF ord_udp(2)]
  orderly_at [OF ord_warn] orderly_at [OF ord_map_err [OF ord_set_timeout]]
  orderly_at [OF ord_map_err [OF ord_remaining]]

lemma ord_at_read_loop: "ord_at (read_loop s n bytes dl) w l"
proof (induction w arbitrary: bytes rule: measure_induct_rule [where f = left])
  case (less w)
  show ?case
    by (subst read_loop_eq)
      (auto intro!: ord_at_bind ord_at_match ord_ats less.IH
        dest!: remaining_left set_timeout_left tcp_read_left)
qed

lemma ord_at_write_loop: "ord_at (write_loop s frame offset dl) w l"
proof (induction w arbitrary: offset rule: measure_induct_rule [where f = left])
  case (less w)
  show ?case
    by (subst write_loop_eq)
      (auto intro!: ord_at_bind ord_at_match ord_ats less.IH
        dest!: remaining_left set_timeout_left tcp_write_left)
qed

lemma ord_frames [ord_intros]: "orderly (read_frame s dl)" "orderly (write_frame s wire dl)"
proof -
  have loops: "orderly (read_loop s n bytes dl)" "orderly (write_loop s frame offset dl)"
    for n bytes frame offset
    by (simp_all add: orderly_def ord_at_read_loop ord_at_write_loop)
  show "orderly (read_frame s dl)" "orderly (write_frame s wire dl)"
    unfolding read_frame_def read_exact_def write_frame_def Let_def
    by (auto intro!: ord_intros loops split: option.split)
qed

section \<open>The forwarder and the handler\<close>

lemma ord_forward_remaining [ord_intros]: "orderly (forward_remaining dl)"
  unfolding forward_remaining_def by (intro ord_intros)

lemma ord_transaction [ord_intros]: "orderly next_transaction_id" "orderly set_nodelay"
  unfolding next_transaction_id_def set_nodelay_def by (auto intro!: ord_intros)

lemma ord_expire_idle [ord_intros]: "orderly expire_idle"
  unfolding expire_idle_def [abs_def]
  by (rule ord_state) (auto intro!: ord_intros split: option.split)

lemma ord_streams [ord_intros]:
  "orderly (send_over_tcp ex stream)" "orderly (fresh_stream address ex)"
  "orderly (cache_stream address stream r)"
  unfolding send_over_tcp_def fresh_stream_def cache_stream_def
  by (auto intro!: ord_intros split: option.split)

lemma ord_tcp_exchange [ord_intros]: "orderly (tcp_exchange address ex)"
  unfolding tcp_exchange_def Let_def
  by (intro ord_intros, rule ord_step) (auto intro!: ord_intros split: option.split)

lemma ord_at_udp_loop: "ord_at (udp_loop address ex invalid) w l"
proof (induction w arbitrary: invalid rule: measure_induct_rule [where f = left])
  case (less w)
  show ?case
    by (subst udp_loop_eq)
      (auto intro!: ord_at_bind ord_at_match ord_ats less.IH orderly_at [OF ord_tcp_exchange] simp: forward_remaining_def io_map_err_Ok io_lift_Ok io_ok_eq
        split: option.split
        dest!: remaining_left set_timeout_left udp_recv_left warn_Ok)
qed


lemma ord_udp_exchange [ord_intros]: "orderly (udp_exchange address ex)"
proof -
  have "orderly (udp_loop address ex invalid)" for invalid
    by (simp add: orderly_def ord_at_udp_loop)
  then show ?thesis unfolding udp_exchange_def by (intro ord_intros)
qed

lemma ord_attempt [ord_intros]: "orderly (attempt tr address ex)"
proof -
  have run: "orderly (run_exchange tr address ex)" for tr ex
    unfolding run_exchange_def by (cases tr) (auto intro: ord_intros)
  have again: "orderly (retry_exchange ex wire)" for ex wire
    unfolding retry_exchange_def by (intro ord_intros)
  have tcp: "orderly (retry_over_tcp address ex wire)" for ex wire
    unfolding retry_over_tcp_def by (intro ord_intros again)
  have rewritten: "orderly (retry_rewritten address again tr)" for again tr
    unfolding retry_rewritten_def by (auto intro!: ord_intros run tcp split: server_cookie_retry.split)
  show ?thesis
    unfolding attempt_def finish_badcookie_def
    by (auto intro!: ord_intros run again tcp rewritten split: server_cookie_retry.split)
qed

lemma ord_forward [ord_intros]: "orderly (forward q g tr dl)"
proof -
  have "orderly (forward_loop q tr dl servers e relayed)" for servers e relayed
    by (induction servers arbitrary: e relayed)
      (auto intro!: ord_intros simp: Let_def split: option.split)
  then show ?thesis unfolding forward_def .
qed

lemma ord_respond [ord_intros]: "orderly (respond t wire tr dl)"
proof -
  have silent: "orderly m \<Longrightarrow> orderly (or_silent dl m)" for m
    unfolding or_silent_def by (intro ord_intros)
  have suppress: "orderly (suppressible r)" for r
    unfolding suppressible_def by (auto intro!: ord_intros)
  have relay: "orderly (relay q tr dl g)" for q g
    unfolding relay_def by (auto intro!: ord_intros silent suppress simp del: io_bind_lift)
  have "orderly (answer_packet t p tr dl)" for p
    unfolding answer_packet_def answer_query_def
    by (auto intro!: ord_intros suppress relay split: query_decision.split selection.split)
  then have "orderly (respond_inner t wire tr dl)"
    unfolding respond_inner_def by (auto intro!: ord_intros silent)
  then show ?thesis
    unfolding respond_def by (auto intro!: ord_intros silent split: option.split)
qed


section \<open>What a run adds to the log\<close>

definition adds :: "(action \<Rightarrow> bool) \<Rightarrow> 'z env_scheme \<Rightarrow> 'z env_scheme \<Rightarrow> bool" where
  "adds P w v \<longleftrightarrow> (\<exists>xs. performed v = performed w @ xs \<and> list_all P xs) \<and> env.more v = env.more w"

lemma adds_refl [simp]: "adds P w w"
  by (simp add: adds_def)

lemma adds_quiet: "quiet dl w v \<Longrightarrow> adds P w v"
  by (simp add: adds_def quiet_def)

lemma adds_trans: "adds P w u \<Longrightarrow> adds P u v \<Longrightarrow> adds P w v"
  by (auto simp: adds_def)

lemma adds_perform: "quiet dl w u \<Longrightarrow> P a \<Longrightarrow> adds P w (u\<lparr>performed := performed u @ [a]\<rparr>)"
  by (cases u) (auto simp: adds_def quiet_def)

lemma read_loop_adds:
  "(\<And>b. P (Act_Read s b)) \<Longrightarrow> wp (read_loop s n bytes dl) (\<lambda>_. adds P w) (\<lambda>_. adds P w) (adds P w) w"
proof (induction w arbitrary: bytes rule: measure_induct_rule [where f = left])
  case (less w)
  have more: "wp (read_loop s n bs dl) (\<lambda>_. adds P w) (\<lambda>_. adds P w) (adds P w) u"
    if "left u < left w" "adds P w u" for bs u
    by (rule wp_mono [OF less.IH [OF that(1) less.prems]]) (auto intro: adds_trans [OF that(2)])
  show ?case
  proof (cases "length bytes < n")
    case True
    show ?thesis
      by (subst wp_read_loop, subst if_P [OF True], subst wp_tcp_read, rule wp_poll)
        (auto intro!: more adds_perform less.prems intro: adds_quiet)
  next
    case False
    show ?thesis
      by (subst wp_read_loop, subst if_not_P [OF False], rule wp_remaining_quiet) (auto intro: adds_quiet)
  qed
qed

lemma write_loop_adds:
  "(\<And>b c. P (Act_Write s b c)) \<Longrightarrow>
     wp (write_loop s frame offset dl) (\<lambda>_. adds P w) (\<lambda>_. adds P w) (adds P w) w"
proof (induction w arbitrary: offset rule: measure_induct_rule [where f = left])
  case (less w)
  have more: "wp (write_loop s frame i dl) (\<lambda>_. adds P w) (\<lambda>_. adds P w) (adds P w) u"
    if "left u < left w" "adds P w u" for i u
    by (rule wp_mono [OF less.IH [OF that(1) less.prems]]) (auto intro: adds_trans [OF that(2)])
  show ?case
  proof (cases "offset < length frame")
    case True
    show ?thesis
      by (subst wp_write_loop, subst if_P [OF True], subst wp_tcp_write, rule wp_poll)
        (auto simp: Let_def intro!: more adds_perform less.prems intro: adds_quiet)
  next
    case False
    show ?thesis
      by (subst wp_write_loop, subst if_not_P [OF False], rule wp_remaining_quiet) (auto intro: adds_quiet)
  qed
qed

lemma read_frame_adds:
  assumes "\<And>b. P (Act_Read s b)"
  shows "wp (read_frame s dl) (\<lambda>_. adds P w) (\<lambda>_. adds P w) (adds P w) w"
proof -
  have exact: "wp (read_exact s n dl) (\<lambda>_. adds P u) (\<lambda>_. adds P u) (adds P u) u" for n u
    unfolding read_exact_def by (rule read_loop_adds) (rule assms)
  have body: "wp (read_exact s n dl) (\<lambda>body. wp (case body of
        None \<Rightarrow> io_err (Custom UnexpectedEof ''missing TCP frame body'')
      | Some wire \<Rightarrow> io_ok (Some wire)) (\<lambda>_. adds P w) (\<lambda>_. adds P w) (adds P w))
      (\<lambda>_. adds P w) (adds P w) u" if "adds P w u" for n u
    by (rule wp_mono [OF exact]) (auto simp: wp_simps intro: adds_trans [OF that] split: option.split)
  show ?thesis
    unfolding read_frame_def wp_bind
    by (intro wp_mono [OF exact]) (auto simp: wp_simps Let_def intro!: body split: option.split)
qed

lemma write_frame_adds:
  assumes "\<And>b c. P (Act_Write s b c)"
  shows "wp (write_frame s wire dl) (\<lambda>_. adds P w) (\<lambda>_. adds P w) (adds P w) w"
  by (auto simp: write_frame_def wp_simps intro: write_loop_adds assms)

section \<open>A request in the middle of a worker's life\<close>



lemma orderly_run:
  assumes "orderly m" and "m w = (r, v)"
  shows "\<exists>u. m (w\<lparr>performed := []\<rparr>) = (r, u) \<and> v = logged (performed w) u"
proof -
  have "w = logged (performed w) (w\<lparr>performed := []\<rparr>)" by (simp add: logged_def)
  then have "m w = map_prod id (logged (performed w)) (m (w\<lparr>performed := []\<rparr>))"
    using assms(1) unfolding orderly_def ord_at_def by metis
  then show ?thesis using assms(2) by (cases "m (w\<lparr>performed := []\<rparr>)") auto
qed

lemma orderly_left: "orderly m \<Longrightarrow> m w = (r, v) \<Longrightarrow> left v \<le> left w"
  unfolding orderly_def ord_at_def by (metis snd_conv)

lemma respond_request:
  assumes "cache_ok w" and "respond t wire tr dl w = (r, v)"
  shows "cache_ok v"
    and "\<exists>xs. performed v = performed w @ xs \<and> list_all (permitted t wire (expiry dl)) xs"
    and "r = None \<or> (\<exists>reply. r = Some (Ok reply) \<and> replies wire tr reply)"
proof -
  let ?w = "w\<lparr>performed := []\<rparr>"
  have w: "cache_ok ?w" "performed ?w = []" using assms(1) by (simp_all add: cache_ok_def)
  obtain u where u: "respond t wire tr dl ?w = (r, u)" "v = logged (performed w) u"
    using orderly_run [OF ord_respond assms(2)] by blast
  obtain q where q: "policy_query wire q" using policy_query_exists by blast
  show "cache_ok v"
    using respond_ends [OF w q u(1)] u(2) by (simp add: begun_def cache_ok_def)
  show "\<exists>xs. performed v = performed w @ xs \<and> list_all (permitted t wire (expiry dl)) xs"
    using respond_actions [OF w, of t wire dl tr] u by simp
  show "r = None \<or> (\<exists>reply. r = Some (Ok reply) \<and> replies wire tr reply)"
    using respond_fresh [OF w q, of t tr dl] u(1)
    by (cases r) (auto simp: wp_def split: result.splits)
qed

section \<open>Properties of requests\<close>





text \<open>C20: a program with no upstreams never claims recursion: whatever reply it gives has RA clear.\<close>

theorem respond_clears_recursion:
  assumes "cache_ok w" and "\<not> has_upstreams t" and "respond t wire tr dl w = (Some (Ok (Some x)), v)"
  shows "hd_flags (header_of x) AND 0x0080 = 0"
proof -
  obtain u where "respond t wire tr dl (w\<lparr>performed := []\<rparr>) = (Some (Ok (Some x)), u)"
    using orderly_run [OF ord_respond assms(3)] by blast
  then show ?thesis
    using respond_recursion [of "w\<lparr>performed := []\<rparr>" t wire tr dl x] assms(1,2) by (simp add: cache_ok_def)
qed

theorem respond_clears_recursion_witness:
  "hd_flags (header_of ((error_reply sample_packet NameError)[3 := 3])) AND 0x0080 = 0"
proof -
  obtain v where v: "respond (sample_table\<lparr>rt_default := None\<rparr>) sample_wire Udp (Deadline 5000000000) (idle [tick, tick]) =
      (Some (Ok (Some ((error_reply sample_packet NameError)[3 := 3]))), v)"
    using sample_nxdomain by (metis prod.collapse)
  show ?thesis
    by (rule respond_clears_recursion [OF _ _ v]) (simp_all add: has_upstreams_def sample_table_def)
qed

end
