(* ===== verification/Net_Parse.thy ===== *)
theory Net_Parse
  imports Routing
begin

text \<open>
  The text forms of addresses that \<^verbatim>\<open>src/config.rs\<close> reads with the standard library's
  \<^verbatim>\<open>str::parse\<close> (\<^verbatim>\<open>core::net\<close>: \<^verbatim>\<open>Ipv4Addr\<close>, \<^verbatim>\<open>Ipv6Addr\<close>, \<^verbatim>\<open>IpAddr\<close>, \<^verbatim>\<open>SocketAddr\<close>) and
  \<^verbatim>\<open>i32::from_str_radix\<close>. A reader takes the text that is left and returns a value with the text
  after it, or \<open>None\<close> having consumed nothing.

  Proved here: a number that is read is in the range of its integer type.
\<close>

type_synonym 'a reader = "string \<Rightarrow> ('a \<times> string) option"

section \<open>Digits and numbers\<close>

text \<open>\<^verbatim>\<open>char::to_digit\<close> for radix up to 36.\<close>

definition char_value :: "char \<Rightarrow> int option" where
  "char_value c =
     (let n = of_char c :: int in
      if 48 \<le> n \<and> n \<le> 57 then Some (n - 48)
      else if 97 \<le> n \<and> n \<le> 122 then Some (n - 97 + 10)
      else if 65 \<le> n \<and> n \<le> 90 then Some (n - 65 + 10)
      else None)"

definition to_digit :: "int \<Rightarrow> char \<Rightarrow> int option" where
  "to_digit radix c =
     (case char_value c of Some d \<Rightarrow> if d < radix then Some d else None | None \<Rightarrow> None)"

text \<open>The longest run of digits, and what follows it.\<close>

fun read_digits :: "int \<Rightarrow> string \<Rightarrow> int list \<times> string" where
  "read_digits radix [] = ([], [])"
| "read_digits radix (c # cs) =
     (case to_digit radix c of
        None \<Rightarrow> ([], c # cs)
      | Some d \<Rightarrow> (case read_digits radix cs of (ds, rest) \<Rightarrow> (d # ds, rest)))"

definition digits_value :: "int \<Rightarrow> int list \<Rightarrow> int" where
  "digits_value radix ds = foldl (\<lambda>v d. v * radix + d) 0 ds"

text \<open>
  \<^verbatim>\<open>read_number\<close>: \<open>max_digits\<close> bounds the digits of octets and groups, \<open>bound\<close> is one more than the
  largest value of the integer type.
\<close>

definition read_number :: "int \<Rightarrow> nat option \<Rightarrow> bool \<Rightarrow> int \<Rightarrow> int reader" where
  "read_number radix max_digits allow_zero_prefix bound text =
     (case read_digits radix text of
        (ds, rest) \<Rightarrow>
          if ds = [] then None
          else if (case max_digits of Some m \<Rightarrow> length ds > m | None \<Rightarrow> False) then None
          else if \<not> allow_zero_prefix \<and> hd ds = 0 \<and> length ds > 1 then None
          else if digits_value radix ds < bound then Some (digits_value radix ds, rest)
          else None)"

definition read_given_char :: "char \<Rightarrow> unit reader" where
  "read_given_char c text =
     (case text of [] \<Rightarrow> None | x # rest \<Rightarrow> if x = c then Some ((), rest) else None)"

definition read_separator :: "char \<Rightarrow> nat \<Rightarrow> 'a reader \<Rightarrow> 'a reader" where
  "read_separator sep i inner text =
     (if i > 0 then (case read_given_char sep text of None \<Rightarrow> None | Some (_, rest) \<Rightarrow> inner rest)
      else inner text)"

section \<open>Addresses\<close>

fun read_octets :: "nat \<Rightarrow> nat \<Rightarrow> int list reader" where
  "read_octets i 0 text = Some ([], text)"
| "read_octets i (Suc n) text =
     (case read_separator (CHR ''.'') i (read_number 10 (Some 3) False 256) text of
        None \<Rightarrow> None
      | Some (x, rest) \<Rightarrow>
          (case read_octets (Suc i) n rest of None \<Rightarrow> None | Some (xs, r) \<Rightarrow> Some (x # xs, r)))"

definition read_ipv4_addr :: "ipv4_addr reader" where
  "read_ipv4_addr text =
     (case read_octets 0 4 text of
        None \<Rightarrow> None
      | Some (xs, rest) \<Rightarrow> Some (of_int (digits_value 256 xs), rest))"

text \<open>\<^verbatim>\<open>read_groups\<close>: up to \<open>n\<close> more groups after \<open>i\<close>, and whether an IPv4 part ended them.\<close>

fun read_groups :: "nat \<Rightarrow> nat \<Rightarrow> string \<Rightarrow> int list \<times> bool \<times> string" where
  "read_groups i 0 text = ([], False, text)"
| "read_groups i (Suc n) text =
     (case (if n > 0 then read_separator (CHR '':'') i read_ipv4_addr text else None) of
        Some (v4, rest) \<Rightarrow> ([uint v4 div 65536, uint v4 mod 65536], True, rest)
      | None \<Rightarrow>
          (case read_separator (CHR '':'') i (read_number 16 (Some 4) True 65536) text of
             None \<Rightarrow> ([], False, text)
           | Some (g, rest) \<Rightarrow>
               (case read_groups (Suc i) n rest of (gs, v4, r) \<Rightarrow> (g # gs, v4, r))))"

definition groups_addr :: "int list \<Rightarrow> ipv6_addr" where
  "groups_addr gs = of_int (digits_value 65536 gs)"

definition read_ipv6_addr :: "ipv6_addr reader" where
  "read_ipv6_addr text =
     (case read_groups 0 8 text of
        (head, v4, rest) \<Rightarrow>
          if length head = 8 then Some (groups_addr head, rest)
          else if v4 then None
          else
            (case read_given_char (CHR '':'') rest of
               None \<Rightarrow> None
             | Some (_, rest) \<Rightarrow>
                 (case read_given_char (CHR '':'') rest of
                    None \<Rightarrow> None
                  | Some (_, rest) \<Rightarrow>
                      (case read_groups 0 (8 - (length head + 1)) rest of
                         (tail, _, rest) \<Rightarrow>
                           Some (groups_addr (head @ replicate (8 - length head - length tail) 0 @ tail),
                             rest)))))"

definition read_ip_addr :: "ip_addr reader" where
  "read_ip_addr text =
     (case read_ipv4_addr text of
        Some (a, rest) \<Rightarrow> Some (IpV4 a, rest)
      | None \<Rightarrow> (case read_ipv6_addr text of Some (a, rest) \<Rightarrow> Some (IpV6 a, rest) | None \<Rightarrow> None))"

definition read_port :: "int reader" where
  "read_port text =
     (case read_given_char (CHR '':'') text of
        None \<Rightarrow> None
      | Some (_, rest) \<Rightarrow> read_number 10 None True 65536 rest)"

definition read_scope_id :: "int reader" where
  "read_scope_id text =
     (case read_given_char (CHR ''%'') text of
        None \<Rightarrow> None
      | Some (_, rest) \<Rightarrow> read_number 10 None True 4294967296 rest)"

definition read_socket_addr_v4 :: "socket_addr reader" where
  "read_socket_addr_v4 text =
     (case read_ipv4_addr text of
        None \<Rightarrow> None
      | Some (a, rest) \<Rightarrow>
          (case read_port rest of None \<Rightarrow> None | Some (p, rest) \<Rightarrow> Some (SocketV4 a (of_int p), rest)))"

definition read_socket_addr_v6 :: "socket_addr reader" where
  "read_socket_addr_v6 text =
     (case read_given_char (CHR ''['') text of
        None \<Rightarrow> None
      | Some (_, rest) \<Rightarrow>
          (case read_ipv6_addr rest of
             None \<Rightarrow> None
           | Some (a, rest) \<Rightarrow>
               (case (case read_scope_id rest of Some s \<Rightarrow> s | None \<Rightarrow> (0, rest)) of
                  (scope, rest) \<Rightarrow>
                    (case read_given_char (CHR '']'') rest of
                       None \<Rightarrow> None
                     | Some (_, rest) \<Rightarrow>
                         (case read_port rest of
                            None \<Rightarrow> None
                          | Some (p, rest) \<Rightarrow> Some (SocketV6 a (of_int p) 0 (of_int scope), rest))))))"

definition read_socket_addr :: "socket_addr reader" where
  "read_socket_addr text =
     (case read_socket_addr_v4 text of Some r \<Rightarrow> Some r | None \<Rightarrow> read_socket_addr_v6 text)"

text \<open>\<^verbatim>\<open>parse_with\<close>: the whole text must be consumed.\<close>

definition parse_with :: "'a reader \<Rightarrow> string \<Rightarrow> 'a option" where
  "parse_with r text = (case r text of Some (x, []) \<Rightarrow> Some x | _ \<Rightarrow> None)"

definition parse_ipv4_addr :: "string \<Rightarrow> ipv4_addr option" where
  "parse_ipv4_addr text = (if length text > 15 then None else parse_with read_ipv4_addr text)"

definition parse_ipv6_addr :: "string \<Rightarrow> ipv6_addr option" where
  "parse_ipv6_addr = parse_with read_ipv6_addr"

definition parse_ip_addr :: "string \<Rightarrow> ip_addr option" where
  "parse_ip_addr = parse_with read_ip_addr"

definition parse_socket_addr :: "string \<Rightarrow> socket_addr option" where
  "parse_socket_addr = parse_with read_socket_addr"

section \<open>Signed numbers\<close>

fun all_digits :: "int \<Rightarrow> string \<Rightarrow> int list option" where
  "all_digits radix [] = Some []"
| "all_digits radix (c # cs) =
     (case (to_digit radix c, all_digits radix cs) of
        (Some d, Some ds) \<Rightarrow> Some (d # ds)
      | _ \<Rightarrow> None)"

definition i32_from_str_radix :: "string \<Rightarrow> int \<Rightarrow> int option" where
  "i32_from_str_radix text radix =
     (let negative = (text \<noteq> [] \<and> hd text = CHR ''-'');
          body = (if text \<noteq> [] \<and> (hd text = CHR ''-'' \<or> hd text = CHR ''+'') then tl text else text) in
      if body = [] then None
      else
        (case all_digits radix body of
           None \<Rightarrow> None
         | Some ds \<Rightarrow>
             (let v = (if negative then - digits_value radix ds else digits_value radix ds) in
              if - (2 ^ 31) \<le> v \<and> v < 2 ^ 31 then Some v else None)))"

section \<open>Ranges\<close>

lemma to_digit_range: "to_digit radix c = Some d \<Longrightarrow> 0 \<le> d \<and> d < radix"
  by (auto simp: to_digit_def char_value_def Let_def split: option.splits if_splits)

lemma read_digits_range: "read_digits radix s = (ds, rest) \<Longrightarrow> \<forall>d \<in> set ds. 0 \<le> d"
  by (induction s arbitrary: ds) (auto split: option.splits prod.splits dest: to_digit_range)

lemma digits_value_nonneg: "0 \<le> radix \<Longrightarrow> \<forall>d \<in> set ds. 0 \<le> d \<Longrightarrow> 0 \<le> digits_value radix ds"
proof -
  assume "0 \<le> radix"
  have "0 \<le> v \<Longrightarrow> \<forall>d \<in> set ds. 0 \<le> d \<Longrightarrow> 0 \<le> foldl (\<lambda>v d. v * radix + d) v ds" for v
    using \<open>0 \<le> radix\<close> by (induction ds arbitrary: v) auto
  then show "\<forall>d \<in> set ds. 0 \<le> d \<Longrightarrow> 0 \<le> digits_value radix ds" by (simp add: digits_value_def)
qed

lemma read_number_range:
  "read_number radix m z bound text = Some (n, rest) \<Longrightarrow> 0 \<le> radix \<Longrightarrow> 0 \<le> n \<and> n < bound"
  by (auto simp: read_number_def digits_value_nonneg dest: read_digits_range split: prod.splits if_splits)

lemma i32_from_str_radix_range:
  "i32_from_str_radix text radix = Some n \<Longrightarrow> - (2 ^ 31) \<le> n \<and> n < 2 ^ 31"
  by (auto simp: i32_from_str_radix_def Let_def split: option.splits if_splits)

end
