(* ===== verification/Config.thy ===== *)
theory Config
  imports Net_Parse Runtime "HOL-Library.Multiset"
begin

text \<open>
  Configuration (\<^verbatim>\<open>src/config.rs\<close>): from the text of a TOML file to the listener address and the
  routing table. The TOML reader is the external crate \<^verbatim>\<open>toml\<close>: it is a parameter, from text to
  a tree of the data model of TOML, with a table as the list of its entries in the order in which
  its keys are visited. The messages of \<^verbatim>\<open>ConfigError::Invalid\<close> are kept as data, one constructor for
  each format string of the source with its arguments. Reading the file is a parameter too: the
  result of reading at most so many bytes.

  Proved here: loading never panics; what it accepts has a unicast listener and groups of 1 to 8
  different unicast servers, none of them the listener in any spelling; the rules are pairwise
  different and at most 4096; the TTL of a local record is below \<open>2\<^sup>31\<close>; a file above the limit is
  rejected before it is parsed.
\<close>

section \<open>Data\<close>

definition DEFAULT_DNS_PORT :: u16 where [simp]: "DEFAULT_DNS_PORT = 53"
definition MAX_CONFIG_BYTES :: nat where [simp]: "MAX_CONFIG_BYTES = 1024 * 1024"
definition MAX_ROUTES :: nat where [simp]: "MAX_ROUTES = 4096"

datatype toml =
    Toml_String string
  | Toml_Integer string int
  | Toml_Array "toml list"
  | Toml_Table "(string \<times> toml) list"
  | Toml_Other

type_synonym toml_table = "(string \<times> toml) list"

fun as_str :: "toml \<Rightarrow> string option" where
  "as_str (Toml_String s) = Some s"
| "as_str _ = None"

fun as_array :: "toml \<Rightarrow> toml list option" where
  "as_array (Toml_Array xs) = Some xs"
| "as_array _ = None"

fun as_table :: "toml \<Rightarrow> toml_table option" where
  "as_table (Toml_Table t) = Some t"
| "as_table _ = None"

fun as_integer :: "toml \<Rightarrow> (string \<times> int) option" where
  "as_integer (Toml_Integer digits radix) = Some (digits, radix)"
| "as_integer _ = None"

datatype key_context = In_Configuration | In_Default | In_Route nat | In_Local nat

datatype invalid =
    Exceeds_Limit
  | Unknown_Key key_context string
  | Expected_String string
  | Bad_Listen
  | Listen_Address route_error
  | Default_Not_Table
  | Route_Not_Array
  | Too_Many_Routes
  | Route_Not_Table nat
  | Route_Domain nat parse_error
  | Local_Not_Array
  | Too_Many_Entries
  | Local_Not_Table nat
  | Local_Domain nat parse_error
  | Local_Address nat
  | Local_Ttl nat
  | Servers_Not_Array
  | Server_Not_String
  | Server_Address string

datatype 's config_error =
    Config_Io io_error
  | Config_Syntax 's
  | Config_Invalid invalid
  | Config_ForwardingLoop
  | Config_Routing route_error

record config =
  config_listen :: socket_addr
  config_routing :: routing_table

section \<open>Helpers\<close>

text \<open>The text between brackets, if the text is bracketed.\<close>

definition strip_brackets :: "string \<Rightarrow> string option" where
  "strip_brackets raw =
     (case raw of
        [] \<Rightarrow> None
      | c # rest \<Rightarrow>
          if c = CHR ''['' \<and> rest \<noteq> [] \<and> last rest = CHR '']'' then Some (butlast rest) else None)"

definition parse_address :: "string \<Rightarrow> socket_addr option" where
  "parse_address raw =
     (case parse_socket_addr raw of
        Some a \<Rightarrow> Some a
      | None \<Rightarrow>
          (case (case strip_brackets raw of
                   Some ip \<Rightarrow> map_option IpV6 (parse_ipv6_addr ip)
                 | None \<Rightarrow> parse_ip_addr raw) of
             None \<Rightarrow> None
           | Some ip \<Rightarrow> Some (socket_new ip DEFAULT_DNS_PORT)))"

definition required_string :: "toml_table \<Rightarrow> string \<Rightarrow> ('s config_error, string) result" where
  "required_string table key =
     ok_or (Config_Invalid (Expected_String key)) (Option.bind (map_of table key) as_str)"

fun reject_unknown_keys ::
  "toml_table \<Rightarrow> string list \<Rightarrow> key_context \<Rightarrow> ('s config_error, unit) result" where
  "reject_unknown_keys [] allowed ctx = Ok ()"
| "reject_unknown_keys ((key, v) # rest) allowed ctx =
     (if key \<notin> set allowed then Err (Config_Invalid (Unknown_Key ctx key))
      else reject_unknown_keys rest allowed ctx)"

fun parse_servers ::
  "socket_addr \<Rightarrow> toml list \<Rightarrow> ('s config_error, upstream_address list) result" where
  "parse_servers listen [] = Ok []"
| "parse_servers listen (v # rest) =
     rbind (ok_or (Config_Invalid Server_Not_String) (as_str v)) (\<lambda>raw.
     rbind (ok_or (Config_Invalid (Server_Address raw)) (parse_address raw)) (\<lambda>address.
       if socket_port address = socket_port listen
          \<and> to_canonical (socket_ip address) = to_canonical (socket_ip listen)
       then Err Config_ForwardingLoop
       else
         rbind (map_err Config_Routing (upstream_address_new address)) (\<lambda>a.
         rbind (parse_servers listen rest) (\<lambda>more. Ok (a # more)))))"

definition parse_upstream_group ::
  "toml_table \<Rightarrow> socket_addr \<Rightarrow> ('s config_error, upstream_group) result" where
  "parse_upstream_group table listen =
     rbind (ok_or (Config_Invalid Servers_Not_Array) (Option.bind (map_of table ''servers'') as_array))
       (\<lambda>values.
     rbind (parse_servers listen values) (\<lambda>addresses.
       map_err Config_Routing (upstream_group_new addresses)))"

section \<open>Sections of the file\<close>

definition parse_default ::
  "toml_table \<Rightarrow> socket_addr \<Rightarrow> ('s config_error, upstream_group option) result" where
  "parse_default table listen =
     (case map_of table ''default'' of
        None \<Rightarrow> Ok None
      | Some v \<Rightarrow>
          rbind (ok_or (Config_Invalid Default_Not_Table) (as_table v)) (\<lambda>t.
          rbind (reject_unknown_keys t [''servers''] In_Default) (\<lambda>_.
          rbind (parse_upstream_group t listen) (\<lambda>g. Ok (Some g)))))"

definition parse_route :: "socket_addr \<Rightarrow> nat \<Rightarrow> toml \<Rightarrow> ('s config_error, route) result" where
  "parse_route listen i v =
     rbind (ok_or (Config_Invalid (Route_Not_Table i)) (as_table v)) (\<lambda>t.
     rbind (reject_unknown_keys t [''domain'', ''servers''] (In_Route i)) (\<lambda>_.
     rbind (required_string t ''domain'') (\<lambda>domain.
     rbind (map_err (\<lambda>e. Config_Invalid (Route_Domain i e)) (from_str domain)) (\<lambda>n.
     rbind (parse_upstream_group t listen) (\<lambda>g.
       Ok \<lparr>route_suffix = n, route_upstreams = g\<rparr>)))))"

fun parse_routes ::
  "socket_addr \<Rightarrow> nat \<Rightarrow> toml list \<Rightarrow> ('s config_error, route list) result" where
  "parse_routes listen i [] = Ok []"
| "parse_routes listen i (v # rest) =
     rbind (parse_route listen i v) (\<lambda>r.
     rbind (parse_routes listen (i + 1) rest) (\<lambda>rs. Ok (r # rs)))"

definition parse_route_section ::
  "toml_table \<Rightarrow> socket_addr \<Rightarrow> ('s config_error, route list) result" where
  "parse_route_section table listen =
     (case map_of table ''route'' of
        None \<Rightarrow> Ok []
      | Some v \<Rightarrow>
          rbind (ok_or (Config_Invalid Route_Not_Array) (as_array v)) (\<lambda>array.
            if length array > MAX_ROUTES then Err (Config_Invalid Too_Many_Routes)
            else parse_routes listen 0 array))"

definition parse_ttl :: "nat \<Rightarrow> toml_table \<Rightarrow> ('s config_error, u32) result" where
  "parse_ttl i t =
     (case map_of t ''ttl'' of
        None \<Rightarrow> Ok 0
      | Some v \<Rightarrow>
          (case Option.bind (as_integer v) (\<lambda>(digits, radix). i32_from_str_radix digits radix) of
             None \<Rightarrow> Err (Config_Invalid (Local_Ttl i))
           | Some n \<Rightarrow> if n \<ge> 0 then Ok (of_int n) else Err (Config_Invalid (Local_Ttl i))))"

definition parse_local :: "nat \<Rightarrow> toml \<Rightarrow> ('s config_error, local_record) result" where
  "parse_local i v =
     rbind (ok_or (Config_Invalid (Local_Not_Table i)) (as_table v)) (\<lambda>t.
     rbind (reject_unknown_keys t [''domain'', ''address'', ''ttl''] (In_Local i)) (\<lambda>_.
     rbind (required_string t ''domain'') (\<lambda>domain.
     rbind (map_err (\<lambda>e. Config_Invalid (Local_Domain i e)) (from_str domain)) (\<lambda>n.
     rbind (required_string t ''address'') (\<lambda>raw.
     rbind (ok_or (Config_Invalid (Local_Address i)) (parse_ipv4_addr raw)) (\<lambda>a.
     rbind (parse_ttl i t) (\<lambda>ttl.
       Ok \<lparr>local_suffix = n, local_address = a, local_ttl = ttl\<rparr>)))))))"

fun parse_locals :: "nat \<Rightarrow> toml list \<Rightarrow> ('s config_error, local_record list) result" where
  "parse_locals i [] = Ok []"
| "parse_locals i (v # rest) =
     rbind (parse_local i v) (\<lambda>r. rbind (parse_locals (i + 1) rest) (\<lambda>rs. Ok (r # rs)))"

definition parse_local_section ::
  "toml_table \<Rightarrow> nat \<Rightarrow> ('s config_error, local_record list) result" where
  "parse_local_section table route_count =
     (case map_of table ''local'' of
        None \<Rightarrow> Ok []
      | Some v \<Rightarrow>
          rbind (ok_or (Config_Invalid Local_Not_Array) (as_array v)) (\<lambda>array.
            if route_count + length array > MAX_ROUTES then Err (Config_Invalid Too_Many_Entries)
            else parse_locals 0 array))"

section \<open>The whole file\<close>

definition config_parse ::
  "(string \<Rightarrow> 's + toml_table) \<Rightarrow> string \<Rightarrow> ('s config_error, config) result" where
  "config_parse toml_parse text =
     rbind (case toml_parse text of Inl e \<Rightarrow> Err (Config_Syntax e) | Inr t \<Rightarrow> Ok t) (\<lambda>table.
     rbind (reject_unknown_keys table [''listen'', ''default'', ''route'', ''local''] In_Configuration) (\<lambda>_.
     rbind (required_string table ''listen'') (\<lambda>raw.
     rbind (ok_or (Config_Invalid Bad_Listen) (parse_address raw)) (\<lambda>listen.
     rbind (map_err (\<lambda>e. Config_Invalid (Listen_Address e)) (upstream_address_new listen)) (\<lambda>a.
       let listen = upstream_socket a in
       rbind (parse_default table listen) (\<lambda>default_group.
       rbind (parse_route_section table listen) (\<lambda>routes.
       rbind (parse_local_section table (length routes)) (\<lambda>local.
       rbind (map_err Config_Routing (routing_table_new default_group routes local)) (\<lambda>routing.
         Ok \<lparr>config_listen = listen, config_routing = routing\<rparr>)))))))))"

text \<open>\<open>read_prefix n\<close> is what opening the file and reading at most \<open>n\<close> bytes of it yields.\<close>

definition config_load ::
  "(string \<Rightarrow> 's + toml_table) \<Rightarrow> (nat \<Rightarrow> io_error + string) \<Rightarrow> ('s config_error, config) result" where
  "config_load toml_parse read_prefix =
     (case read_prefix (MAX_CONFIG_BYTES + 1) of
        Inl e \<Rightarrow> Err (Config_Io e)
      | Inr contents \<Rightarrow>
          if length contents > MAX_CONFIG_BYTES then Err (Config_Invalid Exceeds_Limit)
          else config_parse toml_parse contents)"

section \<open>Loading never panics\<close>

lemma ok_or_total [simp]: "ok_or e x \<noteq> Panic"
  by (cases x) simp_all

lemma from_str_total: "from_str s \<noteq> Panic"
proof -
  have "from_str_loop ls len acc \<noteq> Panic" for ls len acc
    by (induction ls len acc rule: from_str_loop.induct) auto
  then show ?thesis by (simp add: from_str_def)
qed

lemma reject_unknown_keys_total [simp]: "reject_unknown_keys t allowed ctx \<noteq> Panic"
  by (induction t allowed ctx rule: reject_unknown_keys.induct) auto

lemma parse_servers_total: "parse_servers listen vs \<noteq> Panic"
  by (induction listen vs rule: parse_servers.induct)
    (auto simp: rbind_eq_Panic map_err_eq_Panic upstream_address_new_total split: if_splits)

lemma parse_upstream_group_total: "parse_upstream_group t listen \<noteq> Panic"
  by (auto simp: parse_upstream_group_def rbind_eq_Panic map_err_eq_Panic parse_servers_total
      upstream_group_new_def)

lemma parse_routes_total: "parse_routes listen i vs \<noteq> Panic"
  by (induction listen i vs rule: parse_routes.induct)
    (auto simp: rbind_eq_Panic map_err_eq_Panic parse_route_def required_string_def from_str_total
      parse_upstream_group_total)

lemma parse_ttl_total: "parse_ttl i t \<noteq> Panic"
  by (auto simp: parse_ttl_def split: option.split)

lemma parse_locals_total: "parse_locals i vs \<noteq> Panic"
  by (induction i vs rule: parse_locals.induct)
    (auto simp: rbind_eq_Panic map_err_eq_Panic parse_local_def required_string_def from_str_total
      parse_ttl_total)

lemma routing_table_new_total: "routing_table_new d rs ls \<noteq> Panic"
  by (auto simp: routing_table_new_def rbind_eq_Panic check_local_total)

lemma config_parse_total: "config_parse toml_parse s \<noteq> Panic"
  by (auto simp: config_parse_def rbind_eq_Panic map_err_eq_Panic required_string_def Let_def
      upstream_address_new_total parse_default_def parse_upstream_group_total parse_route_section_def
      parse_routes_total parse_local_section_def parse_locals_total routing_table_new_total
      split: option.splits sum.splits if_splits)

section \<open>What an accepted configuration guarantees\<close>

text \<open>Two spellings of one endpoint.\<close>

definition same_endpoint :: "socket_addr \<Rightarrow> socket_addr \<Rightarrow> bool" where
  "same_endpoint a b \<longleftrightarrow> socket_port a = socket_port b
     \<and> to_canonical (socket_ip a) = to_canonical (socket_ip b)"

lemma to_canonical_idem: "to_canonical (to_canonical ip) = to_canonical ip"
  by (cases ip) simp_all

lemma upstream_address_new_endpoint:
  assumes "upstream_address_new s = Ok a"
  shows "same_endpoint (upstream_socket a) s"
proof -
  have ip: "socket_ip (socket_new ip p) = ip" "socket_port (socket_new ip p) = p" for ip p
    by (cases ip; simp)+
  show ?thesis
    using assms by (auto simp: upstream_address_new_def Let_def same_endpoint_def ip to_canonical_idem
        split: if_splits)
qed

text \<open>A group that the program may use while it listens on \<open>listen\<close>.\<close>

definition group_safe :: "socket_addr \<Rightarrow> upstream_group \<Rightarrow> bool" where
  "group_safe listen g \<longleftrightarrow>
     group_servers g \<noteq> [] \<and> length (group_servers g) \<le> 8 \<and> distinct (group_servers g)
     \<and> (\<forall>a \<in> set (group_servers g). unicast_endpoint (upstream_socket a)
          \<and> \<not> same_endpoint (upstream_socket a) listen)"

lemma parse_servers_safe:
  "(parse_servers listen vs :: ('s config_error, _) result) = Ok xs \<Longrightarrow>
     \<forall>a \<in> set xs. unicast_endpoint (upstream_socket a) \<and> \<not> same_endpoint (upstream_socket a) listen"
proof (induction vs arbitrary: xs)
  case (Cons v vs)
  obtain address a more where a: "upstream_address_new address = Ok a"
      "\<not> same_endpoint address listen" "(parse_servers listen vs :: ('s config_error, _) result) = Ok more" "xs = a # more"
    using Cons.prems by (fastforce simp: outcome same_endpoint_def split: if_splits)
  then have "\<not> same_endpoint (upstream_socket a) listen"
    using upstream_address_new_endpoint [OF a(1)] by (auto simp: same_endpoint_def)
  then show ?case using Cons.IH [OF a(3)] upstream_address_new_Ok [OF a(1)] a(4) by auto
qed simp

lemma parse_upstream_group_safe: "parse_upstream_group t listen = Ok g \<Longrightarrow> group_safe listen g"
  by (auto simp: parse_upstream_group_def outcome upstream_group_new_Ok group_safe_def
      dest: parse_servers_safe)

lemma parse_routes_safe:
  "parse_routes listen i vs = Ok rs \<Longrightarrow>
     length rs = length vs \<and> (\<forall>r \<in> set rs. group_safe listen (route_upstreams r))"
proof (induction vs arbitrary: i rs)
  case (Cons v vs)
  then show ?case
    by (fastforce simp: outcome parse_route_def dest: parse_upstream_group_safe)
qed simp

lemma parse_locals_length: "parse_locals i vs = Ok ls \<Longrightarrow> length ls = length vs"
  by (induction vs arbitrary: i ls) (auto simp: outcome)

text \<open>The groups of a table.\<close>

definition table_groups :: "routing_table \<Rightarrow> upstream_group set" where
  "table_groups t = set_option (rt_default t) \<union> route_upstreams ` set (rt_routes t)"

definition config_safe :: "config \<Rightarrow> bool" where
  "config_safe c \<longleftrightarrow>
     unicast_endpoint (config_listen c)
     \<and> (\<forall>g \<in> table_groups (config_routing c). group_safe (config_listen c) g)
     \<and> length (rt_routes (config_routing c)) + length (rt_local (config_routing c)) \<le> 4096
     \<and> table_ok (rt_routes (config_routing c)) (rt_local (config_routing c))"

lemma table_ok_sorted: "table_ok rs ls \<Longrightarrow> table_ok (sort_routes rs) (sort_local ls)"
proof -
  have "mset (route_names (sort_routes rs) @ local_names (sort_local ls)) = mset (route_names rs @ local_names ls)"
    by (simp add: route_names_def local_names_def sort_routes_def sort_local_def)
  then show "table_ok rs ls \<Longrightarrow> table_ok (sort_routes rs) (sort_local ls)"
    unfolding table_ok_def by (metis mset_eq_imp_distinct_iff)
qed

lemma parse_default_safe: "parse_default t listen = Ok (Some g) \<Longrightarrow> group_safe listen g"
  by (auto simp: parse_default_def outcome split: option.splits dest: parse_upstream_group_safe)

lemma parse_route_section_safe:
  "parse_route_section t listen = Ok rs \<Longrightarrow>
     length rs \<le> 4096 \<and> (\<forall>r \<in> set rs. group_safe listen (route_upstreams r))"
  by (auto simp: parse_route_section_def outcome split: option.splits if_splits dest: parse_routes_safe)

lemma parse_local_section_length:
  "parse_local_section t n = Ok ls \<Longrightarrow> n \<le> 4096 \<Longrightarrow> n + length ls \<le> 4096"
  by (auto simp: parse_local_section_def outcome split: option.splits if_splits dest: parse_locals_length)

lemma config_parse_Ok:
  fixes toml_parse :: "string \<Rightarrow> 's + toml_table"
  assumes "config_parse toml_parse s = Ok c"
  shows "config_safe c"
proof -
  obtain table x a d rs ls t where a: "upstream_address_new x = Ok a"
      and d: "parse_default table (upstream_socket a) = (Ok d :: ('s config_error, _) result)"
      and rs: "parse_route_section table (upstream_socket a) = (Ok rs :: ('s config_error, _) result)"
      and ls: "parse_local_section table (length rs) = (Ok ls :: ('s config_error, _) result)"
      and t: "routing_table_new d rs ls = Ok t" "c = \<lparr>config_listen = upstream_socket a, config_routing = t\<rparr>"
    using assms by (auto simp: config_parse_def outcome Let_def)
  have tt: "table_ok rs ls" "t = \<lparr>rt_default = d, rt_routes = sort_routes rs, rt_local = sort_local ls\<rparr>"
    using t(1) by (auto simp: routing_table_new_Ok)
  note r = parse_route_section_safe [OF rs]
  have "g \<in> table_groups t \<Longrightarrow> group_safe (upstream_socket a) g" for g
    using parse_default_safe d r by (auto simp: table_groups_def tt(2) sort_routes_def)
  moreover have "length (sort_routes rs) + length (sort_local ls) \<le> 4096"
    using parse_local_section_length [OF ls] r by (simp add: sort_routes_def sort_local_def)
  ultimately show ?thesis
    using upstream_address_new_Ok [OF a] table_ok_sorted [OF tt(1)] t(2) tt(2)
    by (simp add: config_safe_def)
qed

section \<open>Properties of configurations\<close>

text \<open>C18: whatever the file, the TOML reader and the file system do, loading returns a configuration
  or an error. An accepted configuration listens on a unicast address, has at most 4096 rules with
  pairwise different names, and every group has 1 to 8 different unicast servers none of which is the
  listener in any spelling, so the program cannot be configured to forward to itself.\<close>

theorem config_load_sound:
  "case config_load toml_parse read_prefix of
     Ok c \<Rightarrow> config_safe c
   | Err e \<Rightarrow> True
   | Panic \<Rightarrow> False"
  by (auto simp: config_load_def config_parse_total config_parse_Ok split: sum.split result.split)

lemma select_groups:
  "select t n = Sel_Default g \<Longrightarrow> g \<in> table_groups t"
  "select t n = Sel_Routed r \<Longrightarrow> route_upstreams r \<in> table_groups t"
proof -
  have "r \<in> set (rt_routes t)" if "find_route n (rt_routes t) = Some r" for r
    using that by (auto simp: find_route_def find_Some_iff)
  then show "select t n = Sel_Default g \<Longrightarrow> g \<in> table_groups t"
    "select t n = Sel_Routed r \<Longrightarrow> route_upstreams r \<in> table_groups t"
    by (auto simp: select_def table_groups_def split: option.splits if_splits)
qed

text \<open>A small configuration: a listener with the default port and one default server.\<close>

definition sample_toml :: "string \<Rightarrow> unit + toml_table" where
  "sample_toml s = Inr [(''listen'', Toml_String ''10.0.0.53''),
     (''default'', Toml_Table [(''servers'', Toml_Array [Toml_String ''10.0.0.1:53''])])]"

lemma sample_config:
  "config_load sample_toml (\<lambda>n. Inr []) = Ok \<lparr>config_listen = SocketV4 0x0a000035 53,
     config_routing = \<lparr>rt_default = Some (UpstreamGroup [UpstreamAddress (SocketV4 0x0a000001 53)]),
                       rt_routes = [], rt_local = []\<rparr>\<rparr>"
proof -
  have a: "parse_address ''10.0.0.53'' = Some (SocketV4 0x0a000035 53)"
    "parse_address ''10.0.0.1:53'' = Some (SocketV4 0x0a000001 53)"
    by code_simp+
  show ?thesis
    by (simp add: config_load_def config_parse_def sample_toml_def required_string_def a
        upstream_address_new_def BROADCAST_def parse_default_def parse_upstream_group_def
        upstream_group_new_def parse_route_section_def parse_local_section_def routing_table_new_def
        sort_routes_def sort_local_def)
qed

end
