(* ===== verification/Pool.thy ===== *)
theory Pool
  imports Runtime "HOL-Library.Multiset"
begin

text \<open>
  The worker pool (\<^verbatim>\<open>src/server/pool.rs\<close>): a bounded queue, its workers and its shutdown, as a
  transition system. One step is a critical section of the queue's lock, or one access to the stop
  flag outside of it; steps of the owner (the listener thread), of the workers and of the
  environment (a stop requested elsewhere, a poisoned lock) interleave. Inside a critical section
  only the stop flag can change, and the section reads it before it touches the queue, so the
  section acts as if it ran at its read. A worker's \<open>handle\<close> and \<open>maintain\<close> are steps that
  return or panic. The fields below the line of \<open>pool_accepted\<close> are history: jobs accepted by the
  queue, taken from it, cleared by a close, handled, and dropped after a stop, and the number of
  panics.

  Proved here: the queue is bounded and first-in first-out; every accepted job is in one place, so
  none is handled twice; a shutdown that succeeds means that all workers have ended without a
  panic and the queue is closed and empty; a stop starts no further handler and every worker ends
  within five steps of its own.
\<close>

section \<open>State\<close>

datatype 'j job_poll = Ready 'j | Idle | Stopped

datatype 'j worker =
    Checking
  | Maintaining
  | Polling
  | Awaiting
  | Got 'j
  | Handling 'j
  | Ending
  | Failing
  | Reporting
  | Done

datatype pool_result = Pool_Ok | Pool_TimedOut | Pool_Failed | Pool_Init io_error

datatype owner =
    Starting nat
  | Serving
  | Closing "io_error option"
  | Collecting "io_error option"
  | Returned pool_result
  | Dropping
  | Dropped

record 'j pool =
  jobs_queue :: "'j list"
  jobs_capacity :: nat
  jobs_closed :: bool
  jobs_poisoned :: bool
  pool_stop :: bool
  pool_failed :: bool
  pool_workers :: "'j worker list"
  pool_completed :: nat
  pool_pending :: nat
  pool_owner :: owner
  pool_accepted :: "'j list"
  pool_taken :: "'j list"
  pool_cleared :: "'j list"
  pool_handled :: "'j list"
  pool_dropped :: "'j list"
  pool_panics :: nat

definition pool_new :: "nat \<Rightarrow> nat \<Rightarrow> bool \<Rightarrow> 'j pool" where
  "pool_new num capacity stop =
     \<lparr>jobs_queue = [], jobs_capacity = capacity, jobs_closed = False, jobs_poisoned = False,
      pool_stop = stop, pool_failed = False, pool_workers = [], pool_completed = 0,
      pool_pending = 0, pool_owner = Starting num, pool_accepted = [], pool_taken = [],
      pool_cleared = [], pool_handled = [], pool_dropped = [], pool_panics = 0\<rparr>"

section \<open>The queue\<close>

definition fail_stop :: "'j pool \<Rightarrow> 'j pool" where
  "fail_stop s = s\<lparr>pool_failed := True, pool_stop := True\<rparr>"

definition submit :: "'j \<Rightarrow> 'j pool \<Rightarrow> bool \<times> 'j pool" where
  "submit job s =
     (if jobs_poisoned s then (False, fail_stop s)
      else if pool_stop s \<or> jobs_closed s \<or> length (jobs_queue s) \<ge> jobs_capacity s then (False, s)
      else (True, s\<lparr>jobs_queue := jobs_queue s @ [job], pool_accepted := pool_accepted s @ [job]\<rparr>))"

definition close_stop :: "'j pool \<Rightarrow> 'j pool" where
  "close_stop s = s\<lparr>pool_stop := True\<rparr>"

definition close_jobs :: "'j pool \<Rightarrow> 'j pool" where
  "close_jobs s =
     (if jobs_poisoned s then s\<lparr>pool_failed := True\<rparr>
      else s\<lparr>jobs_closed := True, jobs_queue := [], pool_cleared := jobs_queue s @ pool_cleared s\<rparr>)"

text \<open>The body of the loop of \<open>next_job\<close>; \<open>None\<close> is the wait on the condition variable.\<close>

definition poll_locked :: "'j pool \<Rightarrow> 'j job_poll option \<times> 'j pool" where
  "poll_locked s =
     (if pool_stop s \<or> jobs_closed s then (Some Stopped, s)
      else
        (case jobs_queue s of
           job # rest \<Rightarrow> (Some (Ready job), s\<lparr>jobs_queue := rest, pool_taken := pool_taken s @ [job]\<rparr>)
         | [] \<Rightarrow> (None, s)))"

definition next_job :: "'j pool \<Rightarrow> 'j job_poll option \<times> 'j pool" where
  "next_job s = (if jobs_poisoned s then (Some Stopped, fail_stop s) else poll_locked s)"

definition next_job_wake :: "bool \<Rightarrow> 'j pool \<Rightarrow> 'j job_poll option \<times> 'j pool" where
  "next_job_wake timed_out s =
     (if jobs_poisoned s then (Some Stopped, fail_stop s)
      else if timed_out \<and> jobs_queue s = [] \<and> \<not> jobs_closed s \<and> \<not> pool_stop s then (Some Idle, s)
      else poll_locked s)"

section \<open>Workers\<close>

fun polled :: "'j job_poll option \<Rightarrow> 'j worker" where
  "polled None = Awaiting"
| "polled (Some (Ready job)) = Got job"
| "polled (Some Idle) = Checking"
| "polled (Some Stopped) = Ending"

text \<open>
  The next step of a worker. The flag is what the step leaves open: whether \<open>maintain\<close>, \<open>handle\<close> or
  the drop of the worker's state panics, or whether a wait timed out.
\<close>

fun worker_step :: "bool \<Rightarrow> 'j worker \<Rightarrow> 'j pool \<Rightarrow> 'j worker \<times> 'j pool" where
  "worker_step b Checking s = (if pool_stop s then Ending else Maintaining, s)"
| "worker_step b Maintaining s =
     (if b then (Failing, s\<lparr>pool_panics := Suc (pool_panics s)\<rparr>) else (Polling, s))"
| "worker_step b Polling s = map_prod polled id (next_job s)"
| "worker_step b Awaiting s = map_prod polled id (next_job_wake b s)"
| "worker_step b (Got job) s =
     (if pool_stop s then (Ending, s\<lparr>pool_dropped := pool_dropped s @ [job]\<rparr>)
      else (Handling job, s\<lparr>pool_handled := pool_handled s @ [job]\<rparr>))"
| "worker_step b (Handling job) s =
     (if b then (Failing, s\<lparr>pool_panics := Suc (pool_panics s)\<rparr>) else (Checking, s))"
| "worker_step b Ending s =
     (if b then (Failing, s\<lparr>pool_panics := Suc (pool_panics s)\<rparr>) else (Reporting, s))"
| "worker_step b Failing s = (Reporting, fail_stop s)"
| "worker_step b Reporting s = (Done, s\<lparr>pool_completed := Suc (pool_completed s)\<rparr>)"
| "worker_step b Done s = (Done, s)"

section \<open>Steps\<close>

inductive worker_move :: "'j pool \<Rightarrow> 'j pool \<Rightarrow> bool" where
  move: "pool_workers s = xs @ w # ys \<Longrightarrow> w \<noteq> Done \<Longrightarrow> worker_step b w s = (w', s') \<Longrightarrow>
     worker_move s (s'\<lparr>pool_workers := xs @ w' # ys\<rparr>)"

text \<open>What a call that failed to start a worker, or a shutdown, returns.\<close>

fun shutdown_result :: "io_error option \<Rightarrow> pool_result \<Rightarrow> pool_result" where
  "shutdown_result None r = r"
| "shutdown_result (Some e) r = Pool_Init e"

definition start_worker :: "'j pool \<Rightarrow> 'j pool" where
  "start_worker s = s\<lparr>pool_workers := pool_workers s @ [Checking], pool_pending := Suc (pool_pending s)\<rparr>"

definition begin_shutdown :: "io_error option \<Rightarrow> 'j pool \<Rightarrow> 'j pool" where
  "begin_shutdown r s = (close_stop s)\<lparr>pool_owner := Closing r\<rparr>"

text \<open>
  One turn of the loop that collects the workers, and the joins after it. With no report in the
  channel the turn is the end of the wait. A worker catches every panic, so a join succeeds.
\<close>

definition shutdown_collect :: "io_error option \<Rightarrow> 'j pool \<Rightarrow> 'j pool" where
  "shutdown_collect r s =
     (if pool_pending s > 0
      then
        if pool_completed s > 0
        then s\<lparr>pool_pending := pool_pending s - 1, pool_completed := pool_completed s - 1\<rparr>
        else s\<lparr>pool_owner := Returned (shutdown_result r Pool_TimedOut)\<rparr>
      else s\<lparr>pool_owner :=
        Returned (shutdown_result r (if pool_failed s then Pool_Failed else Pool_Ok))\<rparr>)"

definition begin_drop :: "'j pool \<Rightarrow> 'j pool" where
  "begin_drop s = (close_stop s)\<lparr>pool_owner := Dropping\<rparr>"

inductive owner_move :: "'j pool \<Rightarrow> 'j pool \<Rightarrow> bool" where
  start: "pool_owner s = Starting (Suc n) \<Longrightarrow> owner_move s ((start_worker s)\<lparr>pool_owner := Starting n\<rparr>)"
| start_fails: "pool_owner s = Starting (Suc n) \<Longrightarrow> owner_move s (begin_shutdown (Some e) s)"
| started: "pool_owner s = Starting 0 \<Longrightarrow> owner_move s (s\<lparr>pool_owner := Serving\<rparr>)"
| submits: "pool_owner s = Serving \<Longrightarrow> owner_move s (snd (submit job s))"
| shuts_down: "pool_owner s = Serving \<Longrightarrow> owner_move s (begin_shutdown None s)"
| closes: "pool_owner s = Closing r \<Longrightarrow> owner_move s ((close_jobs s)\<lparr>pool_owner := Collecting r\<rparr>)"
| collects: "pool_owner s = Collecting r \<Longrightarrow> owner_move s (shutdown_collect r s)"
| drops: "pool_owner s = Serving \<or> pool_owner s = Returned r \<Longrightarrow> owner_move s (begin_drop s)"
| drop_closes: "pool_owner s = Dropping \<Longrightarrow> owner_move s ((close_jobs s)\<lparr>pool_owner := Dropped\<rparr>)"

inductive environment_move :: "'j pool \<Rightarrow> 'j pool \<Rightarrow> bool" where
  stop_elsewhere: "environment_move s (s\<lparr>pool_stop := True\<rparr>)"
| poison: "environment_move s (s\<lparr>jobs_poisoned := True\<rparr>)"

definition pool_step :: "'j pool \<Rightarrow> 'j pool \<Rightarrow> bool" where
  "pool_step s s' \<longleftrightarrow> worker_move s s' \<or> owner_move s s' \<or> environment_move s s'"

inductive_cases worker_moveE: "worker_move s s'"
inductive_cases owner_moveE: "owner_move s s'"
inductive_cases environment_moveE: "environment_move s s'"

definition pool_reachable :: "nat \<Rightarrow> nat \<Rightarrow> 'j pool \<Rightarrow> bool" where
  "pool_reachable num capacity s \<longleftrightarrow> (\<exists>stop. pool_step\<^sup>*\<^sup>* (pool_new num capacity stop) s)"


section \<open>Invariants\<close>

text \<open>The queue is within its capacity, and jobs leave it in the order of their acceptance.\<close>

definition queue_inv :: "'j pool \<Rightarrow> bool" where
  "queue_inv s \<longleftrightarrow> length (jobs_queue s) \<le> jobs_capacity s
     \<and> pool_accepted s = pool_taken s @ jobs_queue s @ pool_cleared s
     \<and> (if jobs_closed s then jobs_queue s = [] else pool_cleared s = [])"

text \<open>A job that was taken is in the hand of one worker, or was handled, or was dropped.\<close>

fun held :: "'j worker \<Rightarrow> 'j multiset" where
  "held (Got job) = {#job#}"
| "held _ = {#}"

definition in_hand :: "'j worker list \<Rightarrow> 'j multiset" where
  "in_hand ws = sum_list (map held ws)"

lemma in_hand_simps [simp]:
  "in_hand [] = {#}"
  "in_hand (w # ws) = held w + in_hand ws"
  "in_hand (ws @ vs) = in_hand ws + in_hand vs"
  by (simp_all add: in_hand_def)

definition place_inv :: "'j pool \<Rightarrow> bool" where
  "place_inv s \<longleftrightarrow>
     mset (pool_taken s) = mset (pool_handled s) + mset (pool_dropped s) + in_hand (pool_workers s)"

text \<open>The owner waits for as many reports as there are workers that have not reported to it.\<close>

definition count_inv :: "'j pool \<Rightarrow> bool" where
  "count_inv s \<longleftrightarrow>
     pool_pending s = pool_completed s + length (filter (\<lambda>w. w \<noteq> Done) (pool_workers s))"

definition panic_inv :: "'j pool \<Rightarrow> bool" where
  "panic_inv s \<longleftrightarrow> pool_panics s > 0 \<longrightarrow> pool_failed s \<and> pool_stop s \<or> Failing \<in> set (pool_workers s)"

definition owner_inv :: "nat \<Rightarrow> nat \<Rightarrow> 'j pool \<Rightarrow> bool" where
  "owner_inv num capacity s \<longleftrightarrow>
     jobs_capacity s = capacity
     \<and> (case pool_owner s of
          Starting n \<Rightarrow> length (pool_workers s) + n = num
        | Serving \<Rightarrow> length (pool_workers s) = num
        | Collecting r \<Rightarrow> pool_stop s \<and> (jobs_closed s \<or> pool_failed s) \<and> length (pool_workers s) \<le> num
        | Returned r \<Rightarrow> pool_stop s \<and> length (pool_workers s) \<le> num
            \<and> (r = Pool_Ok \<longrightarrow> jobs_closed s \<and> pool_pending s = 0 \<and> pool_panics s = 0)
        | _ \<Rightarrow> pool_stop s \<and> length (pool_workers s) \<le> num)"

definition pool_inv :: "nat \<Rightarrow> nat \<Rightarrow> 'j pool \<Rightarrow> bool" where
  "pool_inv num capacity s \<longleftrightarrow>
     queue_inv s \<and> place_inv s \<and> count_inv s \<and> panic_inv s \<and> owner_inv num capacity s"

lemmas poll_defs = next_job_def next_job_wake_def poll_locked_def fail_stop_def
lemmas owner_defs = submit_def close_stop_def close_jobs_def fail_stop_def start_worker_def
  begin_shutdown_def shutdown_collect_def begin_drop_def

text \<open>What a step of a worker leaves of the shared state.\<close>

lemma worker_step_keeps:
  "worker_step b w s = (w', s') \<Longrightarrow>
     pool_owner s' = pool_owner s \<and> jobs_closed s' = jobs_closed s \<and> jobs_capacity s' = jobs_capacity s
     \<and> pool_pending s' = pool_pending s \<and> pool_workers s' = pool_workers s
     \<and> jobs_poisoned s' = jobs_poisoned s \<and> (pool_stop s \<longrightarrow> pool_stop s') \<and> (pool_failed s \<longrightarrow> pool_failed s')"
  by (cases w) (auto simp: poll_defs split: if_splits list.splits)

lemma worker_step_queue: "worker_step b w s = (w', s') \<Longrightarrow> queue_inv s \<Longrightarrow> queue_inv s'"
  by (cases w) (auto simp: poll_defs queue_inv_def split: if_splits list.splits)

lemma worker_step_place:
  "worker_step b w s = (w', s') \<Longrightarrow>
     mset (pool_taken s) = mset (pool_handled s) + mset (pool_dropped s) + (held w + r) \<Longrightarrow>
     mset (pool_taken s') = mset (pool_handled s') + mset (pool_dropped s') + (held w' + r)"
  by (cases w) (auto simp: poll_defs split: if_splits list.splits)

lemma worker_step_count:
  "worker_step b w s = (w', s') \<Longrightarrow> w \<noteq> Done \<Longrightarrow>
     pool_completed s' + (if w' = Done then 0 else 1) = Suc (pool_completed s)"
  by (cases w) (auto simp: poll_defs split: if_splits list.splits)

lemma worker_step_panics:
  "worker_step b w s = (w', s') \<Longrightarrow>
     w' = Failing \<or> pool_panics s' = pool_panics s \<and> (w = Failing \<longrightarrow> pool_failed s' \<and> pool_stop s')"
  by (cases w) (auto simp: poll_defs split: if_splits list.splits)

lemma worker_move_inv:
  assumes "worker_move s s'" and "pool_inv num capacity s"
  shows "pool_inv num capacity s'"
  using assms(1)
proof cases
  case (move xs w ys b w' t)
  note keep = worker_step_keeps [OF move(4)]
  note inv = assms(2) [unfolded pool_inv_def]
  have "queue_inv s'" using worker_step_queue [OF move(4)] inv move(1) by (simp add: queue_inv_def)
  moreover have "place_inv s'"
    using worker_step_place [OF move(4), of "in_hand xs + in_hand ys"] inv move(1,2)
    by (simp add: place_inv_def union_ac)
  moreover have "count_inv s'"
    using worker_step_count [OF move(4,3)] inv move(1-3) keep by (auto simp: count_inv_def split: if_splits)
  moreover have "panic_inv s'"
    using worker_step_panics [OF move(4)] inv move(1,2) keep by (auto simp: panic_inv_def)
  moreover have "owner_inv num capacity s'"
    using inv move(1-3) keep by (auto simp: owner_inv_def count_inv_def split: owner.splits)
  ultimately show ?thesis by (simp add: pool_inv_def)
qed


lemma owner_move_queue: "owner_move s s' \<Longrightarrow> queue_inv s \<Longrightarrow> queue_inv s'"
  by (induction rule: owner_move.induct) (auto simp: owner_defs queue_inv_def)

lemma owner_move_place: "owner_move s s' \<Longrightarrow> place_inv s \<Longrightarrow> place_inv s'"
  by (induction rule: owner_move.induct) (auto simp: owner_defs place_inv_def)

lemma owner_move_count: "owner_move s s' \<Longrightarrow> count_inv s \<Longrightarrow> count_inv s'"
  by (induction rule: owner_move.induct) (auto simp: owner_defs count_inv_def)

lemma owner_move_panic: "owner_move s s' \<Longrightarrow> panic_inv s \<Longrightarrow> panic_inv s'"
  by (induction rule: owner_move.induct) (auto simp: owner_defs panic_inv_def)

lemma all_done: "count_inv s \<Longrightarrow> pool_pending s = 0 \<Longrightarrow> list_all (\<lambda>w. w = Done) (pool_workers s)"
  by (auto simp: count_inv_def list_all_iff filter_empty_conv)

lemma joined_clean:
  "count_inv s \<Longrightarrow> panic_inv s \<Longrightarrow> pool_pending s = 0 \<Longrightarrow> \<not> pool_failed s \<Longrightarrow> pool_panics s = 0"
  using all_done [of s] by (auto simp: panic_inv_def list_all_iff)

lemma shutdown_result_Ok: "shutdown_result r p = Pool_Ok \<longleftrightarrow> r = None \<and> p = Pool_Ok"
  by (cases r) simp_all

lemma owner_move_owner:
  "owner_move s s' \<Longrightarrow> count_inv s \<Longrightarrow> panic_inv s \<Longrightarrow> owner_inv num capacity s \<Longrightarrow> owner_inv num capacity s'"
proof (induction rule: owner_move.induct)
  case (collects s r)
  then show ?case
    using joined_clean [of s]
    by (auto simp: owner_inv_def shutdown_collect_def shutdown_result_Ok split: if_splits)
qed (auto simp: owner_defs owner_inv_def shutdown_result_Ok)

lemma owner_move_inv: "owner_move s s' \<Longrightarrow> pool_inv num capacity s \<Longrightarrow> pool_inv num capacity s'"
  unfolding pool_inv_def
  using owner_move_queue owner_move_place owner_move_count owner_move_panic owner_move_owner by metis

lemma environment_move_inv:
  "environment_move s s' \<Longrightarrow> pool_inv num capacity s \<Longrightarrow> pool_inv num capacity s'"
  by (induction rule: environment_move.induct)
    (auto simp: pool_inv_def queue_inv_def place_inv_def count_inv_def panic_inv_def owner_inv_def
      split: owner.splits)

lemma pool_new_inv: "pool_inv num capacity (pool_new num capacity stop)"
  by (simp add: pool_new_def pool_inv_def queue_inv_def place_inv_def count_inv_def panic_inv_def
      owner_inv_def)

interpretation pool_steps: step_invariant "\<lambda>s. \<exists>stop. s = pool_new num capacity stop" pool_step
    "pool_inv num capacity" for num capacity
  by unfold_locales (auto simp: pool_new_inv pool_step_def worker_move_inv owner_move_inv environment_move_inv)

lemma pool_reachable_inv: "pool_reachable num capacity s \<Longrightarrow> pool_inv num capacity s"
  unfolding pool_reachable_def using pool_steps.inv_reachable by blast

section \<open>Properties of the pool\<close>

text \<open>C15: in every interleaving of the listener, the workers and a stop requested elsewhere, the queue
  holds at most its capacity, jobs leave it in the order in which it accepted them, and each
  accepted job is in exactly one place: handled once, dropped by a worker that saw the stop, in the
  hand of one worker, still queued, or cleared by a close. No job is handled twice.\<close>

theorem pool_jobs_conserved:
  assumes "pool_reachable num capacity s"
  shows "length (jobs_queue s) \<le> capacity
    \<and> pool_accepted s = pool_taken s @ jobs_queue s @ pool_cleared s
    \<and> mset (pool_accepted s) = mset (pool_handled s) + mset (pool_dropped s) + in_hand (pool_workers s)
         + mset (jobs_queue s) + mset (pool_cleared s)"
  using pool_reachable_inv [OF assms]
  by (auto simp: pool_inv_def queue_inv_def place_inv_def owner_inv_def)

lemma pool_returned_clean:
  assumes "pool_reachable num capacity s" and "pool_owner s = Returned Pool_Ok"
  shows "list_all (\<lambda>w. w = Done) (pool_workers s) \<and> pool_panics s = 0 \<and> jobs_closed s \<and> jobs_queue s = []"
proof -
  note inv = pool_reachable_inv [OF assms(1), unfolded pool_inv_def]
  then have "jobs_closed s" "pool_pending s = 0" "pool_panics s = 0" "jobs_queue s = []"
    using assms(2) by (auto simp: owner_inv_def queue_inv_def)
  moreover have "list_all (\<lambda>w. w = Done) (pool_workers s)"
    using inv \<open>pool_pending s = 0\<close> by (intro all_done) simp_all
  ultimately show ?thesis by simp
qed

text \<open>C38: when a shutdown returns success, every worker has ended and reported, none of them
  panicked, the queue is closed and empty, and no further job is accepted.\<close>

theorem pool_shutdown_clean:
  assumes "pool_reachable num capacity s" and "pool_owner s = Returned Pool_Ok"
  shows "list_all (\<lambda>w. w = Done) (pool_workers s) \<and> pool_panics s = 0 \<and> jobs_closed s
    \<and> jobs_queue s = [] \<and> \<not> fst (submit job s)"
  using pool_returned_clean [OF assms] by (simp add: submit_def)

text \<open>A schedule, for concrete runs: an event that is not possible in a state leaves it as it is.\<close>

datatype 'j event = Ev_Start | Ev_Started | Ev_Submit 'j | Ev_Shutdown | Ev_Close | Ev_Collect
  | Ev_Worker nat bool

fun occur :: "'j event \<Rightarrow> 'j pool \<Rightarrow> 'j pool" where
  "occur Ev_Start s =
     (case pool_owner s of Starting (Suc n) \<Rightarrow> (start_worker s)\<lparr>pool_owner := Starting n\<rparr> | _ \<Rightarrow> s)"
| "occur Ev_Started s = (if pool_owner s = Starting 0 then s\<lparr>pool_owner := Serving\<rparr> else s)"
| "occur (Ev_Submit job) s = (if pool_owner s = Serving then snd (submit job s) else s)"
| "occur Ev_Shutdown s = (if pool_owner s = Serving then begin_shutdown None s else s)"
| "occur Ev_Close s =
     (case pool_owner s of Closing r \<Rightarrow> (close_jobs s)\<lparr>pool_owner := Collecting r\<rparr> | _ \<Rightarrow> s)"
| "occur Ev_Collect s = (case pool_owner s of Collecting r \<Rightarrow> shutdown_collect r s | _ \<Rightarrow> s)"
| "occur (Ev_Worker i b) s =
     (if i < length (pool_workers s) \<and> pool_workers s ! i \<noteq> Done
      then let (w, t) = worker_step b (pool_workers s ! i) s in t\<lparr>pool_workers := (pool_workers s)[i := w]\<rparr>
      else s)"

lemma occur_worker:
  assumes "i < length (pool_workers s)" and "pool_workers s ! i \<noteq> Done"
    and "worker_step b (pool_workers s ! i) s = (w, t)"
  shows "worker_move s (t\<lparr>pool_workers := (pool_workers s)[i := w]\<rparr>)"
  using move [OF id_take_nth_drop [OF assms(1)] assms(2,3)] assms(1) by (simp add: upd_conv_take_nth_drop)

lemma occur_step: "pool_step\<^sup>*\<^sup>* s (occur e s)"
proof -
  have "occur e s = s \<or> pool_step s (occur e s)"
  proof (cases e)
    case (Ev_Worker i b)
    then show ?thesis
      using occur_worker [of i s b] by (auto simp: pool_step_def Let_def split: prod.split)
  qed (auto simp: pool_step_def split: owner.split nat.split intro: owner_move.intros)
  then show ?thesis by auto
qed

lemma schedule_reachable: "pool_reachable num capacity (fold occur es (pool_new num capacity stop))"
proof -
  have "pool_step\<^sup>*\<^sup>* s (fold occur es s)" for s :: "'a pool"
    by (induction es arbitrary: s) (auto intro: occur_step rtranclp_trans)
  then show ?thesis unfolding pool_reachable_def by blast
qed

text \<open>One worker, two jobs: the first is handled, the second is cleared by the shutdown.\<close>

definition sample_events :: "nat event list" where
  "sample_events = [Ev_Start, Ev_Started, Ev_Submit 7] @ replicate 4 (Ev_Worker 0 False) @ [Ev_Submit 8]"

definition sample_pool :: "nat event list \<Rightarrow> nat pool" where
  "sample_pool es = fold occur (sample_events @ es) (pool_new 1 1 False)"

lemma sample_pool_reachable: "pool_reachable 1 1 (sample_pool es)"
  unfolding sample_pool_def by (rule schedule_reachable)

lemmas sample_simps = sample_pool_def sample_events_def pool_new_def owner_defs poll_defs
  eval_nat_numeral Let_def

theorem pool_jobs_conserved_witness:
  "pool_accepted (sample_pool []) = [7, 8] \<and> pool_handled (sample_pool []) = [7]
   \<and> jobs_queue (sample_pool []) = [8] \<and> length (jobs_queue (sample_pool [])) \<le> 1"
  using pool_jobs_conserved [OF sample_pool_reachable [of "[]"]] by (simp add: sample_simps)

definition sample_shutdown :: "nat event list" where
  "sample_shutdown = [Ev_Shutdown, Ev_Close] @ replicate 4 (Ev_Worker 0 False) @ [Ev_Collect, Ev_Collect]"

theorem pool_shutdown_clean_witness:
  "pool_cleared (sample_pool sample_shutdown) = [8] \<and> pool_workers (sample_pool sample_shutdown) = [Done]
   \<and> \<not> fst (submit 9 (sample_pool sample_shutdown))"
proof -
  have s: "pool_owner (sample_pool sample_shutdown) = Returned Pool_Ok"
    "pool_cleared (sample_pool sample_shutdown) = [8]" "pool_workers (sample_pool sample_shutdown) = [Done]"
    by (simp_all add: sample_simps sample_shutdown_def)
  then show ?thesis using pool_shutdown_clean [OF sample_pool_reachable s(1)] by blast
qed

section \<open>Stopping\<close>

text \<open>The steps of its own that a worker still makes once the stop flag is set.\<close>

fun remaining_steps :: "'j worker \<Rightarrow> nat" where
  "remaining_steps Done = 0"
| "remaining_steps Reporting = 1"
| "remaining_steps Failing = 2"
| "remaining_steps Ending = 3"
| "remaining_steps Maintaining = 5"
| "remaining_steps (Handling job) = 5"
| "remaining_steps _ = 4"

definition potential :: "'j pool \<Rightarrow> nat" where
  "potential s = sum_list (map remaining_steps (pool_workers s))
     + (case pool_owner s of Starting n \<Rightarrow> 5 * n | _ \<Rightarrow> 0)"

text \<open>A run of the whole pool in which the workers make \<open>n\<close> steps.\<close>

inductive pool_run :: "nat \<Rightarrow> 'j pool \<Rightarrow> 'j pool \<Rightarrow> bool" where
  run_refl: "pool_run 0 s s"
| run_worker: "pool_run n s t \<Longrightarrow> worker_move t u \<Longrightarrow> pool_run (Suc n) s u"
| run_other: "pool_run n s t \<Longrightarrow> owner_move t u \<or> environment_move t u \<Longrightarrow> pool_run n s u"

lemma worker_step_stopped:
  "worker_step b w s = (w', s') \<Longrightarrow> pool_stop s \<Longrightarrow> w \<noteq> Done \<Longrightarrow>
     remaining_steps w' < remaining_steps w \<and> pool_handled s' = pool_handled s"
  by (cases w) (auto simp: poll_defs split: if_splits)

lemma worker_move_stopped:
  assumes "worker_move s s'" and "pool_stop s"
  shows "potential s' < potential s \<and> pool_stop s' \<and> pool_handled s' = pool_handled s"
  using assms(1)
proof cases
  case (move xs w ys b w' t)
  then show ?thesis
    using worker_step_stopped [OF move(4) assms(2)] worker_step_keeps [OF move(4)] assms(2)
    by (simp add: potential_def)
qed

lemma other_move_stopped:
  assumes "owner_move s s' \<or> environment_move s s'" and "pool_stop s"
  shows "potential s' \<le> potential s \<and> pool_stop s' \<and> pool_handled s' = pool_handled s"
  using assms
  by (auto simp: owner_defs potential_def elim!: owner_moveE environment_moveE)

lemma pool_run_stopped:
  "pool_run n s s' \<Longrightarrow> pool_stop s \<Longrightarrow>
     n + potential s' \<le> potential s \<and> pool_stop s' \<and> pool_handled s' = pool_handled s"
proof (induction rule: pool_run.induct)
  case (run_worker n s t u)
  then show ?case using worker_move_stopped [of t u] by fastforce
next
  case (run_other n s t u)
  then show ?case using other_move_stopped [of t u] by fastforce
qed simp

lemma remaining_steps_le: "remaining_steps w \<le> 5"
  by (cases w) auto

lemma remaining_sum_le: "sum_list (map remaining_steps ws) \<le> 5 * length ws"
proof (induction ws)
  case (Cons w ws)
  then show ?case using remaining_steps_le [of w] by simp
qed simp

lemma potential_le: "owner_inv num capacity s \<Longrightarrow> potential s \<le> 5 * num"
  using remaining_sum_le [of "pool_workers s"]
  by (auto simp: potential_def owner_inv_def split: owner.splits)

lemma worker_can_move:
  assumes "\<not> list_all (\<lambda>w. w = Done) (pool_workers s)"
  shows "\<exists>s'. worker_move s s'"
proof -
  obtain w where "w \<in> set (pool_workers s)" "w \<noteq> Done" using assms by (auto simp: list_all_iff)
  then obtain xs ys where "pool_workers s = xs @ w # ys" by (meson split_list)
  with \<open>w \<noteq> Done\<close> show ?thesis by (metis move prod.exhaust)
qed

text \<open>C17: once the stop flag is set, from a signal, the other pool or a panic, no worker starts to
  handle another job, and the workers together make at most five more steps for each of the
  workers that the pool was to have, whatever the owner does meanwhile. They are not stuck before:
  as long as one of them has not ended, one of them can step.\<close>

theorem pool_stops:
  assumes "pool_reachable num capacity s" and "pool_stop s" and "pool_run n s s'"
  shows "n \<le> 5 * num \<and> pool_handled s' = pool_handled s
    \<and> ((\<nexists>u. worker_move s' u) \<longrightarrow> list_all (\<lambda>w. w = Done) (pool_workers s'))"
  using pool_run_stopped [OF assms(3,2)] potential_le pool_reachable_inv [OF assms(1)] worker_can_move
  by (fastforce simp: pool_inv_def)


theorem pool_stops_witness:
  "\<exists>s'. pool_run 1 (sample_pool [Ev_Shutdown]) s' \<and> (1::nat) \<le> 5 * 1 \<and> pool_handled s' = [7]"
proof -
  let ?s = "sample_pool [Ev_Shutdown]"
  have s: "pool_stop ?s" "pool_workers ?s = [] @ [Handling 7]" "pool_handled ?s = [7]"
    by (simp_all add: sample_simps)
  have "worker_move ?s (?s\<lparr>pool_workers := [] @ [Checking]\<rparr>)"
    by (rule move [where b = False and w = "Handling 7" and xs = "[]" and ys = "[]"]) (use s in simp_all)
  then have r: "pool_run 1 ?s (?s\<lparr>pool_workers := [] @ [Checking]\<rparr>)"
    using run_worker [OF run_refl] by simp
  show ?thesis using pool_stops [OF sample_pool_reachable s(1) r] r s(3) by auto
qed


text \<open>
  A start that fails returns its error also when the shutdown of the workers that were already
  started timed out, so they are not always joined before.
\<close>

theorem init_failure_can_leave_workers:
  "\<exists>s :: nat pool. pool_reachable 2 1 s \<and> pool_owner s = Returned (Pool_Init e) \<and> pool_workers s = [Checking]"
proof -
  let ?a = "(start_worker (pool_new 2 1 False :: nat pool))\<lparr>pool_owner := Starting 1\<rparr>"
  let ?b = "(close_jobs (begin_shutdown (Some e) ?a))\<lparr>pool_owner := Collecting (Some e)\<rparr>"
  have "owner_move (pool_new 2 1 False) ?a"
    by (rule start) (simp add: pool_new_def)
  moreover have "owner_move ?a (begin_shutdown (Some e) ?a)"
    by (rule start_fails [of _ 0]) simp
  moreover have "owner_move (begin_shutdown (Some e) ?a) ?b"
    by (rule closes) (simp add: begin_shutdown_def)
  moreover have "owner_move ?b (shutdown_collect (Some e) ?b)"
    by (rule collects) simp
  ultimately have "pool_step\<^sup>*\<^sup>* (pool_new 2 1 False) (shutdown_collect (Some e) ?b)"
    by (meson pool_step_def rtranclp.rtrancl_into_rtrancl rtranclp.rtrancl_refl)
  moreover have "pool_owner (shutdown_collect (Some e) ?b) = Returned (Pool_Init e)"
    "pool_workers (shutdown_collect (Some e) ?b) = [Checking]"
    by (simp_all add: owner_defs pool_new_def)
  ultimately show ?thesis unfolding pool_reachable_def by blast
qed

end
