(* ===== verification/Server.thy ===== *)
theory Server
  imports Composition Config Pool
begin

text \<open>
  The workers of the service (\<^verbatim>\<open>src/server.rs\<close>): what they do with a datagram and with a connection,
  over the observed environment of \<open>Runtime\<close>. The listeners are in \<open>Listeners\<close>.

  Proved here: a TCP connection is served frame by frame in order, with a reply only to its own
  frame, for any interleaving of partial reads and writes; a UDP worker answers each datagram at
  most once and to its sender, and no earlier request of the same worker influences what it may
  do for a later one.
\<close>

definition UDP_WORKERS :: nat where [simp]: "UDP_WORKERS = 8"
definition TCP_WORKERS :: nat where [simp]: "TCP_WORKERS = 16"
definition UDP_QUEUE :: nat where [simp]: "UDP_QUEUE = 64"
definition TCP_QUEUE :: nat where [simp]: "TCP_QUEUE = 16"
definition CLIENT_FRAME_TIMEOUT :: duration where [simp]: "CLIENT_FRAME_TIMEOUT = 10000000000"
definition CLIENT_WRITE_TIMEOUT :: duration where [simp]: "CLIENT_WRITE_TIMEOUT = 2000000000"

record datagram =
  dg_wire :: "u8 list"
  dg_peer :: socket_addr
  dg_deadline :: deadline

record connection =
  conn_stream :: tcp_stream
  conn_first_deadline :: deadline

section \<open>Workers\<close>

text \<open>A call without an error outcome, in a context with errors: that branch is unreachable.\<close>

definition infallible :: "('f, 'a, 'z) io \<Rightarrow> ('e, 'a, 'z) io" where
  "infallible m = io_match m io_ok (\<lambda>_ w. (Some Panic, w))"

definition load_stop :: "('e, bool, 'z) io" where
  "load_stop = io_bind observe (\<lambda>ob. io_ok (ob_stop ob))"

text \<open>The exchange for one frame: the request, its reply if there is one, and the next deadline.\<close>

definition serve_frame :: "routing_table \<Rightarrow> tcp_stream \<Rightarrow> u8 list \<Rightarrow> (io_error, deadline) fwd" where
  "serve_frame t stream wire =
     io_bind (deadline_after REQUEST_TIMEOUT) (\<lambda>request_deadline.
     io_bind (infallible (respond t wire Tcp request_deadline)) (\<lambda>reply.
     io_bind
       (case reply of
          None \<Rightarrow> io_ok ()
        | Some response \<Rightarrow>
            io_bind (capped request_deadline CLIENT_WRITE_TIMEOUT) (\<lambda>dl.
              write_frame stream response dl)) (\<lambda>_.
       deadline_after CLIENT_FRAME_TIMEOUT)))"

lemma ord_infallible [ord_intros]: "orderly m \<Longrightarrow> orderly (infallible m)"
  unfolding infallible_def
  by (rule ord_match) (simp_all add: ord_pure, simp add: orderly_def ord_at_def)

lemma ord_load_stop [ord_intros]: "orderly load_stop"
  unfolding load_stop_def by (intro ord_intros)

lemma ord_serve_frame [ord_intros]: "orderly (serve_frame t stream wire)"
  unfolding serve_frame_def by (intro ord_intros) (auto intro!: ord_intros split: option.split)

lemma load_stop_left: "load_stop w = (Some r, v) \<Longrightarrow> left v < left w"
  by (auto simp: load_stop_def io_bind_def observe_def io_ok_def left_def split: list.splits)

function serve_loop ::
  "routing_table \<Rightarrow> tcp_stream \<Rightarrow> deadline \<Rightarrow> forwarder \<Rightarrow> (io_error, unit) result option \<times> forwarder" where
  "serve_loop t stream dl w =
     io_bind load_stop (\<lambda>stop v.
       if stop then io_ok () v
       else
         io_bind (read_frame stream dl) (\<lambda>frame v.
           case frame of
             None \<Rightarrow> io_ok () v
           | Some wire \<Rightarrow>
               io_bind (serve_frame t stream wire) (\<lambda>next_dl v. serve_loop t stream next_dl v) v) v) w"
  by pat_completeness auto
termination
proof (relation "measure (\<lambda>(t, stream, dl, w). left w)", goal_cases)
  case (2 t stream dl w stop v frame u wire next_dl x)
  then show ?case
    using load_stop_left [of w] orderly_left [OF ord_frames(1)] orderly_left [OF ord_serve_frame]
    by fastforce
qed simp

declare serve_loop.simps [simp del]

definition serve_tcp :: "routing_table \<Rightarrow> connection \<Rightarrow> (io_error, unit) fwd" where
  "serve_tcp t client =
     io_bind syscall (\<lambda>_.
     io_bind syscall (\<lambda>_.
       serve_loop t (conn_stream client) (conn_first_deadline client)))"

definition udp_handle :: "routing_table \<Rightarrow> datagram \<Rightarrow> (io_error, unit) fwd" where
  "udp_handle t job =
     io_bind (infallible (respond t (dg_wire job) Udp (dg_deadline job))) (\<lambda>reply.
       case reply of
         None \<Rightarrow> io_ok ()
       | Some wire \<Rightarrow>
           io_match (udp_send (dg_peer job) wire) io_ok (\<lambda>e. warn (Warn_Udp_Client e)))"

definition tcp_handle :: "routing_table \<Rightarrow> connection \<Rightarrow> (io_error, unit) fwd" where
  "tcp_handle t job =
     io_match (serve_tcp t job) io_ok
       (\<lambda>e.
          io_bind load_stop (\<lambda>stop.
            if \<not> stop \<and> error_kind e \<noteq> TimedOut then warn (Warn_Tcp_Client e) else io_ok ()))"

definition maintain :: "(io_error, unit) fwd" where
  "maintain = infallible expire_idle"


section \<open>A connection\<close>

text \<open>The endpoints of a table.\<close>

definition table_sockets :: "routing_table \<Rightarrow> socket_addr set" where
  "table_sockets t = \<Union> (sockets ` table_groups t)"

lemma request_sockets_table: "request_sockets t wire \<subseteq> table_sockets t"
  using select_groups
  by (fastforce simp: request_sockets_def select_sockets_def table_sockets_def
      split: result.splits selection.splits if_splits)

text \<open>The bytes of the client's stream and the forwarder's invariant are as before.\<close>

definition kept :: "tcp_stream \<Rightarrow> forwarder \<Rightarrow> forwarder \<Rightarrow> bool" where
  "kept c w v \<longleftrightarrow> cache_ok v \<and> received c v = received c w \<and> written c v = written c w"

lemma kept_trans: "kept c w u \<Longrightarrow> kept c u v \<Longrightarrow> kept c w v"
  by (simp add: kept_def)

lemma kept_update [simp]:
  "kept c w (v\<lparr>script := x\<rparr>) = kept c w v" "kept c w (v\<lparr>checked := t\<rparr>) = kept c w v"
  "kept c w w \<longleftrightarrow> cache_ok w"
  by (auto simp: kept_def cache_ok_def)

lemma permitted_elsewhere:
  assumes "permitted t wire D a" and "stream_peer c \<notin> table_sockets t"
  shows "bytes_written c a = [] \<and> bytes_read c a = []"
proof -
  have "\<exists>q. endpoint_action q (request_sockets t wire) D a"
    using assms(1) by (auto simp: permitted_def request_sockets_def split: result.splits)
  then show ?thesis using assms(2) request_sockets_table [of t wire] by (cases a) auto
qed

lemma respond_kept:
  assumes "cache_ok w" and "stream_peer c \<notin> table_sockets t"
  shows "wp (infallible (respond t wire Tcp dl)) (\<lambda>r v. kept c w v \<and> replies wire Tcp r) (\<lambda>_ _. False) (kept c w) w"
proof -
  obtain r v where r: "respond t wire Tcp dl w = (r, v)" by fastforce
  note req = respond_request [OF assms(1) r]
  obtain xs where xs: "performed v = performed w @ xs" "list_all (permitted t wire (expiry dl)) xs"
    using req(2) by blast
  have "concat (map (bytes_written c) xs) = []" "concat (map (bytes_read c) xs) = []"
    using xs(2) permitted_elsewhere [OF _ assms(2)] by (auto simp: list_all_iff)
  then have "kept c w v" using req(1) xs(1) by (simp add: kept_def written_def received_def)
  then show ?thesis
    using req(3) by (auto simp: infallible_def wp_def io_match_def r io_ok_def)
qed

fun answer :: "u8 list option \<Rightarrow> u8 list" where
  "answer None = []"
| "answer (Some reply) = frame_bytes reply"

text \<open>
  The reply to a frame was sent (\<open>k\<close> is all of it), or the first \<open>k\<close> bytes of it.
\<close>

definition answered_part :: "tcp_stream \<Rightarrow> u8 list \<Rightarrow> forwarder \<Rightarrow> forwarder \<Rightarrow> bool" where
  "answered_part c wire w v \<longleftrightarrow> cache_ok v \<and> received c v = received c w
     \<and> (\<exists>reply k. replies wire Tcp reply \<and> written c v = written c w @ take k (answer reply))"

definition answered :: "tcp_stream \<Rightarrow> u8 list \<Rightarrow> forwarder \<Rightarrow> forwarder \<Rightarrow> bool" where
  "answered c wire w v \<longleftrightarrow> cache_ok v \<and> received c v = received c w
     \<and> (\<exists>reply. replies wire Tcp reply \<and> written c v = written c w @ answer reply)"

lemma answered_update [simp]:
  "answered c wire w (v\<lparr>script := x\<rparr>) = answered c wire w v"
  "answered_part c wire w (v\<lparr>script := x\<rparr>) = answered_part c wire w v"
  by (simp_all add: answered_def answered_part_def cache_ok_def)

lemma answered_is_part: "answered c wire w v \<Longrightarrow> answered_part c wire w v"
  unfolding answered_def answered_part_def by (metis order_refl take_all)

lemma kept_is_part: "kept c w v \<Longrightarrow> answered_part c wire w v"
  by (auto simp: kept_def answered_part_def intro!: exI [of _ None])

lemma adds_received: "adds P w v \<Longrightarrow> (\<And>a. P a \<Longrightarrow> bytes_read c a = []) \<Longrightarrow> received c v = received c w"
  and adds_written: "adds P w v \<Longrightarrow> (\<And>a. P a \<Longrightarrow> bytes_written c a = []) \<Longrightarrow> written c v = written c w"
  by (fastforce simp: adds_def received_def written_def list_all_iff)+

lemma adds_cache: "adds P w v \<Longrightarrow> cache_ok v = cache_ok w"
  by (cases w; cases v) (auto simp: adds_def cache_ok_def)

lemma write_frame_answers:
  assumes "kept c w u" and "reply_to wire Tcp x"
  shows "wp (write_frame c x dl) (\<lambda>_. answered c wire w) (\<lambda>_. answered_part c wire w) (answered_part c wire w) u"
proof -
  have "replies wire Tcp (Some x)" using assms(2) by (simp add: replies_def)
  have c: "received c v = received c w \<and> cache_ok v" if a: "adds (\<lambda>a. \<exists>b t. a = Act_Write c b t) u v" for v
  proof -
    have "received c v = received c u" by (rule adds_received [OF a]) auto
    then show ?thesis using adds_cache [OF a] assms(1) by (simp add: kept_def)
  qed
  have "wp (write_frame c x dl) (\<lambda>_. adds (\<lambda>a. \<exists>b t. a = Act_Write c b t) u)
      (\<lambda>_. adds (\<lambda>a. \<exists>b t. a = Act_Write c b t) u) (adds (\<lambda>a. \<exists>b t. a = Act_Write c b t) u) u"
    by (rule write_frame_adds) blast
  from wp_conj [OF write_frame_spec this] show ?thesis
    by (rule wp_mono)
      (use c assms(1) \<open>replies wire Tcp (Some x)\<close> in
        \<open>auto simp: answered_def answered_part_def kept_def intro!: exI [of _ "Some x"]\<close>)
qed


lemma wp_deadline_after:
  "(\<And>dl x. Q dl (w\<lparr>script := x\<rparr>)) \<Longrightarrow> N w \<Longrightarrow> wp (deadline_after d) Q E N w"
  by (auto simp: deadline_after_def wp_simps split: list.split)

lemma serve_frame_answers:
  assumes "cache_ok w" and c: "stream_peer c \<notin> table_sockets t"
  shows "wp (serve_frame t c wire) (\<lambda>_. answered c wire w) (\<lambda>_. answered_part c wire w) (answered_part c wire w) w"
proof -
  have final: "wp (deadline_after d) (\<lambda>_. answered c wire w) (\<lambda>_. answered_part c wire w) (answered_part c wire w) u"
    if "answered c wire w u" for u d
    by (rule wp_deadline_after) (use that in \<open>auto intro: answered_is_part\<close>)
  have reply: "wp (case reply of None \<Rightarrow> io_ok ()
        | Some x \<Rightarrow> io_bind (capped dl CLIENT_WRITE_TIMEOUT) (write_frame c x))
      (\<lambda>_. answered c wire w) (\<lambda>_. answered_part c wire w) (answered_part c wire w) u"
    if "kept c w u" "replies wire Tcp reply" for reply dl u
  proof (cases reply)
    case None
    have "answered c wire w u" using that(1) by (auto simp: kept_def answered_def intro!: exI [of _ None])
    then show ?thesis by (simp add: None wp_simps)
  next
    case (Some x)
    then have "reply_to wire Tcp x" using that(2) by (simp add: replies_def)
    then show ?thesis
      using that(1) by (auto simp: Some capped_def wp_simps kept_is_part intro!: write_frame_answers split: list.split)
  qed
  have handle: "wp (infallible (respond t wire Tcp dl)) (\<lambda>reply. wp (case reply of None \<Rightarrow> io_ok ()
        | Some x \<Rightarrow> io_bind (capped dl CLIENT_WRITE_TIMEOUT) (write_frame c x))
        (\<lambda>_. wp (deadline_after CLIENT_FRAME_TIMEOUT) (\<lambda>_. answered c wire w) (\<lambda>_. answered_part c wire w) (answered_part c wire w))
        (\<lambda>_. answered_part c wire w) (answered_part c wire w))
      (\<lambda>_. answered_part c wire w) (answered_part c wire w) u"
    if "kept c w u" for dl u
  proof (rule wp_mono [OF respond_kept [OF _ c]])
    show "cache_ok u" using that by (simp add: kept_def)
  qed (auto intro!: wp_mono [OF reply] final intro: kept_is_part kept_trans [OF that])
  show ?thesis
    unfolding serve_frame_def wp_bind
    by (rule wp_deadline_after, rule handle) (use assms(1) in \<open>simp_all add: kept_is_part\<close>)
qed


text \<open>
  A conversation is a list of frames with the reply each got. \<open>talked\<close>: since \<open>w\<close>, the client has
  sent exactly these frames and got exactly these replies. \<open>talking\<close>: it has, and may have sent
  more, and of the reply to one more frame it has got some first bytes.
\<close>

type_synonym conversation = "(u8 list \<times> u8 list option) list"

definition requests :: "conversation \<Rightarrow> u8 list" where
  "requests xs = concat (map (\<lambda>x. frame_bytes (fst x)) xs)"

definition answers :: "conversation \<Rightarrow> u8 list" where
  "answers xs = concat (map (\<lambda>x. answer (snd x)) xs)"

definition proper :: "conversation \<Rightarrow> bool" where
  "proper xs \<longleftrightarrow> list_all (\<lambda>x. replies (fst x) Tcp (snd x)) xs"

definition talked :: "tcp_stream \<Rightarrow> forwarder \<Rightarrow> forwarder \<Rightarrow> bool" where
  "talked c w v \<longleftrightarrow> cache_ok v \<and> (\<exists>xs. proper xs \<and> received c v = received c w @ requests xs
     \<and> written c v = written c w @ answers xs)"

definition partial_reply :: "u8 list \<Rightarrow> u8 list \<Rightarrow> bool" where
  "partial_reply rest part \<longleftrightarrow> part = []
     \<or> (\<exists>wire reply k. rest = frame_bytes wire \<and> reply_to wire Tcp reply \<and> part = take k (frame_bytes reply))"

definition talking :: "tcp_stream \<Rightarrow> forwarder \<Rightarrow> forwarder \<Rightarrow> bool" where
  "talking c w v \<longleftrightarrow> cache_ok v \<and> (\<exists>xs rest part. proper xs \<and> partial_reply rest part
     \<and> received c v = received c w @ requests xs @ rest
     \<and> written c v = written c w @ answers xs @ part)"

lemma conversation_Cons [simp]:
  "requests (x # xs) = frame_bytes (fst x) @ requests xs"
  "answers (x # xs) = answer (snd x) @ answers xs"
  "proper (x # xs) \<longleftrightarrow> replies (fst x) Tcp (snd x) \<and> proper xs"
  "requests [] = []" "answers [] = []" "proper []"
  by (simp_all add: requests_def answers_def proper_def)

lemma talked_refl: "cache_ok w \<Longrightarrow> received c v = received c w \<Longrightarrow> written c v = written c w \<Longrightarrow> cache_ok v \<Longrightarrow> talked c w v"
  unfolding talked_def by (intro conjI exI [of _ "[]"]) simp_all

lemma conversation_append [simp]:
  "requests (xs @ ys) = requests xs @ requests ys" "answers (xs @ ys) = answers xs @ answers ys"
  "proper (xs @ ys) \<longleftrightarrow> proper xs \<and> proper ys"
  by (simp_all add: requests_def answers_def proper_def)

lemma talked_is_talking: "talked c w v \<Longrightarrow> talking c w v"
  unfolding talked_def talking_def by (metis append_Nil2 partial_reply_def)

lemma talked_more:
  assumes "talked c w u" and "talked c u v"
  shows "talked c w v"
proof -
  obtain xs where xs: "proper xs" "received c u = received c w @ requests xs"
      "written c u = written c w @ answers xs" using assms(1) by (auto simp: talked_def)
  obtain ys where "proper ys" "received c v = received c u @ requests ys"
      "written c v = written c u @ answers ys" using assms(2) by (auto simp: talked_def)
  then show ?thesis
    using xs assms(2) unfolding talked_def by (intro conjI exI [of _ "xs @ ys"]) simp_all
qed

lemma talking_more:
  assumes "talked c w u" and "talking c u v"
  shows "talking c w v"
proof -
  obtain xs where xs: "proper xs" "received c u = received c w @ requests xs"
      "written c u = written c w @ answers xs" using assms(1) by (auto simp: talked_def)
  obtain ys rest part where "proper ys" "partial_reply rest part"
      "received c v = received c u @ requests ys @ rest" "written c v = written c u @ answers ys @ part"
    using assms(2) by (auto simp: talking_def)
  then show ?thesis
    using xs assms(2) unfolding talking_def
    by (intro conjI exI [of _ "xs @ ys"] exI [of _ rest] exI [of _ part]) simp_all
qed

lemma answered_talked:
  assumes "received c u = received c w @ frame_bytes wire" and "written c u = written c w"
    and "answered c wire u v"
  shows "talked c w v"
proof -
  obtain reply where "replies wire Tcp reply" "written c v = written c u @ answer reply"
      "received c v = received c u" "cache_ok v"
    using assms(3) by (auto simp: answered_def)
  then show ?thesis
    using assms(1,2) unfolding talked_def by (intro conjI exI [of _ "[(wire, reply)]"]) simp_all
qed

lemma answered_part_talking:
  assumes "received c u = received c w @ frame_bytes wire" and "written c u = written c w"
    and "answered_part c wire u v"
  shows "talking c w v"
proof -
  obtain reply k where r: "replies wire Tcp reply" "written c v = written c u @ take k (answer reply)"
      "received c v = received c u" "cache_ok v"
    using assms(3) by (auto simp: answered_part_def)
  have "partial_reply (frame_bytes wire) (take k (answer reply))"
    using r(1) by (cases reply) (auto simp: replies_def partial_reply_def)
  then show ?thesis
    using assms(1,2) r unfolding talking_def
    by (intro conjI exI [of _ "[]"] exI [of _ "frame_bytes wire"] exI [of _ "take k (answer reply)"]) auto
qed


lemma serve_loop_eq:
  "serve_loop t c dl =
     io_bind load_stop (\<lambda>stop.
       if stop then io_ok ()
       else
         io_bind (read_frame c dl) (\<lambda>frame.
           case frame of
             None \<Rightarrow> io_ok ()
           | Some wire \<Rightarrow> io_bind (serve_frame t c wire) (\<lambda>next_dl. serve_loop t c next_dl)))"
  by (rule ext, subst serve_loop.simps)
    (auto simp: fun_eq_iff if_distribR intro!: io_bind_cong split: option.split)

lemma adds_reads_talking:
  assumes "cache_ok w" and a: "adds (\<lambda>a. \<exists>b. a = Act_Read c b) w v"
  shows "talking c w v" and "written c v = written c w" and "cache_ok v"
proof -
  show wr: "written c v = written c w" by (rule adds_written [OF a]) auto
  show ck: "cache_ok v" using adds_cache [OF a] assms(1) by simp
  obtain rest where "received c v = received c w @ rest"
    using a by (auto simp: adds_def received_def)
  then show "talking c w v"
    using wr ck unfolding talking_def
    by (intro conjI exI [of _ "[]"] exI [of _ rest]) (simp_all add: partial_reply_def)
qed

lemma orderly_wp:
  "orderly m \<Longrightarrow> wp m Q E N w \<Longrightarrow> wp m (\<lambda>x v. Q x v \<and> left v \<le> left w) E N w"
  using orderly_left [of m w] by (cases "m w") (auto simp: wp_def split: option.splits result.splits)

lemma read_frame_talks:
  assumes ck: "cache_ok u"
  shows "wp (read_frame c dl)
      (\<lambda>frame v. (cache_ok v \<and> written c v = written c u
         \<and> received c v = received c u @ (case frame of None \<Rightarrow> [] | Some wire \<Rightarrow> frame_bytes wire))
         \<and> left v \<le> left u)
      (\<lambda>_. talking c u) (talking c u) u"
proof (rule orderly_wp [OF ord_frames(1)])
  let ?P = "\<lambda>a. \<exists>b. a = Act_Read c b"
  have "wp (read_frame c dl) (\<lambda>_. adds ?P u) (\<lambda>_. adds ?P u) (adds ?P u) u"
    by (rule read_frame_adds) blast
  from wp_conj [OF read_frame_spec this]
  show "wp (read_frame c dl) (\<lambda>frame v. cache_ok v \<and> written c v = written c u
         \<and> received c v = received c u @ (case frame of None \<Rightarrow> [] | Some wire \<Rightarrow> frame_bytes wire))
      (\<lambda>_. talking c u) (talking c u) u"
    by (rule wp_mono) (auto dest: adds_reads_talking [OF ck] split: option.split)
qed

lemma serve_frame_talks:
  assumes c: "stream_peer c \<notin> table_sockets t" and "cache_ok u"
    and "received c u = received c w @ frame_bytes wire" and "written c u = written c w"
  shows "wp (serve_frame t c wire) (\<lambda>_ v. talked c w v \<and> left v \<le> left u)
    (\<lambda>_. talking c w) (talking c w) u"
  by (rule orderly_wp [OF ord_serve_frame], rule wp_mono [OF serve_frame_answers [OF assms(2) c]])
    (auto intro: answered_talked [OF assms(3,4)] answered_part_talking [OF assms(3,4)])

lemma serve_loop_talks:
  assumes c: "stream_peer c \<notin> table_sockets t"
  shows "cache_ok w \<Longrightarrow> wp (serve_loop t c dl) (\<lambda>_. talked c w) (\<lambda>_. talking c w) (talking c w) w"
proof (induction w arbitrary: dl rule: measure_induct_rule [where f = left])
  case (less w)
  have again: "wp (serve_loop t c next_dl) (\<lambda>_. talked c w) (\<lambda>_. talking c w) (talking c w) v"
    if "left v < left w" "talked c w v" for next_dl v
  proof (rule wp_mono [OF less.IH [OF that(1)]])
    show "cache_ok v" using that(2) by (simp add: talked_def)
  qed (auto intro: talked_more [OF that(2)] talking_more [OF that(2)])
  have frame: "wp (serve_frame t c wire) (\<lambda>next_dl. wp (serve_loop t c next_dl) (\<lambda>_. talked c w) (\<lambda>_. talking c w) (talking c w))
      (\<lambda>_. talking c w) (talking c w) u"
    if "left u < left w" "cache_ok u" "received c u = received c w @ frame_bytes wire" "written c u = written c w"
    for wire u
    by (rule wp_mono [OF serve_frame_talks [OF c that(2-4)]]) (use that(1) in \<open>auto intro!: again\<close>)
  have read: "wp (read_frame c dl) (\<lambda>frame. wp (case frame of None \<Rightarrow> io_ok ()
        | Some wire \<Rightarrow> io_bind (serve_frame t c wire) (\<lambda>next_dl. serve_loop t c next_dl))
      (\<lambda>_. talked c w) (\<lambda>_. talking c w) (talking c w)) (\<lambda>_. talking c w) (talking c w) u"
    if u: "left u < left w" "u = w\<lparr>script := x\<rparr>" for u x
  proof -
    have ck: "cache_ok u" using less.prems u(2) by (simp add: cache_ok_def)
    have same: "talking c u = talking c w" "received c u = received c w" "written c u = written c w"
      by (simp_all add: u(2) talking_def fun_eq_iff)
    show ?thesis
      by (rule wp_mono [OF read_frame_talks [OF ck]])
        (use u(1) less.prems in \<open>auto simp: wp_simps same intro!: frame talked_refl split: option.splits\<close>)
  qed
  show ?case
    by (subst serve_loop_eq)
      (use less.prems in \<open>auto simp: load_stop_def wp_simps left_def cache_ok_def
        intro!: read talked_is_talking talked_refl split: list.split\<close>)
qed


definition halt :: observation where
  "halt = tick\<lparr>ob_stop := True\<rparr>"

definition sample_client :: connection where
  "sample_client = \<lparr>conn_stream = TcpStream (SocketV4 0x0a000063 4000) 0, conn_first_deadline = Deadline 10000000000\<rparr>"

text \<open>A client that asks for a local name and is answered before the stop.\<close>

definition sample_frame_in :: "observation list" where
  "sample_frame_in = [tick, tick, seen [0, 22], tick, tick, tick, seen sample_wire, tick]"

definition sample_session :: "observation list" where
  "sample_session = [tick, tick, tick] @ sample_frame_in
     @ [tick, tick, tick, tick, tick, tick, seen (replicate 400 0), tick, tick, halt]"

lemma sample_frame_read:
  "\<exists>v. read_frame (conn_stream sample_client) (Deadline 10000000000) (idle (sample_frame_in @ rest))
     = (Some (Ok (Some sample_wire)), v) \<and> script v = rest \<and> cache_ok v"
  by (simp add: read_frame_def read_exact_def read_loop.simps run_simps idle_def sample_frame_in_def
      seen_def tick_def sample_wire_def u16_from_be_bytes_def cache_ok_def)

lemma write_frame_once:
  assumes "script w = tick # tick # seen bytes # tick # rest" and "12 \<le> length x" and "length x \<le> 342"
    and "length bytes = 400" and "0 < expiry dl"
  shows "\<exists>v. write_frame c x dl w = (Some (Ok ()), v) \<and> script v = rest"
  using assms
  by (simp add: write_frame_def write_loop.simps run_simps tick_def seen_def frame_bytes_def
      u16_to_be_bytes_def Let_def)

lemma sample_frame_served:
  assumes "script w = [tick, tick, tick, tick, tick, tick, seen (replicate 400 0), tick, tick, halt]"
  shows "\<exists>v. serve_frame local_table c sample_wire w = (Some (Ok (Deadline 10000000000)), v) \<and> script v = [halt]"
proof -
  let ?x = "make_reply (header_of sample_wire) (Some sample_question) NoError False Opt_Absent (Some (0x0a000002, 60))"
  let ?u = "w\<lparr>script := [tick, tick, tick, seen (replicate 400 0), tick, tick, halt], checked := Some 0\<rparr>"
  have r: "respond local_table sample_wire Tcp (Deadline 5000000000) (w\<lparr>script := tl (script w)\<rparr>) = (Some (Ok (Some ?x)), ?u)"
    using respond_local [of sample_query "w\<lparr>script := tl (script w)\<rparr>" tick tick
        "[tick, tick, tick, seen (replicate 400 0), tick, tick, halt]" "Deadline 5000000000" local_table sample_local Tcp]
    by (simp add: assms sample_client_query sample_query_wire sample_local_facts) (simp add: tick_def)
  have "question_wf sample_question"
    using parse_Ok [OF sample_parse] by (simp add: packet_wf_def sample_packet_def)
  then have len: "12 \<le> length ?x" "length ?x \<le> 342"
    by (simp add: make_reply_def sample_question_def, intro length_make_reply_bound) simp_all
  obtain v where v: "write_frame c ?x (Deadline 2000000000) (?u\<lparr>script := [tick, tick, seen (replicate 400 0), tick, tick, halt]\<rparr>)
      = (Some (Ok ()), v)" "script v = [tick, halt]"
    using write_frame_once [of "?u\<lparr>script := [tick, tick, seen (replicate 400 0), tick, tick, halt]\<rparr>" "replicate 400 0" "[tick, halt]" ?x "Deadline 2000000000" c] len by auto
  then show ?thesis
    using r assms
    by (simp add: serve_frame_def deadline_after_def capped_def infallible_def run_simps tick_def)
qed


lemma sample_session_served:
  "\<exists>v. serve_tcp local_table sample_client (idle sample_session) = (Some (Ok ()), v)"
proof -
  let ?c = "conn_stream sample_client"
  let ?rest = "[tick, tick, tick, tick, tick, tick, seen (replicate 400 0), tick, tick, halt]"
  obtain u where u: "read_frame ?c (Deadline 10000000000) (idle (sample_frame_in @ ?rest)) = (Some (Ok (Some sample_wire)), u)"
      "script u = ?rest" using sample_frame_read by blast
  obtain v where v: "serve_frame local_table ?c sample_wire u = (Some (Ok (Deadline 10000000000)), v)" "script v = [halt]"
    using sample_frame_served [OF u(2)] by blast
  have last: "serve_loop local_table ?c (Deadline 10000000000) v = (Some (Ok ()), v\<lparr>script := []\<rparr>)"
    by (subst serve_loop.simps) (simp add: load_stop_def run_simps v(2) halt_def tick_def)
  have "serve_loop local_table ?c (Deadline 10000000000) (idle (tick # sample_frame_in @ ?rest)) = (Some (Ok ()), v\<lparr>script := []\<rparr>)"
    by (subst serve_loop.simps) (use u(1) v(1) last in \<open>simp add: load_stop_def run_simps idle_def tick_def\<close>)
  then show ?thesis
    by (simp add: serve_tcp_def sample_session_def run_simps idle_def tick_def sample_client_def)
qed



section \<open>A UDP worker\<close>

text \<open>The life of a worker: maintenance before each job, then the job.\<close>

fun udp_jobs :: "routing_table \<Rightarrow> datagram list \<Rightarrow> (io_error, unit) fwd" where
  "udp_jobs t [] = io_ok ()"
| "udp_jobs t (job # rest) =
     io_bind maintain (\<lambda>_. io_bind (udp_handle t job) (\<lambda>_. udp_jobs t rest))"

text \<open>
  The actions for one datagram: first what its request permits, then at most one datagram to its
  sender, with a reply to its message, and the warning when that could not be sent.
\<close>

definition udp_job_log :: "routing_table \<Rightarrow> datagram \<Rightarrow> action list \<Rightarrow> bool" where
  "udp_job_log t job log \<longleftrightarrow>
     (\<exists>ys zs. log = ys @ zs \<and> list_all (permitted t (dg_wire job) (expiry (dg_deadline job))) ys
        \<and> (zs = [] \<or> (\<exists>bytes c. reply_to (dg_wire job) Udp bytes
             \<and> (zs = [Act_Udp (dg_peer job) bytes c]
                \<or> (\<exists>e. zs = [Act_Udp (dg_peer job) bytes c, Act_Warn (Warn_Udp_Client e)])))))"

lemma maintain_run:
  assumes "cache_ok w" and "maintain w = (r, v)"
  shows "cache_ok v \<and> performed v = performed w \<and> (r = None \<or> r = Some (Ok ()))"
  using assms
  by (auto simp: infallible_def maintain_def expire_idle_def run_simps cache_ok_def
      split: option.splits list.splits if_splits)

lemma udp_handle_run:
  assumes "cache_ok w" and run: "udp_handle t job w = (r, v)"
  shows "cache_ok v \<and> (r = None \<or> r = Some (Ok ())) \<and> (\<exists>log. performed v = performed w @ log \<and> udp_job_log t job log)"
proof -
  obtain q u where q: "respond t (dg_wire job) Udp (dg_deadline job) w = (q, u)" by fastforce
  note req = respond_request [OF assms(1) q]
  obtain xs where xs: "performed u = performed w @ xs"
      "list_all (permitted t (dg_wire job) (expiry (dg_deadline job))) xs" using req(2) by blast
  consider "q = None" | "q = Some (Ok None)" | x where "q = Some (Ok (Some x))" "reply_to (dg_wire job) Udp x"
    using req(3) by (metis option.exhaust replies_def)
  then show ?thesis
  proof cases
    case (3 x)
    let ?log = "xs @ [Act_Udp (dg_peer job) x (checked u)]"
    have "performed v = performed w @ ?log \<or> (\<exists>e. performed v = performed w @ ?log @ [Act_Warn (Warn_Udp_Client e)])"
      and "cache_ok v" "r = None \<or> r = Some (Ok ())"
      using run q 3(1) xs(1) req(1)
      by (auto simp: udp_handle_def infallible_def run_simps cache_ok_def
          split: list.splits io_outcome.splits)
    then show ?thesis using xs(2) 3(2) by (fastforce simp: udp_job_log_def)
  qed (use run q xs req(1) in \<open>auto simp: udp_handle_def infallible_def run_simps udp_job_log_def\<close>)
qed

lemma udp_jobs_run:
  assumes "cache_ok w" and "udp_jobs t jobs w = (r, v)"
  shows "(r = None \<or> r = Some (Ok ())) \<and> cache_ok v
    \<and> (\<exists>logs n. performed v = performed w @ concat logs \<and> list_all2 (udp_job_log t) (take n jobs) logs
          \<and> (r = Some (Ok ()) \<longrightarrow> length logs = length jobs))"
  using assms
proof (induction jobs arbitrary: w)
  case Nil
  then show ?case by (auto simp: io_ok_def intro!: exI [of _ "[]"])
next
  case (Cons job jobs)
  obtain q u where q: "maintain w = (q, u)" by fastforce
  note m = maintain_run [OF Cons.prems(1) q]
  obtain p x where p: "udp_handle t job u = (p, x)" by fastforce
  note h = udp_handle_run [OF _ p]
  show ?case
  proof (cases "q = Some (Ok ()) \<and> p = Some (Ok ())")
    case True
    then have "udp_jobs t jobs x = (r, v)" using Cons.prems(2) q p by (simp add: io_bind_def)
    then obtain logs n where l: "r = None \<or> r = Some (Ok ())" "cache_ok v" "performed v = performed x @ concat logs"
        "list_all2 (udp_job_log t) (take n jobs) logs" "r = Some (Ok ()) \<longrightarrow> length logs = length jobs"
      using Cons.IH [of x] h m by blast
    obtain log where "performed x = performed u @ log" "udp_job_log t job log" using h m by blast
    then show ?thesis
      using l m by (intro conjI exI [of _ "log # logs"] exI [of _ "Suc n"]) simp_all
  next
    case False
    show ?thesis
    proof (cases "q = Some (Ok ())")
      case True
      then have "p = None" using False h m by auto
      then have "r = None" "v = x" using Cons.prems(2) q p True by (simp_all add: io_bind_def)
      moreover obtain log where "performed x = performed u @ log" "udp_job_log t job log" using h m by blast
      ultimately show ?thesis
        using h m by (intro conjI exI [of _ "[log]"] exI [of _ 1]) simp_all
    next
      case q': False
      then have "r = None" "v = u" using m Cons.prems(2) q by (auto simp: io_bind_def)
      then show ?thesis using m by (intro conjI exI [of _ "[]"] exI [of _ 0]) simp_all
    qed
  qed
qed


definition sample_datagram :: datagram where
  "sample_datagram = \<lparr>dg_wire = sample_wire, dg_peer = SocketV4 0x0a000063 4000, dg_deadline = Deadline 5000000000\<rparr>"


end
