(* ===== verification/Listeners.thy ===== *)
theory Listeners
  imports Server
begin

text \<open>
  The listener loops (\<^verbatim>\<open>receive_udp\<close>, \<^verbatim>\<open>accept_tcp\<close> and \<^verbatim>\<open>accept_clients\<close> of \<^verbatim>\<open>src/server.rs\<close>) in front
  of their pools, and the end of the service (\<^verbatim>\<open>Server::run\<close>). A listener owns its pool: its
  submissions are the owner's steps of \<open>Pool\<close>, and between any two of its steps workers run and
  the stop flag may be set. One step of a listener is one read of the flag, one receive or accept,
  or one submission; the argument of a step is what the system call returned.

  The locale \<open>intake\<close> is the contract that both loops share; its lemmas are proved once and
  interpreted for both. Proved here: a listener with its pool refines the pool, so everything that
  is proved of the pool holds of it; it returns success only after a stop and an error only for an
  error that is not retried; what the pool accepts is a subsequence of what was received; and it
  returns within three steps of a stop.
\<close>

section \<open>Accept errors\<close>

definition linux_accept_error_is_retryable :: "int option \<Rightarrow> bool" where
  "linux_accept_error_is_retryable errno \<longleftrightarrow>
     (case errno of
        None \<Rightarrow> False
      | Some e \<Rightarrow> e \<in> {64, 71, 92, 95, 100, 101, 103, 104, 112, 113})"

text \<open>The OS error number of an error is part of what the call returned.\<close>

definition accept_error_is_retryable :: "io_error \<Rightarrow> int option \<Rightarrow> bool" where
  "accept_error_is_retryable e errno \<longleftrightarrow>
     (if transient e then True
      else if error_kind e \<in> {ConnectionAborted, ConnectionReset, NetworkDown, NetworkUnreachable, HostUnreachable}
      then True
      else linux_accept_error_is_retryable errno)"

section \<open>The loops\<close>

datatype 'x listener =
    Listen_Checking
  | Listen_Waiting
  | Listen_Got 'x
  | Listen_Submitting 'x
  | Listen_Returned "(io_error, unit) result"

datatype recv_event = Recv_Ok "u8 list" socket_addr instant | Recv_Err io_error

datatype accept_event = Accept_Ok tcp_stream | Accept_Err io_error "int option"

fun receive_udp ::
  "recv_event \<Rightarrow> datagram listener \<Rightarrow> datagram pool \<Rightarrow> datagram listener \<times> datagram pool \<times> warning list" where
  "receive_udp ev Listen_Checking s =
     (if pool_stop s then Listen_Returned (Ok ()) else Listen_Waiting, s, [])"
| "receive_udp (Recv_Ok bytes peer t) Listen_Waiting s =
     (Listen_Got \<lparr>dg_wire = take MAX_MESSAGE_LENGTH bytes, dg_peer = peer,
        dg_deadline = Deadline (t + REQUEST_TIMEOUT)\<rparr>, s, [])"
| "receive_udp (Recv_Err e) Listen_Waiting s =
     (if transient e then Listen_Checking else Listen_Returned (Err e), s, [])"
| "receive_udp ev (Listen_Got d) s =
     (if pool_stop s then Listen_Returned (Ok ()) else Listen_Submitting d, s, [])"
| "receive_udp ev (Listen_Submitting d) s =
     (let (accepted, t) = submit d s in
      (Listen_Checking, t, if accepted then [] else [Warn_Udp_Capacity]))"
| "receive_udp ev (Listen_Returned r) s = (Listen_Returned r, s, [])"

text \<open>The budget of a connection's first frame starts with its submission.\<close>

fun accept_clients ::
  "accept_event \<times> instant \<Rightarrow> tcp_stream listener \<Rightarrow> connection pool
   \<Rightarrow> tcp_stream listener \<times> connection pool \<times> warning list" where
  "accept_clients ev Listen_Checking s =
     (if pool_stop s then Listen_Returned (Ok ()) else Listen_Waiting, s, [])"
| "accept_clients (Accept_Ok stream, t) Listen_Waiting s = (Listen_Got stream, s, [])"
| "accept_clients (Accept_Err e errno, t) Listen_Waiting s =
     (if accept_error_is_retryable e errno then (Listen_Checking, s, [Warn_Accept e])
      else (Listen_Returned (Err e), s, []))"
| "accept_clients ev (Listen_Got stream) s =
     (if pool_stop s then Listen_Returned (Ok ()) else Listen_Submitting stream, s, [])"
| "accept_clients (ev, t) (Listen_Submitting stream) s =
     (let (accepted, u) =
          submit \<lparr>conn_stream = stream, conn_first_deadline = Deadline (t + CLIENT_FRAME_TIMEOUT)\<rparr> s in
      (Listen_Checking, u, if accepted then [] else [Warn_Tcp_Capacity]))"
| "accept_clients ev (Listen_Returned r) s = (Listen_Returned r, s, [])"

section \<open>A listener with its pool\<close>

type_synonym ('e, 'x, 'j) listen = "'e \<Rightarrow> 'x listener \<Rightarrow> 'j pool \<Rightarrow> 'x listener \<times> 'j pool \<times> warning list"

record ('x, 'j) service =
  sv_phase :: "'x listener"
  sv_pool :: "'j pool"
  sv_received :: "'x list"
  sv_warned :: "warning list"

fun newly_got :: "'x listener \<Rightarrow> 'x listener \<Rightarrow> 'x list" where
  "newly_got Listen_Waiting (Listen_Got x) = [x]"
| "newly_got _ _ = []"

inductive service_step :: "('e, 'x, 'j) listen \<Rightarrow> ('x, 'j) service \<Rightarrow> ('x, 'j) service \<Rightarrow> bool" for listen where
  listens: "pool_owner (sv_pool a) = Serving \<Longrightarrow> listen ev (sv_phase a) (sv_pool a) = (l, s, ws) \<Longrightarrow>
     service_step listen a \<lparr>sv_phase = l, sv_pool = s,
       sv_received = sv_received a @ newly_got (sv_phase a) l, sv_warned = sv_warned a @ ws\<rparr>"
| others_move: "worker_move (sv_pool a) s \<or> environment_move (sv_pool a) s \<Longrightarrow>
     service_step listen a (a\<lparr>sv_pool := s\<rparr>)"

text \<open>The service starts with a pool that is ready to serve and has not been used.\<close>

definition service_start :: "nat \<Rightarrow> nat \<Rightarrow> ('x, 'j) service \<Rightarrow> bool" where
  "service_start num capacity a \<longleftrightarrow> pool_reachable num capacity (sv_pool a) \<and> pool_owner (sv_pool a) = Serving
     \<and> pool_accepted (sv_pool a) = [] \<and> sv_phase a = Listen_Checking \<and> sv_received a = [] \<and> sv_warned a = []"

definition service_reachable :: "('e, 'x, 'j) listen \<Rightarrow> nat \<Rightarrow> nat \<Rightarrow> ('x, 'j) service \<Rightarrow> bool" where
  "service_reachable listen num capacity a \<longleftrightarrow>
     (\<exists>a\<^sub>0. service_start num capacity a\<^sub>0 \<and> (service_step listen)\<^sup>*\<^sup>* a\<^sub>0 a)"


text \<open>The listener alone, with the results of its next system calls.\<close>

fun listen_run :: "('e, 'x, 'j) listen \<Rightarrow> 'e list \<Rightarrow> 'x listener \<times> 'j pool \<Rightarrow> 'x listener \<times> 'j pool" where
  "listen_run listen [] a = a"
| "listen_run listen (ev # evs) a =
     (case listen ev (fst a) (snd a) of (l, s, ws) \<Rightarrow> listen_run listen evs (l, s))"

lemma worker_move_accepted:
  assumes "worker_move s s'"
  shows "pool_accepted s' = pool_accepted s \<and> pool_owner s' = pool_owner s \<and> (pool_stop s \<longrightarrow> pool_stop s')"
  using assms
proof cases
  case (move xs w ys b w' t)
  have "pool_accepted t = pool_accepted s"
    using move(4) by (cases w) (auto simp: poll_defs split: if_splits list.splits)
  then show ?thesis using move(1) worker_step_keeps [OF move(4)] by simp
qed

lemma environment_move_accepted:
  "environment_move s s' \<Longrightarrow>
     pool_accepted s' = pool_accepted s \<and> pool_owner s' = pool_owner s \<and> (pool_stop s \<longrightarrow> pool_stop s')"
  by (auto elim: environment_moveE)

lemma submit_keeps:
  "pool_owner (snd (submit job s)) = pool_owner s"
  "pool_accepted (snd (submit job s)) = pool_accepted s @ (if fst (submit job s) then [job] else [])"
  "pool_stop s \<Longrightarrow> pool_stop (snd (submit job s))"
  by (simp_all add: submit_def fail_stop_def)

section \<open>The contract of a listener loop\<close>

text \<open>\<open>fatal\<close> are the errors that may end the loop, \<open>origin\<close> is what a job was made from.\<close>

locale intake =
  fixes listen :: "('e, 'x, 'j) listen" and fatal :: "io_error \<Rightarrow> bool" and origin :: "'j \<Rightarrow> 'x"
  assumes at_check: "listen ev Listen_Checking s = (if pool_stop s then Listen_Returned (Ok ()) else Listen_Waiting, s, [])"
    and waiting: "listen ev Listen_Waiting s = (l, s', ws) \<Longrightarrow>
      s' = s \<and> ((\<exists>x. l = Listen_Got x) \<or> l = Listen_Checking \<or> (\<exists>e. fatal e \<and> l = Listen_Returned (Err e)))"
    and got: "listen ev (Listen_Got x) s = (if pool_stop s then Listen_Returned (Ok ()) else Listen_Submitting x, s, [])"
    and submitting: "listen ev (Listen_Submitting x) s = (l, s', ws) \<Longrightarrow>
      l = Listen_Checking \<and> (\<exists>job. origin job = x \<and> s' = snd (submit job s) \<and> (ws = [] \<longleftrightarrow> fst (submit job s)))"
    and returned: "listen ev (Listen_Returned r) s = (Listen_Returned r, s, [])"
begin

text \<open>What the pool accepted came from what was received, in order; the last one may be in hand.\<close>

definition served :: "'x listener \<Rightarrow> 'x list \<Rightarrow> 'j list \<Rightarrow> bool" where
  "served l intakes jobs \<longleftrightarrow>
     (case l of
        Listen_Got x \<Rightarrow> \<exists>ys. intakes = ys @ [x] \<and> subseq (map origin jobs) ys
      | Listen_Submitting x \<Rightarrow> \<exists>ys. intakes = ys @ [x] \<and> subseq (map origin jobs) ys
      | _ \<Rightarrow> subseq (map origin jobs) intakes)"

definition service_inv :: "nat \<Rightarrow> nat \<Rightarrow> ('x, 'j) service \<Rightarrow> bool" where
  "service_inv num capacity a \<longleftrightarrow>
     pool_reachable num capacity (sv_pool a) \<and> pool_owner (sv_pool a) = Serving
     \<and> served (sv_phase a) (sv_received a) (pool_accepted (sv_pool a))
     \<and> (case sv_phase a of
          Listen_Returned (Ok u) \<Rightarrow> pool_stop (sv_pool a)
        | Listen_Returned (Err e) \<Rightarrow> fatal e
        | Listen_Returned Panic \<Rightarrow> False
        | _ \<Rightarrow> True)"

lemma pool_reachable_step: "pool_reachable num capacity s \<Longrightarrow> pool_step s s' \<Longrightarrow> pool_reachable num capacity s'"
  unfolding pool_reachable_def by (meson rtranclp.rtrancl_into_rtrancl)

lemma listens_inv:
  assumes inv: "service_inv num capacity a" and "listen ev (sv_phase a) (sv_pool a) = (l, s, ws)"
  shows "service_inv num capacity \<lparr>sv_phase = l, sv_pool = s,
    sv_received = sv_received a @ newly_got (sv_phase a) l, sv_warned = sv_warned a @ ws\<rparr>"
proof (cases "sv_phase a")
  case (Listen_Submitting x)
  then obtain job where job: "l = Listen_Checking" "origin job = x" "s = snd (submit job (sv_pool a))"
    using submitting [of ev x "sv_pool a" l s ws] assms(2) by auto
  have "pool_step (sv_pool a) s"
    using inv job(3) by (auto simp: pool_step_def service_inv_def intro: submits)
  moreover obtain ys where "sv_received a = ys @ [x]" "subseq (map origin (pool_accepted (sv_pool a))) ys"
    using inv Listen_Submitting by (auto simp: service_inv_def served_def)
  ultimately show ?thesis
    using inv job Listen_Submitting pool_reachable_step [of num capacity "sv_pool a" s]
    by (auto simp: service_inv_def served_def submit_keeps intro: list_emb_append_mono subseq_append_le_same_iff)
next
  case Listen_Waiting
  then show ?thesis
    using waiting [of ev "sv_pool a" l s ws] assms by (auto simp: service_inv_def served_def)
next
  case (Listen_Returned r)
  then have "l = Listen_Returned r" "s = sv_pool a" using assms(2) by (simp_all add: returned)
  then show ?thesis using inv Listen_Returned by (simp add: service_inv_def served_def split: result.splits)
qed (use assms in \<open>auto simp: at_check got service_inv_def served_def split: if_splits\<close>)

lemma others_inv:
  assumes inv: "service_inv num capacity a" and "worker_move (sv_pool a) s \<or> environment_move (sv_pool a) s"
  shows "service_inv num capacity (a\<lparr>sv_pool := s\<rparr>)"
proof -
  have "pool_accepted s = pool_accepted (sv_pool a) \<and> pool_owner s = pool_owner (sv_pool a)
      \<and> (pool_stop (sv_pool a) \<longrightarrow> pool_stop s)"
    using assms(2) worker_move_accepted environment_move_accepted by blast
  moreover have "pool_step (sv_pool a) s" using assms(2) by (auto simp: pool_step_def)
  ultimately show ?thesis
    using inv pool_reachable_step [of num capacity "sv_pool a" s]
    by (auto simp: service_inv_def split: listener.splits result.splits)
qed

lemma start_inv: "service_start num capacity a \<Longrightarrow> service_inv num capacity a"
  by (simp add: service_start_def service_inv_def served_def)

lemma step_inv: "service_step listen a b \<Longrightarrow> service_inv num capacity a \<Longrightarrow> service_inv num capacity b"
  by (induction rule: service_step.induct) (auto intro: listens_inv others_inv)

text \<open>After a stop the loop returns within three steps, whatever its calls return.\<close>

lemma stop_returns:
  assumes "pool_stop s"
  shows "\<exists>r u. listen_run listen [e1, e2, e3] (l, s) = (Listen_Returned r, u)"
proof -
  have again: "\<exists>r u. listen_run listen [e2, e3] (Listen_Checking, t) = (Listen_Returned r, u)" if "pool_stop t" for e2 e3 t
    using that by (simp add: at_check returned)
  show ?thesis
  proof (cases l)
    case (Listen_Submitting x)
    obtain l' t ws where t: "listen e1 (Listen_Submitting x) s = (l', t, ws)" by (metis prod_cases3)
    then have "l' = Listen_Checking" "pool_stop t"
      using submitting [OF t] submit_keeps(3) [OF assms] by auto
    then show ?thesis using again [of t e2 e3] t Listen_Submitting by simp
  next
    case Listen_Waiting
    obtain l' t ws where t: "listen e1 Listen_Waiting s = (l', t, ws)" by (metis prod_cases3)
    then show ?thesis
      using waiting [OF t] again [of s e2 e3] assms Listen_Waiting by (auto simp: got returned)
  qed (use assms in \<open>simp_all add: at_check got returned\<close>)
qed

end

sublocale intake \<subseteq> service: step_invariant "service_start num capacity" "service_step listen"
    "service_inv num capacity" for num capacity
  by unfold_locales (rule start_inv step_inv; assumption)+

context intake
begin

lemma reachable_inv: "service_reachable listen num capacity a \<Longrightarrow> service_inv num capacity a"
  unfolding service_reachable_def using service.inv_reachable by blast

lemma served_subseq: "served l xs jobs \<Longrightarrow> subseq (map origin jobs) xs"
  by (cases l) (auto simp: served_def)

lemma reachable_serves:
  assumes "service_reachable listen num capacity a"
  shows "pool_reachable num capacity (sv_pool a)"
    and "subseq (map origin (pool_accepted (sv_pool a))) (sv_received a)"
    and "sv_phase a = Listen_Returned (Ok ()) \<Longrightarrow> pool_stop (sv_pool a)"
    and "sv_phase a = Listen_Returned (Err e) \<Longrightarrow> fatal e"
    and "sv_phase a \<noteq> Listen_Returned Panic"
  using reachable_inv [OF assms] served_subseq by (auto simp: service_inv_def)

end

section \<open>Both listeners\<close>

interpretation udp_intake: intake receive_udp "\<lambda>e. \<not> transient e" id
proof unfold_locales
  fix ev s l and s' :: "datagram pool" and ws
  show "receive_udp ev Listen_Waiting s = (l, s', ws) \<Longrightarrow>
      s' = s \<and> ((\<exists>x. l = Listen_Got x) \<or> l = Listen_Checking \<or> (\<exists>e. \<not> transient e \<and> l = Listen_Returned (Err e)))"
    by (cases ev) (auto split: if_splits)
qed (auto simp: Let_def split: prod.splits if_splits)

interpretation tcp_intake: intake accept_clients "\<lambda>e. \<exists>errno. \<not> accept_error_is_retryable e errno" conn_stream
proof unfold_locales
  fix ev s l and s' :: "connection pool" and ws
  show "accept_clients ev Listen_Waiting s = (l, s', ws) \<Longrightarrow>
      s' = s \<and> ((\<exists>x. l = Listen_Got x) \<or> l = Listen_Checking
        \<or> (\<exists>e. (\<exists>errno. \<not> accept_error_is_retryable e errno) \<and> l = Listen_Returned (Err e)))"
    by (cases ev rule: prod.exhaust, cases "fst ev") (auto split: if_splits)
next
  fix ev x s l and s' :: "connection pool" and ws
  assume a: "accept_clients ev (Listen_Submitting x) s = (l, s', ws)"
  show "l = Listen_Checking \<and> (\<exists>job. conn_stream job = x \<and> s' = snd (submit job s) \<and> (ws = []) = fst (submit job s))"
    using a
    by (cases ev)
      (auto simp: Let_def split: prod.splits if_splits
        intro!: exI [of _ "\<lparr>conn_stream = x, conn_first_deadline = Deadline (snd ev + CLIENT_FRAME_TIMEOUT)\<rparr>"])
qed auto


text \<open>A listener with its pool keeps the promises of the pool, and of the loop's contract.\<close>

definition serves_pool ::
  "(io_error \<Rightarrow> bool) \<Rightarrow> ('j \<Rightarrow> 'x) \<Rightarrow> nat \<Rightarrow> nat \<Rightarrow> ('x, 'j) service \<Rightarrow> bool" where
  "serves_pool fatal origin num capacity a \<longleftrightarrow>
     pool_reachable num capacity (sv_pool a)
     \<and> subseq (map origin (pool_accepted (sv_pool a))) (sv_received a)
     \<and> (case sv_phase a of
          Listen_Returned (Ok u) \<Rightarrow> pool_stop (sv_pool a)
        | Listen_Returned (Err e) \<Rightarrow> fatal e
        | Listen_Returned Panic \<Rightarrow> False
        | _ \<Rightarrow> True)"


definition ready_pool :: "nat \<Rightarrow> nat \<Rightarrow> 'j pool" where
  "ready_pool num capacity = fold occur (replicate num Ev_Start @ [Ev_Started]) (pool_new num capacity False)"

definition fresh_service :: "nat \<Rightarrow> nat \<Rightarrow> ('x, 'j) service" where
  "fresh_service num capacity =
     \<lparr>sv_phase = Listen_Checking, sv_pool = ready_pool num capacity, sv_received = [], sv_warned = []\<rparr>"

lemma occur_starts:
  "pool_owner s = Starting n \<Longrightarrow>
     (occur Ev_Start ^^ n) s =
       s\<lparr>pool_workers := pool_workers s @ replicate n Checking, pool_pending := pool_pending s + n,
         pool_owner := Starting 0\<rparr>"
proof (induction n arbitrary: s)
  case (Suc n)
  have first: "occur Ev_Start s = s\<lparr>pool_workers := pool_workers s @ [Checking],
      pool_pending := Suc (pool_pending s), pool_owner := Starting n\<rparr>"
    using Suc.prems by (simp add: start_worker_def)
  have "(occur Ev_Start ^^ Suc n) s = (occur Ev_Start ^^ n) (occur Ev_Start s)"
    by (simp only: funpow_Suc_right comp_apply)
  also have "\<dots> = s\<lparr>pool_workers := pool_workers s @ replicate (Suc n) Checking,
      pool_pending := pool_pending s + Suc n, pool_owner := Starting 0\<rparr>"
    unfolding first by (subst Suc.IH) simp_all
  finally show ?case .
qed simp

lemma ready_pool_eq:
  "ready_pool num capacity = (pool_new num capacity False)\<lparr>pool_workers := replicate num Checking,
     pool_pending := num, pool_owner := Serving\<rparr>"
  by (simp add: ready_pool_def occur_starts pool_new_def)

lemma fresh_service_start: "service_start num capacity (fresh_service num capacity)"
proof -
  have "pool_reachable num capacity (ready_pool num capacity)"
    unfolding ready_pool_def by (rule schedule_reachable)
  then show ?thesis by (simp add: service_start_def fresh_service_def ready_pool_eq pool_new_def)
qed

lemma fresh_service_reachable: "service_reachable listen num capacity (fresh_service num capacity)"
  unfolding service_reachable_def using fresh_service_start by blast

lemma service_reachable_listens:
  assumes "service_reachable listen num capacity a" and "pool_owner (sv_pool a) = Serving"
    and "listen ev (sv_phase a) (sv_pool a) = (l, s, ws)"
  shows "service_reachable listen num capacity \<lparr>sv_phase = l, sv_pool = s,
     sv_received = sv_received a @ newly_got (sv_phase a) l, sv_warned = sv_warned a @ ws\<rparr>"
  using assms(1) listens [where listen = listen, OF assms(2,3)] unfolding service_reachable_def
  by (meson rtranclp.rtrancl_into_rtrancl)

text \<open>A datagram that is received and accepted.\<close>

definition sample_intake :: "(datagram, datagram) service" where
  "sample_intake = \<lparr>sv_phase = Listen_Checking, sv_pool = snd (submit sample_datagram (ready_pool 8 64)),
     sv_received = [sample_datagram], sv_warned = []\<rparr>"

lemma sample_intake_reachable: "service_reachable receive_udp 8 64 sample_intake"
proof -
  let ?s = "ready_pool 8 64 :: datagram pool"
  let ?ev = "Recv_Ok sample_wire (SocketV4 0x0a000063 4000) 0"
  have s: "pool_owner ?s = Serving" "\<not> pool_stop ?s" "fst (submit sample_datagram ?s)"
    by (simp_all add: ready_pool_eq pool_new_def submit_def)
  have 1: "service_reachable receive_udp 8 64 (fresh_service 8 64\<lparr>sv_phase := Listen_Waiting\<rparr>)"
    using service_reachable_listens [OF fresh_service_reachable, of 8 64 receive_udp ?ev] s
    by (simp add: fresh_service_def)
  have 2: "service_reachable receive_udp 8 64
      (fresh_service 8 64\<lparr>sv_phase := Listen_Got sample_datagram, sv_received := [sample_datagram]\<rparr>)"
    using service_reachable_listens [OF 1, of ?ev] s
    by (simp add: fresh_service_def sample_datagram_def sample_wire_def)
  have 3: "service_reachable receive_udp 8 64
      (fresh_service 8 64\<lparr>sv_phase := Listen_Submitting sample_datagram, sv_received := [sample_datagram]\<rparr>)"
    using service_reachable_listens [OF 2, of ?ev] s by (simp add: fresh_service_def)
  show ?thesis
    using service_reachable_listens [OF 3, of ?ev] s
    by (cases "submit sample_datagram ?s") (simp add: fresh_service_def sample_intake_def)
qed



section \<open>The life of the service\<close>

text \<open>
  \<^verbatim>\<open>Server::bind\<close> and the start of \<^verbatim>\<open>Server::run\<close> are sequences of calls whose first error is returned;
  the arguments are their outcomes in order.
\<close>

definition server_bind ::
  "(io_error, unit) result \<Rightarrow> (io_error, unit) result \<Rightarrow> (io_error, unit) result \<Rightarrow> (io_error, unit) result
   \<Rightarrow> config \<Rightarrow> (io_error, routing_table) result" where
  "server_bind udp tcp read_timeout write_timeout c =
     rbind udp (\<lambda>_. rbind tcp (\<lambda>_. rbind read_timeout (\<lambda>_. rbind write_timeout (\<lambda>_. Ok (config_routing c)))))"

text \<open>\<^verbatim>\<open>Result::and\<close>\<close>

fun result_and :: "('e, 'a) result \<Rightarrow> ('e, 'b) result \<Rightarrow> ('e, 'b) result" where
  "result_and (Ok x) r = r"
| "result_and (Err e) r = Err e"
| "result_and Panic r = Panic"

text \<open>The result of a pool as an I/O result. The kind \<open>OtherKind 0\<close> is \<^verbatim>\<open>ErrorKind::Other\<close>.\<close>

fun pool_io :: "pool_result \<Rightarrow> (io_error, unit) result" where
  "pool_io Pool_Ok = Ok ()"
| "pool_io Pool_TimedOut = Err (Custom TimedOut ''worker shutdown incomplete'')"
| "pool_io Pool_Failed = Err (Custom (OtherKind 0) ''worker or queue terminated unexpectedly'')"
| "pool_io (Pool_Init e) = Err e"

definition tcp_thread_result :: "(io_error, unit) result \<Rightarrow> pool_result \<Rightarrow> (io_error, unit) result" where
  "tcp_thread_result accepting workers = result_and accepting (pool_io workers)"

datatype completion = Completed | Disconnected | Completion_Timeout

text \<open>
  The wait for the TCP listener. \<open>joined\<close> is the result of its thread, \<open>None\<close> after a panic;
  \<open>wake\<close> is the outcome of the local connection, with the text of its error.
\<close>

definition tcp_result ::
  "completion \<Rightarrow> (io_error, unit) result option \<Rightarrow> string + unit \<Rightarrow> (io_error, unit) result" where
  "tcp_result signal joined wake =
     (case signal of
        Completion_Timeout \<Rightarrow>
          Err (Custom TimedOut (''TCP listener shutdown timed out: '' @
            (case wake of
               Inr _ \<Rightarrow> ''local wake connection succeeded''
             | Inl e \<Rightarrow> ''local wake connection failed: '' @ e)))
      | _ \<Rightarrow>
          (case joined of
             Some r \<Rightarrow> r
           | None \<Rightarrow> Err (Custom (OtherKind 0) ''TCP listener terminated unexpectedly'')))"

definition run_result ::
  "(io_error, unit) result \<Rightarrow> pool_result \<Rightarrow> (io_error, unit) result \<Rightarrow> (io_error, unit) result" where
  "run_result receiving udp_workers tcp = result_and (result_and receiving (pool_io udp_workers)) tcp"

datatype run_line = Line_Listening | Line_Stopping | Line_Complete

definition complete_lines :: "(io_error, unit) result \<Rightarrow> run_line list" where
  "complete_lines tcp = (case tcp of Ok _ \<Rightarrow> [Line_Complete] | _ \<Rightarrow> [])"

text \<open>
  The calls of \<^verbatim>\<open>Server::run\<close> with their outcomes; \<open>Some e\<close> is the failure of a call of the start. The
  trace shows what happens to the two pools: a pool that has been started is dropped, in reverse
  order, when a later call of the start fails; the TCP pool belongs to its thread once that runs,
  and the UDP pool is shut down and dropped at the end.
\<close>

record run_calls =
  new_udp_pool :: "io_error option"
  new_tcp_pool :: "io_error option"
  local_addr :: "io_error option"
  spawn_tcp :: "io_error option"
  udp_received :: "(io_error, unit) result"
  wake_tcp :: "string + unit"
  udp_shutdown :: pool_result
  tcp_completion :: completion
  tcp_joined :: "(io_error, unit) result option"

datatype run_event =
    Run_Pool transport | Run_Drop transport | Run_Spawn | Run_Line run_line | Run_Receive | Run_Stop
  | Run_Wake | Run_Shutdown transport | Run_Wait

definition server_run :: "run_calls \<Rightarrow> (io_error, unit) result \<times> run_event list" where
  "server_run c =
     (case new_udp_pool c of
        Some e \<Rightarrow> (Err e, [])
      | None \<Rightarrow>
          (case new_tcp_pool c of
             Some e \<Rightarrow> (Err e, [Run_Pool Udp, Run_Drop Udp])
           | None \<Rightarrow>
               (case local_addr c of
                  Some e \<Rightarrow> (Err e, [Run_Pool Udp, Run_Pool Tcp, Run_Drop Tcp, Run_Drop Udp])
                | None \<Rightarrow>
                    (case spawn_tcp c of
                       Some e \<Rightarrow> (Err e, [Run_Pool Udp, Run_Pool Tcp, Run_Drop Tcp, Run_Drop Udp])
                     | None \<Rightarrow>
                         let tcp = tcp_result (tcp_completion c) (tcp_joined c) (wake_tcp c) in
                         (run_result (udp_received c) (udp_shutdown c) tcp,
                          [Run_Pool Udp, Run_Pool Tcp, Run_Spawn, Run_Line Line_Listening, Run_Receive,
                           Run_Stop, Run_Line Line_Stopping, Run_Wake, Run_Shutdown Udp, Run_Wait]
                          @ map Run_Line (complete_lines tcp) @ [Run_Drop Udp])))))"

lemma result_and_Ok: "result_and a b = Ok x \<longleftrightarrow> (\<exists>y. a = Ok y) \<and> b = Ok x"
  by (cases a) auto

lemma pool_io_Ok: "pool_io p = Ok u \<longleftrightarrow> p = Pool_Ok"
  by (cases p) auto

lemma run_result_Ok:
  assumes "run_result receiving udp_workers (tcp_result signal joined wake) = Ok u"
    and "joined = None \<or> joined = Some (tcp_thread_result accepting tcp_workers)"
  shows "receiving = Ok () \<and> udp_workers = Pool_Ok \<and> signal \<noteq> Completion_Timeout \<and> accepting = Ok ()
    \<and> tcp_workers = Pool_Ok"
  using assms
  by (auto simp: run_result_def tcp_result_def tcp_thread_result_def result_and_Ok pool_io_Ok
      split: completion.splits)

text \<open>Traffic is handled only after a complete start, and ended with everything that was started.\<close>

lemma server_run_starts:
  assumes "server_run c = (r, evs)"
  shows "Run_Receive \<in> set evs \<longleftrightarrow> new_udp_pool c = None \<and> new_tcp_pool c = None \<and> local_addr c = None \<and> spawn_tcp c = None"
    and "Run_Receive \<notin> set evs \<Longrightarrow> \<exists>e. r = Err e"
    and "Run_Pool Udp \<in> set evs \<Longrightarrow> last evs = Run_Drop Udp"
    and "Run_Pool Tcp \<in> set evs \<Longrightarrow> (Run_Drop Tcp \<in> set evs) \<noteq> (Run_Spawn \<in> set evs)"
  using assms
  by (auto simp: server_run_def Let_def complete_lines_def split: option.splits result.splits)

lemma server_run_Ok:
  assumes "server_run c = (Ok u, evs)"
  shows "run_result (udp_received c) (udp_shutdown c) (tcp_result (tcp_completion c) (tcp_joined c) (wake_tcp c)) = Ok u"
    and "Run_Line Line_Complete \<in> set evs"
  using assms
  by (auto simp: server_run_def Let_def complete_lines_def run_result_def result_and_Ok split: option.splits)

lemma service_end:
  assumes "pool_reachable n k p" and "pool_owner p = Returned (udp_shutdown c)"
    and "pool_reachable m d q" and "pool_owner q = Returned tcp_workers"
    and "tcp_joined c = None \<or> tcp_joined c = Some (tcp_thread_result accepting tcp_workers)"
    and "server_run c = (Ok (), evs)"
  shows "udp_received c = Ok () \<and> accepting = Ok () \<and> tcp_completion c \<noteq> Completion_Timeout
      \<and> list_all (\<lambda>w. w = Done) (pool_workers p) \<and> pool_panics p = 0 \<and> jobs_queue p = []
      \<and> list_all (\<lambda>w. w = Done) (pool_workers q) \<and> pool_panics q = 0 \<and> jobs_queue q = []
      \<and> Run_Line Line_Complete \<in> set evs"
  using run_result_Ok [OF server_run_Ok(1) [OF assms(6)] assms(5)] server_run_Ok(2) [OF assms(6)] assms(2,4)
    pool_returned_clean [OF assms(1)] pool_returned_clean [OF assms(3)] by simp


definition sample_calls :: run_calls where
  "sample_calls = \<lparr>new_udp_pool = None, new_tcp_pool = None, local_addr = None, spawn_tcp = None,
     udp_received = Ok (), wake_tcp = Inr (), udp_shutdown = Pool_Ok, tcp_completion = Completed,
     tcp_joined = Some (tcp_thread_result (Ok ()) Pool_Ok)\<rparr>"


text \<open>
  The line "shutdown complete" depends on the TCP side only: it is written also when the UDP
  workers did not end in time and the service returns that error.
\<close>

theorem complete_line_despite_failure:
  "\<exists>c evs. server_run c = (Err (Custom TimedOut ''worker shutdown incomplete''), evs)
     \<and> Run_Line Line_Complete \<in> set evs"
  by (rule exI [of _ "sample_calls\<lparr>udp_shutdown := Pool_TimedOut\<rparr>"])
    (simp add: server_run_def sample_calls_def run_result_def tcp_result_def tcp_thread_result_def
      complete_lines_def Let_def)

end
