(* ===== verification/Logging.thy ===== *)
theory Logging
  imports Prelude
begin

text \<open>
  Diagnostics (\<^verbatim>\<open>src/logging.rs\<close>): the warning window, the two bounded lanes and the writer thread.
  A line is its UTF-8 bytes. The lanes are \<^verbatim>\<open>sync_channel\<close>s of 64 and 16 lines, sending never waits.
  The writer is a state machine with one step for each of its reads of shared state (the important
  lane, the routine lane, the stop flag, the timed receive); the steps of the other threads
  interleave with them. \<open>lg_accepted\<close> records what the lanes accepted and \<open>lg_sink\<close> what was written.
  Clock readings are nanoseconds.

  Proved here: the lanes stay within their bounds and lines within 2048 bytes; each lane is
  written in order, without loss or repetition; a stop request outside of the writer's decision
  drains both lanes in a bounded number of steps, while inside of it an accepted line can be lost;
  at most forty warnings pass in any five seconds, more than twenty can, and each is accounted for.
\<close>

definition INTERVAL :: nat where [simp]: "INTERVAL = 5000000000"
definition BURST :: nat where [simp]: "BURST = 20"
definition MAX_LINE :: nat where [simp]: "MAX_LINE = 2048"

section \<open>Lanes\<close>

datatype lane = Routine | Important

fun lane_capacity :: "lane \<Rightarrow> nat" where
  "lane_capacity Routine = 64"
| "lane_capacity Important = 16"

datatype writer_phase = Reading_Important | Reading_Routine | Deciding | Waiting | Finished

record logger =
  lg_lanes :: "lane \<Rightarrow> string list"
  lg_stopping :: bool
  lg_phase :: writer_phase
  lg_sink :: "(lane \<times> string) list"
  lg_accepted :: "(lane \<times> string) list"

definition logger_start :: logger where
  "logger_start = \<lparr>lg_lanes = (\<lambda>_. []), lg_stopping = False, lg_phase = Reading_Important,
     lg_sink = [], lg_accepted = []\<rparr>"

text \<open>\<^verbatim>\<open>try_send\<close>: a full or disconnected channel drops the line.\<close>

definition try_send :: "lane \<Rightarrow> string \<Rightarrow> logger \<Rightarrow> logger" where
  "try_send lane line l =
     (if lg_phase l = Finished \<or> length (lg_lanes l lane) \<ge> lane_capacity lane then l
      else l\<lparr>lg_lanes := (lg_lanes l)(lane := lg_lanes l lane @ [line]),
             lg_accepted := lg_accepted l @ [(lane, line)]\<rparr>)"

text \<open>\<^verbatim>\<open>str::is_char_boundary\<close> on the bytes of a line.\<close>

definition is_char_boundary :: "string \<Rightarrow> nat \<Rightarrow> bool" where
  "is_char_boundary line i \<longleftrightarrow>
     i = 0 \<or> i = length line
     \<or> (i < length line \<and> \<not> (128 \<le> (of_char (line ! i) :: nat) \<and> (of_char (line ! i) :: nat) < 192))"

fun boundary_before :: "string \<Rightarrow> nat \<Rightarrow> nat" where
  "boundary_before line 0 = 0"
| "boundary_before line (Suc i) =
     (if is_char_boundary line (Suc i) then Suc i else boundary_before line i)"

definition truncate_line :: "string \<Rightarrow> string" where
  "truncate_line line =
     (if length line > MAX_LINE then take (boundary_before line MAX_LINE) line else line)"

definition emit_line :: "string \<Rightarrow> string \<Rightarrow> string" where
  "emit_line level message = truncate_line (level @ '' '' @ message)"

text \<open>\<open>OUTPUT\<close> is unset before \<open>initialize\<close>; a line is then dropped.\<close>

definition emit :: "string \<Rightarrow> string \<Rightarrow> bool \<Rightarrow> logger option \<Rightarrow> logger option" where
  "emit level message important output =
     (case output of
        None \<Rightarrow> None
      | Some l \<Rightarrow> Some (try_send (if important then Important else Routine) (emit_line level message) l))"

definition info :: "string \<Rightarrow> logger option \<Rightarrow> logger option" where
  "info message = emit ''INFO'' message True"

definition error :: "string \<Rightarrow> logger option \<Rightarrow> logger option" where
  "error message = emit ''ERROR'' message True"

text \<open>\<^verbatim>\<open>initialize\<close> when the thread starts: the cell keeps a value it already has.\<close>

definition initialize :: "logger option \<Rightarrow> logger option" where
  "initialize output = (case output of None \<Rightarrow> Some logger_start | Some l \<Rightarrow> Some l)"

definition panic_hook :: "logger option \<Rightarrow> logger option" where
  "panic_hook = error ''thread panicked; service will stop''"

section \<open>The warning window\<close>

record warning_window =
  started_at :: nat
  emitted :: nat
  suppressed :: nat

text \<open>
  One warning: the readings of the clock are the one taken for a window that may be created, the
  one of the elapsed time and the one of a window that replaces an expired one. The result is
  whether the warning passes, and how many were suppressed before it in an expired window.
\<close>

definition warn_window ::
  "nat \<Rightarrow> nat \<Rightarrow> nat \<Rightarrow> warning_window option \<Rightarrow> (bool \<times> nat) \<times> warning_window" where
  "warn_window created checked restarted state =
     (let window = (case state of
            Some w \<Rightarrow> w
          | None \<Rightarrow> \<lparr>started_at = created, emitted = 0, suppressed = 0\<rparr>);
          expired = (checked - started_at window \<ge> INTERVAL);
          lost = (if expired then suppressed window else 0);
          window = (if expired then \<lparr>started_at = restarted, emitted = 0, suppressed = 0\<rparr> else window) in
      if emitted window < BURST then ((True, lost), window\<lparr>emitted := emitted window + 1\<rparr>)
      else ((False, lost), window\<lparr>suppressed := min (suppressed window + 1) (2 ^ 64 - 1)\<rparr>))"

text \<open>The text of the summary is an argument: the number is printed by the standard library.\<close>

definition warn_lines :: "(nat \<Rightarrow> string) \<Rightarrow> string \<Rightarrow> bool \<times> nat \<Rightarrow> string list" where
  "warn_lines summary message r =
     (if snd r > 0 then [summary (snd r)] else []) @ (if fst r then [message] else [])"

definition log_warn ::
  "(nat \<Rightarrow> string) \<Rightarrow> string \<Rightarrow> bool \<Rightarrow> nat \<times> nat \<times> nat \<Rightarrow> warning_window option \<times> logger option
   \<Rightarrow> warning_window option \<times> logger option" where
  "log_warn summary message poisoned readings s =
     (if poisoned then s
      else
        (case readings of (created, checked, restarted) \<Rightarrow>
        (case warn_window created checked restarted (fst s) of
           (r, window) \<Rightarrow>
             (Some window, fold (\<lambda>m. emit ''WARN'' m False) (warn_lines summary message r) (snd s)))))"

section \<open>The writer\<close>

definition write_from :: "lane \<Rightarrow> logger \<Rightarrow> logger" where
  "write_from lane l =
     l\<lparr>lg_lanes := (lg_lanes l)(lane := tl (lg_lanes l lane)),
       lg_sink := lg_sink l @ [(lane, hd (lg_lanes l lane))], lg_phase := Reading_Important\<rparr>"

fun writer_step :: "logger \<Rightarrow> logger" where
  "writer_step l =
     (case lg_phase l of
        Reading_Important \<Rightarrow>
          if lg_lanes l Important \<noteq> [] then write_from Important l else l\<lparr>lg_phase := Reading_Routine\<rparr>
      | Reading_Routine \<Rightarrow>
          if lg_lanes l Routine \<noteq> [] then write_from Routine l else l\<lparr>lg_phase := Deciding\<rparr>
      | Deciding \<Rightarrow> l\<lparr>lg_phase := (if lg_stopping l then Finished else Waiting)\<rparr>
      | Waiting \<Rightarrow>
          if lg_lanes l Routine \<noteq> [] then write_from Routine l else l\<lparr>lg_phase := Reading_Important\<rparr>
      | Finished \<Rightarrow> l)"

text \<open>What dropping the guard stores; the bounded wait for the writer that follows changes nothing.\<close>

definition request_stop :: "logger \<Rightarrow> logger" where
  "request_stop l = l\<lparr>lg_stopping := True\<rparr>"

text \<open>Steps of the whole: the writer, a line of any thread, and the request to stop.\<close>

inductive log_step :: "logger \<Rightarrow> logger \<Rightarrow> bool" where
  step_writer: "lg_phase l \<noteq> Finished \<Longrightarrow> log_step l (writer_step l)"
| step_emit: "emit level message important (Some l) = Some l' \<Longrightarrow> log_step l l'"
| step_stop: "log_step l (request_stop l)"

inductive_cases log_stepE: "log_step l l'"

definition log_reachable :: "logger \<Rightarrow> bool" where
  "log_reachable l \<longleftrightarrow> log_step\<^sup>*\<^sup>* logger_start l"


section \<open>Lines\<close>

lemma boundary_before_le: "boundary_before line i \<le> i"
  by (induction line i rule: boundary_before.induct) auto

lemma boundary_before_is_boundary: "is_char_boundary line (boundary_before line i)"
  by (induction line i rule: boundary_before.induct) (auto simp: is_char_boundary_def)

lemma boundary_before_greatest:
  "j \<le> i \<Longrightarrow> is_char_boundary line j \<Longrightarrow> j \<le> boundary_before line i"
  by (induction line i rule: boundary_before.induct) (auto simp: le_Suc_eq)

lemma truncate_line_length: "length (truncate_line line) \<le> MAX_LINE"
  using boundary_before_le [of line MAX_LINE] by (auto simp: truncate_line_def)

lemma emit_line_length: "length (emit_line level message) \<le> MAX_LINE"
  by (simp only: emit_line_def truncate_line_length)

section \<open>The lanes are bounded and in order\<close>

definition of_lane :: "lane \<Rightarrow> (lane \<times> string) list \<Rightarrow> string list" where
  "of_lane lane entries = map snd (filter (\<lambda>e. fst e = lane) entries)"

lemma of_lane_simps [simp]:
  "of_lane lane [] = []"
  "of_lane lane (xs @ ys) = of_lane lane xs @ of_lane lane ys"
  "of_lane lane [(k, line)] = (if k = lane then [line] else [])"
  by (simp_all add: of_lane_def)

definition log_inv :: "logger \<Rightarrow> bool" where
  "log_inv l \<longleftrightarrow>
     (\<forall>lane. length (lg_lanes l lane) \<le> lane_capacity lane
        \<and> of_lane lane (lg_accepted l) = of_lane lane (lg_sink l) @ lg_lanes l lane)
     \<and> (\<forall>(lane, line) \<in> set (lg_accepted l). length line \<le> MAX_LINE)"

lemma log_inv_start: "log_inv logger_start"
  by (simp add: log_inv_def logger_start_def)

lemma log_inv_try_send:
  "log_inv l \<Longrightarrow> length line \<le> MAX_LINE \<Longrightarrow> log_inv (try_send lane line l)"
  by (auto simp: log_inv_def try_send_def)

lemma log_inv_phase: "log_inv l \<Longrightarrow> log_inv (l\<lparr>lg_phase := p\<rparr>)"
  by (simp add: log_inv_def)

lemma log_inv_write_from:
  assumes "log_inv l" and "lg_lanes l lane \<noteq> []"
  shows "log_inv (write_from lane l)"
proof -
  have "length (tl (lg_lanes l lane)) \<le> lane_capacity lane"
    using assms(1) unfolding log_inv_def by (metis diff_le_self dual_order.trans length_tl)
  then show ?thesis using assms by (auto simp: log_inv_def write_from_def)
qed

lemma log_inv_writer_step: "log_inv l \<Longrightarrow> log_inv (writer_step l)"
  by (cases "lg_phase l") (simp_all add: log_inv_phase log_inv_write_from)

lemma log_inv_step: "log_step l l' \<Longrightarrow> log_inv l \<Longrightarrow> log_inv l'"
proof (induction rule: log_step.induct)
  case (step_writer l)
  then show ?case using log_inv_writer_step by blast
next
  case (step_emit level message important l l')
  then show ?case by (auto simp: emit_def emit_line_length intro!: log_inv_try_send simp del: MAX_LINE_def)
next
  case (step_stop l)
  then show ?case by (simp add: log_inv_def request_stop_def)
qed

interpretation logging: step_invariant "(=) logger_start" log_step log_inv
  by unfold_locales (auto simp: log_inv_start log_inv_step)

lemma log_reachable_inv: "log_reachable l \<Longrightarrow> log_inv l"
  unfolding log_reachable_def using logging.inv_reachable by blast

text \<open>C35: in every interleaving of the writer with the threads that log, each lane holds at most its
  64 or 16 lines of at most 2048 bytes, and what the writer has written from a lane followed by
  what the lane still holds is what the lane accepted: no accepted line is lost, repeated or
  reordered within its lane while the writer runs.\<close>

theorem log_lanes_exact:
  assumes "log_reachable l"
  shows "length (lg_lanes l lane) \<le> lane_capacity lane
    \<and> of_lane lane (lg_accepted l) = of_lane lane (lg_sink l) @ lg_lanes l lane
    \<and> list_all (\<lambda>line. length line \<le> 2048) (of_lane lane (lg_accepted l))"
proof -
  note inv = log_reachable_inv [OF assms]
  have "list_all (\<lambda>line. length line \<le> 2048) (of_lane lane (lg_accepted l))"
  proof -
    have "\<forall>e \<in> set (lg_accepted l). length (snd e) \<le> 2048" using inv by (auto simp: log_inv_def)
    then show ?thesis by (auto simp: of_lane_def list_all_iff)
  qed
  then show ?thesis using inv by (simp add: log_inv_def)
qed

text \<open>A line that was logged and written.\<close>

definition sample_logged :: logger where
  "sample_logged = \<lparr>lg_lanes = (\<lambda>_. []), lg_stopping = False, lg_phase = Reading_Important,
     lg_sink = [(Important, ''INFO up'')], lg_accepted = [(Important, ''INFO up'')]\<rparr>"

lemma sample_logged_reachable: "log_reachable sample_logged"
proof -
  let ?l = "logger_start\<lparr>lg_lanes := (\<lambda>_. [])(Important := [''INFO up'']), lg_accepted := [(Important, ''INFO up'')]\<rparr>"
  have "log_step logger_start ?l"
    by (rule step_emit [of "''INFO''" "''up''" True])
      (simp add: emit_def try_send_def emit_line_def truncate_line_def logger_start_def)
  moreover have "log_step ?l sample_logged"
    using step_writer [of ?l]
    by (simp add: write_from_def logger_start_def sample_logged_def fun_upd_idem)
  ultimately show ?thesis unfolding log_reachable_def by (blast intro: rtranclp.rtrancl_into_rtrancl)
qed

theorem log_lanes_exact_witness:
  "of_lane Important (lg_accepted sample_logged) = [''INFO up'']
   \<and> of_lane Important (lg_sink sample_logged) @ lg_lanes sample_logged Important = [''INFO up'']"
  using log_lanes_exact [OF sample_logged_reachable, of Important] by (simp add: sample_logged_def)

section \<open>Shutdown\<close>

definition queued :: "logger \<Rightarrow> nat" where
  "queued l = length (lg_lanes l Important) + length (lg_lanes l Routine)"

definition drained :: "logger \<Rightarrow> logger \<Rightarrow> bool" where
  "drained l l' \<longleftrightarrow> lg_phase l' = Finished \<and> (\<forall>lane. lg_lanes l' lane = [])
     \<and> lg_accepted l' = lg_accepted l"

lemma write_from_queued:
  "lg_lanes l lane \<noteq> [] \<Longrightarrow> queued l = Suc (queued (write_from lane l))"
  by (cases lane; cases "lg_lanes l lane") (auto simp: queued_def write_from_def)

lemma write_from_keeps [simp]:
  "lg_accepted (write_from lane l) = lg_accepted l"
  "lg_stopping (write_from lane l) = lg_stopping l"
  "lg_phase (write_from lane l) = Reading_Important"
  by (simp_all add: write_from_def)

definition drains_within :: "nat \<Rightarrow> logger \<Rightarrow> bool" where
  "drains_within b l \<longleftrightarrow> (\<exists>n \<le> b. drained l ((writer_step ^^ n) l))"

lemma drains_within_mono: "drains_within b l \<Longrightarrow> b \<le> c \<Longrightarrow> drains_within c l"
  by (auto simp: drains_within_def intro: le_trans)

lemma drains_within_step:
  assumes "drains_within b (writer_step l)" and "lg_accepted (writer_step l) = lg_accepted l" and "b < c"
  shows "drains_within c l"
proof -
  obtain n where "n \<le> b" "drained l ((writer_step ^^ Suc n) l)"
    using assms(1,2) by (auto simp: drains_within_def drained_def funpow_swap1 simp del: writer_step.simps)
  then show ?thesis using assms(3) by (auto simp: drains_within_def intro!: exI [of _ "Suc n"])
qed

lemma drains_from_read:
  "lg_stopping l \<Longrightarrow> lg_phase l = Reading_Important \<Longrightarrow> drains_within (2 * queued l + 3) l"
proof (induction "queued l" arbitrary: l rule: less_induct)
  case less
  have written: "drains_within (2 * queued l + 1) (write_from lane k)"
    if "lg_lanes k lane \<noteq> []" "queued k = queued l" "lg_stopping k" for lane k
    using less.hyps [of "write_from lane k"] write_from_queued [of k lane] that
    by (simp add: numeral_3_eq_3)
  let ?m = "l\<lparr>lg_phase := Reading_Routine\<rparr>"
  have m: "drains_within (2 * queued l + 2) ?m" if "lg_lanes l Important = []"
  proof (cases "lg_lanes l Routine = []")
    case False
    then show ?thesis
      by (intro drains_within_step [of "2 * queued l + 1" ?m])
        (use written [of ?m Routine] less.prems in \<open>simp_all add: queued_def\<close>)
  next
    case True
    have "lg_lanes l lane = []" for lane by (cases lane) (simp_all add: True that)
    then have "drained ?m ((writer_step ^^ 2) ?m)"
      using less.prems by (simp add: drained_def eval_nat_numeral)
    then show ?thesis by (auto simp: drains_within_def intro!: exI [of _ 2])
  qed
  show ?case
  proof (cases "lg_lanes l Important = []")
    case True
    then show ?thesis
      using m less.prems by (intro drains_within_step [of "2 * queued l + 2" l]) simp_all
  next
    case False
    then show ?thesis
      using written [of l Important] less.prems
      by (intro drains_within_step [of "2 * queued l + 1" l]) simp_all
  qed
qed



text \<open>
  The guarantee does not extend to a stop that falls between the writer's read of the important
  lane and its read of the flag: an error line that was accepted before the stop request is then
  never written. The program logs its final error just before it drops the guard.
\<close>

theorem shutdown_can_lose_a_line:
  "\<exists>l l'. log_reachable l \<and> \<not> lg_stopping l \<and> (Important, ''ERROR x'') \<in> set (lg_accepted l)
     \<and> log_step\<^sup>*\<^sup>* (request_stop l) l' \<and> lg_phase l' = Finished \<and> lg_sink l' = []"
proof -
  let ?a = "logger_start\<lparr>lg_phase := Reading_Routine\<rparr>"
  let ?b = "?a\<lparr>lg_lanes := (\<lambda>_. [])(Important := [''ERROR x'']), lg_accepted := [(Important, ''ERROR x'')]\<rparr>"
  let ?c = "(request_stop ?b)\<lparr>lg_phase := Deciding\<rparr>"
  let ?d = "(request_stop ?b)\<lparr>lg_phase := Finished\<rparr>"
  have "log_step logger_start ?a"
    using step_writer [of logger_start] by (simp add: logger_start_def)
  moreover have "log_step ?a ?b"
    by (rule step_emit [of "''ERROR''" "''x''" True])
      (simp add: emit_def try_send_def emit_line_def truncate_line_def logger_start_def)
  moreover have "log_step (request_stop ?b) ?c"
    using step_writer [of "request_stop ?b"] by (simp add: logger_start_def request_stop_def)
  moreover have "log_step ?c ?d"
    using step_writer [of ?c] by (simp add: logger_start_def request_stop_def)
  ultimately have "log_reachable ?b" "log_step\<^sup>*\<^sup>* (request_stop ?b) ?d"
    unfolding log_reachable_def by (blast intro: rtranclp.rtrancl_into_rtrancl)+
  then show ?thesis
    by (intro exI [of _ ?b] exI [of _ ?d]) (simp add: logger_start_def request_stop_def)
qed


section \<open>The rate of warnings\<close>

text \<open>
  A sequence of warnings, each with its readings of the clock: whether it passed, and how many
  suppressed warnings it reported. The lock orders the calls, so the readings do not decrease.
\<close>

fun warn_run :: "(nat \<times> nat \<times> nat) list \<Rightarrow> warning_window option \<Rightarrow> (bool \<times> nat) list" where
  "warn_run [] state = []"
| "warn_run ((created, checked, restarted) # rest) state =
     (case warn_window created checked restarted state of
        (r, window) \<Rightarrow> r # warn_run rest (Some window))"

fun ordered_from :: "nat \<Rightarrow> (nat \<times> nat \<times> nat) list \<Rightarrow> bool" where
  "ordered_from now [] = True"
| "ordered_from now ((created, checked, restarted) # rest) =
     (now \<le> created \<and> created \<le> checked \<and> checked \<le> restarted \<and> ordered_from restarted rest)"

text \<open>The number of warnings that pass with an elapsed-time reading in \<open>[a, b)\<close>.\<close>

fun passed_in :: "nat \<Rightarrow> nat \<Rightarrow> (nat \<times> nat \<times> nat) list \<Rightarrow> warning_window option \<Rightarrow> nat" where
  "passed_in a b [] state = 0"
| "passed_in a b ((created, checked, restarted) # rest) state =
     (case warn_window created checked restarted state of
        ((passes, lost), window) \<Rightarrow>
          (if passes \<and> a \<le> checked \<and> checked < b then 1 else 0) + passed_in a b rest (Some window))"

lemma warn_window_Some:
  "warn_window created checked restarted (Some w) =
     (if checked - started_at w \<ge> INTERVAL
      then ((True, suppressed w), \<lparr>started_at = restarted, emitted = 1, suppressed = 0\<rparr>)
      else if emitted w < BURST then ((True, 0), w\<lparr>emitted := emitted w + 1\<rparr>)
      else ((False, 0), w\<lparr>suppressed := min (suppressed w + 1) (2 ^ 64 - 1)\<rparr>))"
  by (simp add: warn_window_def Let_def)

lemma warn_window_None:
  "warn_window created checked restarted None =
     warn_window created checked restarted (Some \<lparr>started_at = created, emitted = 0, suppressed = 0\<rparr>)"
  by (simp add: warn_window_def)

lemma passed_in_late: "ordered_from now rs \<Longrightarrow> b \<le> now \<Longrightarrow> passed_in a b rs state = 0"
proof (induction rs arbitrary: now state)
  case (Cons r rs)
  then show ?case by (cases r) (fastforce split: prod.split)
qed simp

lemma ordered_from_checked: "ordered_from now rs \<Longrightarrow> list_all (\<lambda>(created, checked, restarted). now \<le> checked) rs"
proof (induction rs arbitrary: now)
  case (Cons r rs)
  obtain c k s where r: "r = (c, k, s)" by (cases r)
  with Cons show ?case by (fastforce simp: list_all_iff)
qed simp

lemma passed_in_window:
  "ordered_from now rs \<Longrightarrow> b \<le> started_at w + INTERVAL \<Longrightarrow> passed_in a b rs (Some w) \<le> BURST - emitted w"
proof (induction rs arbitrary: now w)
  case (Cons r rs)
  obtain c k s where r: "r = (c, k, s)" by (cases r)
  show ?case
  proof (cases "k - started_at w \<ge> INTERVAL")
    case True
    then have "b \<le> k" using Cons.prems by simp
    then show ?thesis
      using True Cons.prems r passed_in_late [of s rs b] by (simp add: warn_window_Some)
  next
    case False
    then show ?thesis
      using Cons.prems r Cons.IH [of s "w\<lparr>emitted := emitted w + 1\<rparr>"]
        Cons.IH [of s "w\<lparr>suppressed := min (suppressed w + 1) (2 ^ 64 - 1)\<rparr>"]
      by (auto simp: warn_window_Some)
  qed
qed simp

lemma passed_in_two_windows:
  "ordered_from now rs \<Longrightarrow> list_all (\<lambda>(created, checked, restarted). a \<le> checked) rs \<Longrightarrow>
     passed_in a (a + INTERVAL) rs (Some w) \<le> BURST - emitted w + BURST"
proof (induction rs arbitrary: now w)
  case (Cons r rs)
  obtain c k s where r: "r = (c, k, s)" by (cases r)
  show ?case
  proof (cases "k - started_at w \<ge> INTERVAL")
    case True
    then show ?thesis
      using Cons.prems r passed_in_window [of s rs "a + INTERVAL" "\<lparr>started_at = s, emitted = 1, suppressed = 0\<rparr>" a]
      by (simp add: warn_window_Some)
  next
    case False
    then show ?thesis
      using Cons.prems r Cons.IH [of s "w\<lparr>emitted := emitted w + 1\<rparr>"]
        Cons.IH [of s "w\<lparr>suppressed := min (suppressed w + 1) (2 ^ 64 - 1)\<rparr>"]
      by (auto simp: warn_window_Some)
  qed
qed simp

lemma passed_in_None:
  "passed_in a b (r # rs) None =
     passed_in a b (r # rs) (Some \<lparr>started_at = fst r, emitted = 0, suppressed = 0\<rparr>)"
  by (cases r) (simp add: warn_window_None)

lemma passed_in_bound: "ordered_from now rs \<Longrightarrow> passed_in a (a + INTERVAL) rs state \<le> 2 * BURST"
proof (induction rs arbitrary: now state)
  case (Cons r rs)
  obtain c k s where r: "r = (c, k, s)" by (cases r)
  show ?case
  proof (cases "a \<le> k")
    case True
    then have all: "list_all (\<lambda>(created, checked, restarted). a \<le> checked) (r # rs)"
      using Cons.prems r ordered_from_checked [of s rs] by (fastforce simp: list_all_iff)
    have "passed_in a (a + INTERVAL) (r # rs) (Some w) \<le> 2 * BURST" for w
      using passed_in_two_windows [OF Cons.prems all, of w] by (simp del: passed_in.simps)
    then show ?thesis by (cases state) (simp_all only: passed_in_None)
  next
    case False
    then show ?thesis
      using Cons.prems r Cons.IH [of s] by (simp split: prod.split)
  qed
qed simp

text \<open>The window after a sequence of warnings, and the count it holds.\<close>

fun warn_after :: "(nat \<times> nat \<times> nat) list \<Rightarrow> warning_window option \<Rightarrow> warning_window option" where
  "warn_after [] state = state"
| "warn_after ((created, checked, restarted) # rest) state =
     warn_after rest (Some (snd (warn_window created checked restarted state)))"

fun unreported :: "warning_window option \<Rightarrow> nat" where
  "unreported None = 0"
| "unreported (Some w) = suppressed w"

lemma warn_window_accounts:
  "unreported state + 1 < 2 ^ 64 \<Longrightarrow> warn_window created checked restarted state = ((passes, lost), w) \<Longrightarrow>
     (if passes then 1 else 0) + lost + suppressed w = unreported state + 1"
  by (cases state) (auto simp: warn_window_None warn_window_Some split: if_splits)

lemma warn_run_accounts:
  "unreported state + length rs < 2 ^ 64 \<Longrightarrow>
     length (filter fst (warn_run rs state)) + sum_list (map snd (warn_run rs state))
       + unreported (warn_after rs state) = unreported state + length rs"
proof (induction rs arbitrary: state)
  case (Cons r rs)
  obtain c k s where r: "r = (c, k, s)" by (cases r)
  obtain passes lost w where w: "warn_window c k s state = ((passes, lost), w)" by (metis prod.exhaust)
  note step = warn_window_accounts [OF _ w]
  have "unreported (Some w) + length rs < 2 ^ 64" using step Cons.prems by (auto split: if_splits)
  from Cons.IH [OF this] step Cons.prems show ?case by (auto simp: r w split: if_splits)
qed simp

text \<open>C36: however the calls fall, at most forty warnings, twice the burst, pass in any span of five
  seconds, and every warning is accounted for: it passes, or a later summary line counts it, or it
  is in the count of the current window.\<close>

theorem warn_rate:
  assumes "ordered_from now rs" and "length rs < 2 ^ 64"
  shows "passed_in a (a + 5000000000) rs None \<le> 40
    \<and> length (filter fst (warn_run rs None)) + sum_list (map snd (warn_run rs None))
        + unreported (warn_after rs None) = length rs"
  using passed_in_bound [OF assms(1), of a None] warn_run_accounts [of None rs] assms(2) by simp

theorem warn_rate_witness:
  "warn_run [(0, 0, 0), (3, 4, 5)] None = [(True, 0), (True, 0)]
   \<and> passed_in 0 (0 + 5000000000) [(0, 0, 0), (3, 4, 5)] None \<le> 40"
  using warn_rate [of 0 "[(0, 0, 0), (3, 4, 5)]" 0] by (simp add: warn_window_def)

text \<open>
  The source describes the limit as twenty warnings in five seconds. The window is not a sliding
  one: one warning starts it, nineteen follow at its end, and twenty more at the start of the next.
\<close>

lemma passed_in_replicate:
  "a \<le> t \<Longrightarrow> t < b \<Longrightarrow> t - started_at w < INTERVAL \<Longrightarrow> emitted w + n \<le> BURST \<Longrightarrow>
     passed_in a b (replicate n (t, t, t) @ rs) (Some w) = n + passed_in a b rs (Some (w\<lparr>emitted := emitted w + n\<rparr>))"
  by (induction n arbitrary: w) (simp_all add: warn_window_Some)

theorem warnings_exceed_burst:
  defines "rs \<equiv> (0, 0, 0) # replicate 19 (4900000000, 4900000000, 4900000000)
       @ (5000000000, 5000000000, 5000000000) # replicate 19 (5000000000, 5000000000, 5000000000) @ []"
  shows "ordered_from 0 rs \<and> passed_in 4900000000 (4900000000 + 5000000000) rs None = 39"
proof
  have rep: "ordered_from now (replicate n (t, t, t) @ qs) \<longleftrightarrow> n = 0 \<and> ordered_from now qs \<or> now \<le> t \<and> ordered_from t qs"
    if "0 < n" for now n t qs
    using that
  proof (induction n arbitrary: now)
    case (Suc n)
    then show ?case by (cases n) auto
  qed simp
  show "ordered_from 0 rs" unfolding rs_def by (simp add: rep del: append_Nil2)
  show "passed_in 4900000000 (4900000000 + 5000000000) rs None = 39"
    unfolding rs_def passed_in_None
    by (simp add: warn_window_Some passed_in_replicate del: append_Nil2)
qed

end
