(* ===== verification/Settling.thy ===== *)
theory Settling
  imports Composition
begin

text \<open>
  Requests end. A run that waits for the network has no bound of its own, but it looks at its
  deadline and the stop flag again and again. Let \<open>L\<close> be a set of observations, the late ones, that
  every check of a deadline refuses (\<open>watches L dl\<close>): those that show the deadline reached or the
  stop flag set. \<open>settles_at L a k m w\<close>: from \<open>w\<close>, if the script ends in at least \<open>k\<close> late observations,
  the run \<open>m\<close> returns and uses at most \<open>k\<close> of them; if all observations are late, \<open>a\<close> of them are
  enough. The first number is what makes loops possible: a round that has used a late observation
  is the last one, because the next round begins with a check that fails. So the bound of a loop
  over arbitrarily many rounds, chunks, datagrams or servers is the bound of one round.

  Proved here: the handler returns after at most 49 late observations.
\<close>

section \<open>Late observations\<close>

type_synonym late = "observation \<Rightarrow> bool"

definition past :: "instant \<Rightarrow> late" where
  "past D ob \<longleftrightarrow> ob_stop ob \<or> D \<le> ob_now ob"

definition watches :: "late \<Rightarrow> deadline \<Rightarrow> bool" where
  "watches L dl \<longleftrightarrow> (\<forall>ob. L ob \<longrightarrow> past (expiry dl) ob)"

lemma watches_past: "watches (past (expiry dl)) dl"
  by (simp add: watches_def)

lemma watches_stop: "watches ob_stop dl"
  by (simp add: watches_def past_def)

lemma watches_earlier: "watches L dl \<Longrightarrow> expiry dl' \<le> expiry dl \<Longrightarrow> watches L dl'"
  by (auto simp: watches_def past_def)

definition lateness :: "late \<Rightarrow> 'z env_scheme \<Rightarrow> nat" where
  "lateness L w = length (takeWhile L (rev (script w)))"

definition all_late :: "late \<Rightarrow> 'z env_scheme \<Rightarrow> bool" where
  "all_late L w \<longleftrightarrow> list_all L (script w)"

lemma late_update [simp]:
  "lateness L (w\<lparr>checked := c\<rparr>) = lateness L w" "all_late L (w\<lparr>checked := c\<rparr>) = all_late L w"
  "lateness L (w\<lparr>connections := n\<rparr>) = lateness L w" "all_late L (w\<lparr>connections := n\<rparr>) = all_late L w"
  "lateness L (w\<lparr>performed := l\<rparr>) = lateness L w" "all_late L (w\<lparr>performed := l\<rparr>) = all_late L w"
  by (simp_all add: lateness_def all_late_def)

lemma takeWhile_rev_all: "\<forall>x\<in>set xs. P x \<Longrightarrow> takeWhile P (rev xs) = rev xs"
  by (simp add: takeWhile_eq_all_conv [THEN iffD2])

text \<open>A run that has used observations past \<open>L\<close> has only such observations left.\<close>

lemma lateness_suffix:
  assumes "script w = pre @ script v"
  shows "all_late L v \<or> lateness L v = lateness L w"
proof (cases "all_late L v")
  case False
  then obtain x where "x \<in> set (script v)" "\<not> L x" by (auto simp: all_late_def list_all_iff)
  then have "takeWhile L (rev (script v) @ rev pre) = takeWhile L (rev (script v))"
    by (intro takeWhile_append1 [of x]) auto
  then show ?thesis using assms by (simp add: lateness_def)
qed simp

lemma lateness_suffix_le: "script w = pre @ script v \<Longrightarrow> all_late L w \<Longrightarrow> all_late L v"
  by (simp add: all_late_def)

section \<open>Settling\<close>

definition settles_at :: "late \<Rightarrow> nat \<Rightarrow> nat \<Rightarrow> ('e, 'a, 'z) io \<Rightarrow> 'z env_scheme \<Rightarrow> bool" where
  "settles_at L a k m w \<longleftrightarrow>
     (\<exists>pre. script w = pre @ script (snd (m w)))
     \<and> ((if all_late L w then a else k) \<le> lateness L w \<longrightarrow>
          fst (m w) \<noteq> None \<and> lateness L w \<le> lateness L (snd (m w)) + (if all_late L w then a else k))"

named_theorems settling "runs that settle"

lemma settles_at_weaken: "settles_at L a k m w \<Longrightarrow> a \<le> b \<Longrightarrow> k \<le> l \<Longrightarrow> settles_at L b l m w"
  by (auto simp: settles_at_def)

lemma settles_at_then:
  assumes m: "settles_at L a k m w" and mw: "m w = (Some r, v)" and f: "settles_at L b l f v"
    and n: "n w = f v"
  shows "settles_at L (a + b) (max l (k + b)) n w"
proof -
  obtain pre where pre: "script w = pre @ script v" using m mw by (auto simp: settles_at_def)
  obtain pre' where pre': "script v = pre' @ script (snd (f v))" using f by (auto simp: settles_at_def)
  note late = lateness_suffix [OF pre, of L] lateness_suffix_le [OF pre, of L]
  have "fst (n w) \<noteq> None \<and> lateness L w \<le> lateness L (snd (n w)) + (if all_late L w then a + b else max l (k + b))"
    if "(if all_late L w then a + b else max l (k + b)) \<le> lateness L w"
    using that m f late mw n by (auto simp: settles_at_def split: if_splits)
  then show ?thesis using pre pre' n by (auto simp: settles_at_def)
qed

lemma settles_at_stops:
  assumes "settles_at L a k m w" and "n w = (r, snd (m w))" and "fst (m w) \<noteq> None \<Longrightarrow> r \<noteq> None"
    and "a \<le> b" and "k \<le> l"
  shows "settles_at L b l n w"
  using assms by (auto simp: settles_at_def)

text \<open>Sequencing, with room for the bounds of the whole.\<close>

lemma settles_at_bind:
  assumes "settles_at L a k m w" and "\<And>x v. m w = (Some (Ok x), v) \<Longrightarrow> settles_at L b l (f x) v"
    and "a + b \<le> c" and "max l (k + b) \<le> n"
  shows "settles_at L c n (io_bind m f) w"
proof (cases "\<exists>x. fst (m w) = Some (Ok x)")
  case True
  then obtain x v where mw: "m w = (Some (Ok x), v)" by (metis prod.collapse)
  show ?thesis
    by (rule settles_at_weaken [OF settles_at_then [OF assms(1) mw assms(2) [OF mw]] assms(3,4)])
      (simp add: mw io_bind_def)
next
  case False
  show ?thesis
    by (rule settles_at_stops [OF assms(1), where r = "fst (io_bind m f w)"])
      (use False assms(3,4) in \<open>auto simp: io_bind_def split: prod.splits option.splits result.splits\<close>)
qed

lemma settles_at_match:
  assumes "settles_at L a k m w" and "\<And>x v. m w = (Some (Ok x), v) \<Longrightarrow> settles_at L b l (f x) v"
    and "\<And>e v. m w = (Some (Err e), v) \<Longrightarrow> settles_at L b l (g e) v"
    and "a + b \<le> c" and "max l (k + b) \<le> n"
  shows "settles_at L c n (io_match m f g) w"
proof -
  consider x v where "m w = (Some (Ok x), v)" | e v where "m w = (Some (Err e), v)"
    | "fst (m w) = None \<or> fst (m w) = Some Panic"
    by (metis option.exhaust result.exhaust prod.collapse)
  then show ?thesis
  proof cases
    case (1 x v)
    show ?thesis
      by (rule settles_at_weaken [OF settles_at_then [OF assms(1) 1 assms(2) [OF 1]] assms(4,5)])
        (simp add: 1 io_match_def)
  next
    case (2 e v)
    show ?thesis
      by (rule settles_at_weaken [OF settles_at_then [OF assms(1) 2 assms(3) [OF 2]] assms(4,5)])
        (simp add: 2 io_match_def)
  next
    case 3
    show ?thesis
      by (rule settles_at_stops [OF assms(1), where r = "fst (io_match m f g w)"])
        (use 3 assms(4,5) in \<open>auto simp: io_match_def split: prod.splits option.splits result.splits\<close>)
  qed
qed

lemma settles_at_cong: "n w = m w \<Longrightarrow> settles_at L a k n w = settles_at L a k m w"
  by (simp add: settles_at_def)

lemma settles_at_same:
  "settles_at L a k m v \<Longrightarrow> script v = script w \<Longrightarrow> n w = m v \<Longrightarrow> settles_at L a k n w"
  by (simp add: settles_at_def lateness_def all_late_def)

lemma settles_at_if:
  "(c \<Longrightarrow> settles_at L a k f w) \<Longrightarrow> (\<not> c \<Longrightarrow> settles_at L a k g w) \<Longrightarrow> settles_at L a k (if c then f else g) w"
  "(c \<Longrightarrow> settles_at L a k f w) \<Longrightarrow> (\<not> c \<Longrightarrow> settles_at L a k g w) \<Longrightarrow> settles_at L a k (\<lambda>v. if c then f v else g v) w"
  by (cases c; simp)+

lemma settles_at_return:
  "script (snd (m w)) = script w \<Longrightarrow> fst (m w) \<noteq> None \<Longrightarrow> settles_at L 0 0 m w"
  by (simp add: settles_at_def lateness_def)

lemma settles_at_pure [settling]:
  "settles_at L 0 0 (io_ok x) w" "settles_at L 0 0 (io_err e) w" "settles_at L 0 0 (io_lift r) w"
  "settles_at L 0 0 (perform a) w" "settles_at L 0 0 (warn m) w"
  by (auto intro!: settles_at_return simp: io_ok_def io_err_def io_lift_def perform_def warn_def)

lemma settles_at_map_err [settling]:
  "settles_at L a k m w \<Longrightarrow> settles_at L a k (io_map_err g m) w"
  by (rule settles_at_stops [where m = m and r = "fst (io_map_err g m w)"])
    (auto simp: io_map_err_def io_match_def io_ok_def io_err_def
      split: prod.splits option.splits result.splits)

text \<open>A step that observes nothing costs nothing.\<close>

lemma settles_at_bind_free:
  assumes "script (snd (m w)) = script w" and "fst (m w) \<noteq> None"
    and "\<And>x v. m w = (Some (Ok x), v) \<Longrightarrow> settles_at L a k (f x) v"
  shows "settles_at L a k (io_bind m f) w"
proof (cases "\<exists>x. fst (m w) = Some (Ok x)")
  case True
  then obtain x v where mw: "m w = (Some (Ok x), v)" by (metis prod.collapse)
  show ?thesis by (rule settles_at_same [OF assms(3) [OF mw]]) (use assms(1) in \<open>simp_all add: mw io_bind_def\<close>)
next
  case False
  have "settles_at L 0 0 (io_bind m f) w"
    by (rule settles_at_return) (use False assms(1,2) in \<open>auto simp: io_bind_def split: prod.split option.split result.split\<close>)
  then show ?thesis by (rule settles_at_weaken) simp_all
qed

lemma settles_at_bind_lift:
  "(\<And>x. r = Ok x \<Longrightarrow> settles_at L a k (f x) w) \<Longrightarrow> settles_at L a k (io_bind (io_lift r) f) w"
  by (rule settles_at_bind_free) (auto simp: io_lift_def)

lemma settles_at_bind_perform:
  "(\<And>v. settles_at L a k (f ()) v) \<Longrightarrow> settles_at L a k (io_bind (perform x) f) w"
  "(\<And>v. settles_at L a k (f ()) v) \<Longrightarrow> settles_at L a k (io_bind (warn m) f) w"
  by (rule settles_at_bind_free; simp add: warn_def perform_def)+

lemma settles_at_match_lift:
  assumes "\<And>x. r = Ok x \<Longrightarrow> settles_at L a k (f x) w" and "\<And>e. r = Err e \<Longrightarrow> settles_at L a k (g e) w"
  shows "settles_at L a k (io_match (io_lift r) f g) w"
proof (cases r)
  case Panic
  have "settles_at L 0 0 (io_match (io_lift r) f g) w"
    by (rule settles_at_return) (simp_all add: io_match_def io_lift_def Panic)
  then show ?thesis by (rule settles_at_weaken) simp_all
qed (simp_all add: io_match_lift assms)

lemmas settles_at_free = settles_at_pure [THEN settles_at_weaken, OF le0 le0]

section \<open>Single observations\<close>

lemma lateness_step:
  "script w = ob # rest \<Longrightarrow> script v = rest \<Longrightarrow>
     (all_late L w \<longrightarrow> lateness L w = Suc (lateness L v)) \<and> (\<not> all_late L w \<longrightarrow> lateness L w = lateness L v)"
  by (auto simp: lateness_def all_late_def list_all_iff takeWhile_append takeWhile_rev_all)

lemma observe_settles [settling]: "settles_at L 1 0 observe w"
proof (cases "script w")
  case Nil
  then show ?thesis by (simp add: settles_at_def observe_def lateness_def all_late_def)
next
  case (Cons ob rest)
  then show ?thesis
    using lateness_step [OF Cons, of "w\<lparr>script := rest\<rparr>" L] by (simp add: settles_at_def observe_def)
qed

lemma syscall_settles [settling]: "settles_at L 1 0 syscall w"
  unfolding syscall_def
  by (rule settles_at_bind [OF observe_settles, where b = 0 and l = 0])
    (auto intro: settling split: io_outcome.split)

lemma now_settles [settling]: "settles_at L 1 0 now w"
  unfolding now_def
  by (rule settles_at_bind [OF observe_settles, where b = 0 and l = 0]) (auto intro: settling)

lemma set_timeout_settles [settling]: "settles_at L 1 0 (set_timeout d) w"
  unfolding set_timeout_def
  by (auto intro!: settles_at_bind [OF syscall_settles, where b = 0 and l = 0]
      intro: settling settles_at_weaken [OF settles_at_pure(2)])

lemma tcp_connect_settles [settling]: "settles_at L 1 0 (tcp_connect a d) w"
proof (cases "d = 0")
  case False
  have "settles_at L 1 0 (io_bind (perform (Act_Connect a)) (\<lambda>_. io_bind syscall (\<lambda>_ w.
      (Some (Ok (TcpStream a (connections w))), w\<lparr>connections := connections w + 1\<rparr>)))) w"
    by (intro settles_at_bind_perform settles_at_bind [OF syscall_settles settles_at_return]) auto
  then show ?thesis using False by (simp add: tcp_connect_def)
qed (simp add: tcp_connect_def settles_at_weaken [OF settles_at_pure(2)])

lemma tcp_read_settles [settling]: "settles_at L 1 0 (tcp_read s n) w"
  unfolding tcp_read_def
  by (auto intro!: settles_at_bind [OF syscall_settles, where b = 0 and l = 0]
      settles_at_bind [OF settles_at_pure(4), where b = 0 and l = 0] settles_at_pure(1))

lemma tcp_write_settles [settling]: "settles_at L 1 0 (tcp_write s bytes) w"
  unfolding tcp_write_def
  by (auto intro!: settles_at_bind [OF syscall_settles, where b = 0 and l = 0] settles_at_return
      simp: Let_def io_bind_def perform_def io_ok_def)

lemma udp_recv_settles [settling]: "settles_at L 1 0 (udp_recv n) w"
  unfolding udp_recv_def
  by (auto intro!: settles_at_bind [OF syscall_settles, where b = 0 and l = 0] settles_at_pure(1))

lemma udp_send_settles [settling]: "settles_at L 1 0 (udp_send a bytes) w"
proof (rule settles_at_same)
  show "settles_at L 1 0 (io_bind (perform (Act_Udp a bytes (checked w)))
      (\<lambda>_. io_bind syscall (\<lambda>_. io_ok ()))) w"
    by (intro settles_at_bind_perform settles_at_bind [OF syscall_settles settles_at_pure(1)]) auto
qed (simp_all add: udp_send_def)

section \<open>Deadline checks\<close>

lemma remaining_settles [settling]: "settles_at L 1 0 (remaining dl) w"
  unfolding remaining_def
  by (rule settles_at_bind [OF observe_settles, where b = 0 and l = 0])
    (auto intro: settling settles_at_return)

text \<open>A check lets a run continue only with an observation that is not past.\<close>

lemma remaining_past:
  assumes "watches L dl" and "remaining dl w = (Some (Ok d), v)"
  shows "\<not> all_late L w" and "lateness L v = lateness L w"
proof -
  have refused: "\<not> L ob" if "\<not> past (expiry dl) ob" for ob
    using assms(1) that by (auto simp: watches_def)
  obtain ob rest where w: "script w = ob # rest" "\<not> past (expiry dl) ob" "script v = rest"
    using assms(2) by (auto simp: remaining_def io_bind_def observe_def io_err_def past_def
        split: list.splits if_splits)
  then show late: "\<not> all_late L w" using refused by (auto simp: all_late_def)
  show "lateness L v = lateness L w" using lateness_step [OF w(1,3), of L] late by simp
qed

text \<open>So after a check the run has the room of what follows it, not more.\<close>

definition checks :: "late \<Rightarrow> ('e, 'a, 'z) io \<Rightarrow> bool" where
  "checks L m \<longleftrightarrow> (\<forall>w. settles_at L 1 0 m w \<and> (\<forall>x v. m w = (Some (Ok x), v) \<longrightarrow>
     \<not> all_late L w \<and> lateness L v = lateness L w \<and> left v < left w))"

lemma remaining_checks [settling]: "watches L dl \<Longrightarrow> checks L (remaining dl)"
  unfolding checks_def using remaining_settles remaining_past remaining_left by blast

lemma checks_map_err [settling]: "checks L m \<Longrightarrow> checks L (io_map_err g m)"
  by (simp add: checks_def settles_at_map_err io_map_err_Ok)

lemma settles_at_resume:
  assumes "\<not> all_late L w" and "lateness L v = lateness L w" and pre: "script w = pre @ script v"
    and f: "settles_at L b l f v" and n: "n w = f v" and k: "max l b \<le> k"
  shows "settles_at L 1 k n w"
proof -
  obtain pre' where "script v = pre' @ script (snd (f v))" using f by (auto simp: settles_at_def)
  then show ?thesis using assms by (auto simp: settles_at_def split: if_splits)
qed

lemma settles_at_checked:
  assumes m: "checks L m" and mw: "m w = (Some (Ok x), v)" and "settles_at L b l f v"
    and "n w = f v" and "max l b \<le> k"
  shows "settles_at L 1 k n w"
proof -
  have c: "settles_at L 1 0 m w" "\<not> all_late L w" "lateness L v = lateness L w"
    using m mw by (auto simp: checks_def)
  obtain pre where "script w = pre @ script v" using c(1) mw by (auto simp: settles_at_def)
  then show ?thesis by (rule settles_at_resume [where n = n, OF c(2,3) _ assms(3-5)])
qed

lemma settles_at_check:
  assumes m: "checks L m"
    and f: "\<And>x v. m w = (Some (Ok x), v) \<Longrightarrow> left v < left w \<Longrightarrow> settles_at L b l (f x) v"
    and "max l b \<le> n" and "1 \<le> c"
  shows "settles_at L c n (io_bind m f) w"
proof (cases "\<exists>x. fst (m w) = Some (Ok x)")
  case True
  then obtain x v where mw: "m w = (Some (Ok x), v)" by (metis prod.collapse)
  then have "left v < left w" using m by (simp add: checks_def)
  then show ?thesis
    by (rule settles_at_weaken [OF settles_at_checked [OF m mw f [OF mw] _ assms(3)] assms(4)])
      (simp_all add: mw io_bind_def)
next
  case False
  have "settles_at L 1 0 m w" using m by (simp add: checks_def)
  then show ?thesis
    by (rule settles_at_stops [where r = "fst (io_bind m f w)"])
      (use False assms(4) in \<open>auto simp: io_bind_def split: prod.splits option.splits result.splits\<close>)
qed

lemma settles_at_check_match:
  assumes m: "checks L m"
    and f: "\<And>x v. m w = (Some (Ok x), v) \<Longrightarrow> settles_at L b l (f x) v"
    and g: "\<And>e v. settles_at L 0 0 (g e) v" and n: "max l b \<le> n" and c: "1 \<le> c"
  shows "settles_at L c n (io_match m f g) w"
proof (cases "\<exists>x. fst (m w) = Some (Ok x)")
  case True
  then obtain x v where mw: "m w = (Some (Ok x), v)" by (metis prod.collapse)
  show ?thesis
    by (rule settles_at_weaken [OF settles_at_checked [OF m mw f [OF mw] _ n] c])
      (simp_all add: mw io_match_def)
next
  case False
  have *: "settles_at L 1 0 m w" using m by (simp add: checks_def)
  have "settles_at L c n (io_match m (\<lambda>_. io_err undefined) g) w"
    by (rule settles_at_match [OF *, where b = 0 and l = 0]) (use c in \<open>auto intro: settles_at_pure g\<close>)
  then show ?thesis
    by (rule settles_at_same) (use False in \<open>auto simp: io_match_def split: prod.splits option.splits result.splits\<close>)
qed

section \<open>Framing\<close>

text \<open>One round of a polling loop.\<close>

lemma settles_at_round:
  fixes w :: "'z env_scheme" and io :: "(io_error, 'a, 'z) io" and set :: "duration \<Rightarrow> ('e, unit, 'z) io"
  assumes m: "checks L m" and set: "\<And>d v. settles_at L 1 0 (set d) v"
      "\<And>d v r u. set d v = (Some r, u) \<Longrightarrow> left u \<le> left v"
    and io: "\<And>v. settles_at L 1 0 io v" "\<And>v r u. io v = (Some r, u) \<Longrightarrow> left u < left v"
    and f: "\<And>x v. left v < left w \<Longrightarrow> settles_at L 1 k (f x) v"
    and g: "\<And>e v. left v < left w \<Longrightarrow> settles_at L 1 k (g e) v" and k: "3 \<le> k"
  shows "settles_at L 1 k (io_bind m (\<lambda>d. io_bind (set d) (\<lambda>_. io_match io f g))) w"
proof -
  have "settles_at L 3 k (io_bind (set d) (\<lambda>_. io_match io f g)) v"
    if v: "left v < left w" for d and v :: "'z env_scheme"
  proof (rule settles_at_bind [OF set(1), where b = 2 and l = k])
    fix x u assume "set d v = (Some (Ok x), u)"
    then have "left u < left w" using v set(2) by fastforce
    then show "settles_at L 2 k (io_match io f g) u"
      by (intro settles_at_match [OF io(1) f g]) (use k in \<open>auto dest: io(2)\<close>)
  qed (use k in simp_all)
  then show ?thesis by (rule settles_at_check [OF m]) (use k in simp_all)
qed

lemma read_loop_settles:
  "watches L dl \<Longrightarrow> settles_at L 1 3 (read_loop s n bytes dl) w"
proof (induction w arbitrary: bytes rule: measure_induct_rule [where f = left])
  case (less w)
  note check = remaining_checks [OF less.prems]
  show ?case
    by (subst read_loop_eq)
      (intro settles_at_if settles_at_check [OF check settles_at_pure(1)]
        settles_at_round [OF check set_timeout_settles set_timeout_left tcp_read_settles tcp_read_left]
        settles_at_free less.IH [OF _ less.prems]; simp)
qed

lemma write_loop_settles:
  "watches L dl \<Longrightarrow> settles_at L 1 3 (write_loop s frame i dl) w"
proof (induction w arbitrary: i rule: measure_induct_rule [where f = left])
  case (less w)
  note check = remaining_checks [OF less.prems]
  show ?case
    by (subst write_loop_eq)
      (intro settles_at_if settles_at_check [OF check settles_at_pure(1)]
        settles_at_round [OF check set_timeout_settles set_timeout_left tcp_write_settles tcp_write_left]
        settles_at_free less.IH [OF _ less.prems]; simp)
qed

lemma write_frame_settles: "watches L dl \<Longrightarrow> settles_at L 1 3 (write_frame s wire dl) w"
  unfolding write_frame_def by (intro settles_at_if write_loop_settles settles_at_free)

lemma read_frame_settles:
  assumes "watches L dl"
  shows "settles_at L 2 4 (read_frame s dl) w"
proof -
  note read = read_loop_settles [OF assms]
  show ?thesis
    unfolding read_frame_def read_exact_def Let_def
    by (intro settles_at_bind [OF read, where b = 1 and l = 3])
      (auto intro!: settles_at_bind [OF read, where b = 0 and l = 0] settles_at_pure settles_at_free split: option.split)
qed

section \<open>Exchanges\<close>

lemma forward_remaining_checks: "watches L dl \<Longrightarrow> checks L (forward_remaining dl)"
  unfolding forward_remaining_def by (intro checks_map_err remaining_checks)

lemma set_nodelay_settles: "settles_at L 1 0 set_nodelay w"
  unfolding set_nodelay_def
  by (intro settles_at_map_err settles_at_bind [OF syscall_settles settles_at_pure(1)]) simp_all

lemma next_transaction_id_settles: "settles_at L 1 0 next_transaction_id w"
  unfolding next_transaction_id_def
  by (rule settles_at_map_err, rule settles_at_bind [OF syscall_settles, where b = 0 and l = 0])
    (auto intro: settles_at_pure)

lemma expire_idle_settles: "settles_at L 1 0 expire_idle w"
proof (cases "tcp_cache w")
  case None
  then show ?thesis
    by (subst settles_at_cong [where m = "io_ok ()"]) (simp_all add: expire_idle_def settles_at_free)
next
  case (Some c)
  show ?thesis
    by (subst settles_at_cong, simp only: expire_idle_def Some option.case)
      (rule settles_at_bind [OF now_settles settles_at_return], auto)
qed

lemma fresh_stream_settles:
  "watches L (ex_deadline ex) \<Longrightarrow> settles_at L 1 1 (fresh_stream address ex) w"
  unfolding fresh_stream_def
  by (rule settles_at_check [OF forward_remaining_checks settles_at_map_err [OF tcp_connect_settles]]) auto

lemma cache_stream_settles: "settles_at L 1 0 (cache_stream address stream r) w"
  unfolding cache_stream_def by (rule settles_at_bind [OF now_settles settles_at_return]) auto

lemma send_over_tcp_settles:
  assumes "watches L (ex_deadline ex)"
  shows "settles_at L 4 6 (send_over_tcp ex stream) w"
proof -
  have valid: "settles_at L 0 0 (case valid of None \<Rightarrow> io_err Fwd_InvalidResponse | Some r \<Rightarrow> io_ok r) v"
    for valid and v :: forwarder
    by (cases valid) (simp_all add: settles_at_pure)
  have check: "settles_at L 1 0 (case frame of None \<Rightarrow> io_err Fwd_InvalidResponse
      | Some bytes \<Rightarrow> io_bind (forward_remaining (ex_deadline ex)) (\<lambda>_.
           io_bind (io_lift (map_err Fwd_Parse (packet_parse bytes))) (\<lambda>response.
           io_bind (io_lift (validate_response (ex_sent ex) response)) (\<lambda>valid.
             case valid of None \<Rightarrow> io_err Fwd_InvalidResponse | Some r \<Rightarrow> io_ok r)))) v"
    for frame and v :: forwarder
    by (cases frame) (auto intro!: settles_at_free settles_at_check [OF forward_remaining_checks [OF assms], where b = 0 and l = 0]
        settles_at_bind_lift valid)
  show ?thesis
    unfolding send_over_tcp_def
    by (rule settles_at_bind [OF settles_at_map_err [OF write_frame_settles [OF assms]], where b = 3 and l = 5],
        rule settles_at_bind [OF settles_at_map_err [OF read_frame_settles [OF assms]] check]) simp_all
qed

text \<open>The connection that is used, and what follows it.\<close>

lemma tcp_exchange_settles:
  assumes "watches L (ex_deadline ex)"
  shows "settles_at L 14 14 (tcp_exchange address ex) w"
proof -
  note send = send_over_tcp_settles [OF assms]
  note fresh = fresh_stream_settles [OF assms]
  have finish: "settles_at L 5 7 (io_bind (send_over_tcp ex s) (\<lambda>r. cache_stream address s r)) v" for s v
    by (rule settles_at_bind [OF send cache_stream_settles]) simp_all
  have reconnect: "settles_at L 7 7 (io_bind (fresh_stream address ex) (\<lambda>s. io_bind set_nodelay (\<lambda>_.
      io_bind (send_over_tcp ex s) (\<lambda>r. cache_stream address s r)))) v" for v
    by (rule settles_at_bind [OF fresh settles_at_bind [OF set_nodelay_settles finish], where l = 7 and b = 6]) simp_all
  have use_stream: "settles_at L 12 13 (io_bind set_nodelay (\<lambda>_. io_match (send_over_tcp ex s)
      (\<lambda>r. cache_stream address s r) (\<lambda>e. if again then io_bind (fresh_stream address ex) (\<lambda>s.
        io_bind set_nodelay (\<lambda>_. io_bind (send_over_tcp ex s) (\<lambda>r. cache_stream address s r)))
        else io_err e))) v" for s again v
    by (rule settles_at_bind [OF set_nodelay_settles settles_at_match [OF send, where b = 7 and l = 7], where b = 11 and l = 13])
      (auto intro: settles_at_if reconnect settles_at_free settles_at_weaken [OF cache_stream_settles])
  have stream: "settles_at L 1 1 (case cached of Some c \<Rightarrow> io_ok (cc_stream c) | None \<Rightarrow> fresh_stream address ex) v"
    for cached v by (cases cached) (simp_all add: fresh settles_at_free del: One_nat_def)
  show ?thesis
    unfolding tcp_exchange_def Let_def
    by (rule settles_at_bind [OF expire_idle_settles, where b = 13 and l = 13],
        rule settles_at_same [OF settles_at_bind [OF stream use_stream]]) simp_all
qed

section \<open>Datagrams\<close>

lemma map_err_left:
  "(\<And>r. m w = (Some r, v) \<Longrightarrow> P) \<Longrightarrow> io_map_err g m w = (Some r, v) \<Longrightarrow> P"
  by (auto simp: io_map_err_def io_match_def io_ok_def io_err_def split: prod.splits option.splits result.splits)

lemma udp_loop_settles:
  "watches L (ex_deadline ex) \<Longrightarrow> settles_at L 1 14 (udp_loop address ex invalid) w"
proof (induction w arbitrary: invalid rule: measure_induct_rule [where f = left])
  case (less w)
  note IH = less.IH [OF _ less.prems]
  note check = forward_remaining_checks [OF less.prems]
  have poll: "settles_at L 1 0 (io_map_err forward_error_from (set_timeout (min d IO_POLL))) v"
    "io_map_err forward_error_from (set_timeout (min d IO_POLL)) v = (Some r, u) \<Longrightarrow> left u \<le> left v" for d v r and u :: forwarder
    by (rule settles_at_map_err [OF set_timeout_settles])
      (auto elim: map_err_left [rotated] dest: set_timeout_left)
  have again: "settles_at L 14 14 (io_bind m (\<lambda>_. udp_loop address ex i)) v"
    if "m = warn x \<or> m = io_ok ()" and "left v < left w" for m x i v
    by (rule settles_at_bind_free)
      (use that in \<open>auto intro!: settles_at_weaken [OF IH] simp: warn_def perform_def io_ok_def\<close>)
  have datagram: "settles_at L 1 14 (io_bind (forward_remaining (ex_deadline ex)) (\<lambda>_.
      io_bind (io_lift (sent_matches_truncated (ex_sent ex) bytes)) (\<lambda>tc.
        if tc then tcp_exchange address ex
        else io_bind (io_lift (check_datagram (ex_sent ex) bytes)) (\<lambda>valid.
          case valid of Some r \<Rightarrow> io_ok r
          | None \<Rightarrow> if invalid + 1 = MAX_INVALID_RESPONSES then io_err Fwd_InvalidResponse
              else io_bind (if invalid + 1 = 1 then warn (Warn_Ignored address) else io_ok ())
                (\<lambda>_. udp_loop address ex (invalid + 1)))))) v" if "left v < left w" for bytes v
    by (rule settles_at_check [OF check, where b = 14 and l = 14])
      (use that in \<open>auto intro!: settles_at_bind_lift settles_at_if tcp_exchange_settles [OF less.prems] settles_at_free again split: option.split\<close>)
  show ?case
    by (subst udp_loop_eq, rule settles_at_round [OF check poll udp_recv_settles udp_recv_left])
      ((assumption | intro datagram settles_at_if settles_at_free IH)+, simp)
qed

lemma udp_exchange_settles:
  assumes "watches L (ex_deadline ex)"
  shows "settles_at L 3 14 (udp_exchange address ex) w"
proof -
  note call = settles_at_map_err [OF syscall_settles]
  have send: "settles_at L 2 14 (io_bind (io_map_err forward_error_from (udp_send a bytes))
      (\<lambda>_. udp_loop address ex 0)) v" for a bytes v
    by (rule settles_at_bind [OF settles_at_map_err [OF udp_send_settles] udp_loop_settles [OF assms]]) simp_all
  have timeout: "settles_at L 3 14 (io_bind (io_map_err forward_error_from (set_timeout d))
      (\<lambda>_. io_bind (io_map_err forward_error_from (udp_send a bytes)) (\<lambda>_. udp_loop address ex 0))) v" for d a bytes v
    by (rule settles_at_bind [OF settles_at_map_err [OF set_timeout_settles] send]) simp_all
  show ?thesis
    unfolding udp_exchange_def
    by (rule settles_at_bind [OF call settles_at_bind [OF call
          settles_at_check [OF forward_remaining_checks [OF assms] timeout, where c = 1 and n = 14],
          where c = 2 and n = 14]]) simp_all
qed

section \<open>Retries and failover\<close>

lemma run_exchange_settles:
  "watches L (ex_deadline ex) \<Longrightarrow> settles_at L 14 14 (run_exchange tr address ex) w"
  unfolding run_exchange_def
  by (cases tr) (simp_all add: tcp_exchange_settles settles_at_weaken [OF udp_exchange_settles])

lemma retry_exchange_settles:
  assumes "watches L (ex_deadline ex)"
  shows "settles_at L 1 1 (retry_exchange ex wire) w"
  unfolding retry_exchange_def
  by (rule settles_at_check [OF forward_remaining_checks [OF assms]
        settles_at_bind [OF next_transaction_id_settles settles_at_bind_lift [OF settles_at_pure(1)],
          where c = 1 and n = 0]]) simp_all

lemma retry_exchange_deadline:
  "retry_exchange ex wire w = (Some (Ok again), v) \<Longrightarrow> ex_deadline again = ex_deadline ex"
  by (auto simp: retry_exchange_def shrinks)

lemma retry_over_tcp_settles:
  assumes "watches L (ex_deadline ex)"
  shows "settles_at L 15 15 (retry_over_tcp address ex wire) w"
  unfolding retry_over_tcp_def
  by (rule settles_at_bind [OF retry_exchange_settles [OF assms], where b = 14 and l = 14])
    (auto intro: tcp_exchange_settles simp: retry_exchange_deadline assms)

lemma retry_rewritten_settles:
  assumes "watches L (ex_deadline again)"
  shows "settles_at L 29 29 (retry_rewritten address again tr) w"
  unfolding retry_rewritten_def
  by (rule settles_at_bind [OF run_exchange_settles [OF assms], where b = 15 and l = 15])
    (auto intro!: settles_at_if settles_at_bind_lift settles_at_free retry_over_tcp_settles [OF assms]
      split: server_cookie_retry.split)

lemma finish_badcookie_settles:
  assumes "watches L (ex_deadline ex)"
  shows "settles_at L 30 30 (finish_badcookie address ex r tr) w"
proof -
  have again: "settles_at L 30 30 (io_bind (retry_exchange ex wire) (\<lambda>again. retry_rewritten address again tr)) v"
    for wire tr v
    by (rule settles_at_bind [OF retry_exchange_settles [OF assms], where b = 29 and l = 29])
      (auto intro: retry_rewritten_settles simp: retry_exchange_deadline assms)
  show ?thesis
    unfolding finish_badcookie_def
    by (rule settles_at_bind_lift)
      (auto intro!: again settles_at_if settles_at_free settles_at_weaken [OF retry_over_tcp_settles [OF assms]]
        split: server_cookie_retry.split)
qed

lemma attempt_settles:
  assumes "watches L (ex_deadline ex)"
  shows "settles_at L 44 44 (attempt tr address ex) w"
  unfolding attempt_def
  by (rule settles_at_bind [OF run_exchange_settles [OF assms], where b = 30 and l = 30])
    (auto intro: settles_at_if finish_badcookie_settles [OF assms] settles_at_free)

lemma capped_settles: "settles_at L 1 0 (capped dl d) w"
  unfolding capped_def by (rule settles_at_bind [OF now_settles settles_at_pure(1)]) simp_all

lemma forward_loop_settles:
  assumes dl: "watches L dl"
  shows "settles_at L 2 47 (forward_loop q tr dl servers e relayed) w"
proof (induction servers arbitrary: e relayed w)
  case Nil
  then show ?case
    by (cases relayed)
      (auto intro!: settles_at_check [OF forward_remaining_checks [OF dl], where b = 0 and l = 0] settles_at_pure)
next
  case (Cons address rest)
  note check = forward_remaining_checks
  have ok: "settles_at L 2 47 (io_bind (forward_remaining dl) (\<lambda>_.
      let code = response_rcode r in
      if code = BadCookie \<or> \<not> retries_in_group code then io_ok r
      else io_bind (warn (Warn_Upstream address (from_rcode code))) (\<lambda>_.
        forward_loop q tr dl rest (from_rcode code) (Some r)))) v" for r v
    unfolding Let_def
    by (rule settles_at_check [OF check [OF dl], where b = 2 and l = 47])
      (auto intro!: settles_at_if settles_at_free settles_at_bind_perform Cons.IH)
  have err: "settles_at L 2 47 (if e = Fwd_Cancelled then io_err Fwd_Cancelled
      else io_bind (warn (Warn_Upstream address e)) (\<lambda>_. forward_loop q tr dl rest e relayed)) v" for e v
    by (intro settles_at_if settles_at_free settles_at_bind_perform Cons.IH)
  have round: "settles_at L 1 47 (io_bind (forward_remaining adl) (\<lambda>_.
     io_bind next_transaction_id (\<lambda>ident. io_bind (io_lift (query_sent q ident)) (\<lambda>sent.
       io_match (attempt tr address \<lparr>ex_sent = sent, ex_deadline = adl\<rparr>) (f sent) (g sent))))) v"
    if adl: "watches L adl" and f: "\<And>sent r u. settles_at L 2 47 (f sent r) u"
      and g: "\<And>sent e u. settles_at L 2 47 (g sent e) u" for adl f g v
    by (rule settles_at_check [OF check [OF adl] settles_at_bind [OF next_transaction_id_settles
          settles_at_bind_lift [OF settles_at_match [OF attempt_settles f g, where c = 46 and n = 47]],
          where c = 47 and n = 47]]) (simp_all add: adl)
  show ?case
    unfolding forward_loop.simps
    by (rule settles_at_bind [OF capped_settles round [OF _ ok err]])
      (auto simp: capped_def shrinks intro: watches_earlier [OF dl])
qed

section \<open>The handler\<close>

lemma or_silent_settles:
  assumes "watches L dl" and "\<And>v. settles_at L b l m v" and "max l b \<le> n"
  shows "settles_at L 1 n (or_silent dl m) w"
  unfolding or_silent_def
  by (rule settles_at_check_match [OF remaining_checks [OF assms(1)] assms(2) settles_at_pure(1) assms(3)]) simp

lemma suppressible_settles: "settles_at L 0 0 (suppressible reply) w"
  unfolding suppressible_def
  by (intro settles_at_bind_lift, rule settles_at_bind_free)
    (auto intro: settles_at_pure simp: warn_def perform_def io_ok_def)

lemma relay_settles:
  assumes dl: "watches L dl"
  shows "settles_at L 3 48 (relay q tr dl g) w"
  unfolding relay_def forward_def
  by (rule settles_at_match [OF forward_loop_settles [OF dl], where b = 1 and l = 0])
    (auto intro!: or_silent_settles [OF dl, where b = 0 and l = 0, unfolded One_nat_def] settles_at_if settles_at_bind_lift
      settles_at_bind_perform suppressible_settles settles_at_free)

lemma answer_packet_settles:
  assumes dl: "watches L dl"
  shows "settles_at L 3 48 (answer_packet t p tr dl) w"
  unfolding answer_packet_def answer_query_def
  by (intro settles_at_bind_lift)
    (auto intro: settles_at_free relay_settles [OF dl] settles_at_weaken [OF suppressible_settles]
      split: query_decision.split selection.split)

lemma respond_settles:
  assumes dl: "watches L dl"
  shows "settles_at L 2 49 (respond t wire tr dl) w"
proof -
  have inner: "settles_at L 1 48 (respond_inner t wire tr dl) v" for v
    unfolding respond_inner_def
    by (rule or_silent_settles [OF dl, where b = 3 and l = 48])
      (auto intro!: settles_at_match_lift settles_at_if settles_at_free settles_at_bind_perform answer_packet_settles [OF dl])
  show ?thesis
    unfolding respond_def
    by (rule settles_at_bind [OF inner, where b = 1 and l = 0])
      (auto intro!: or_silent_settles [OF dl, where b = 0 and l = 0, unfolded One_nat_def]
        settles_at_if settles_at_free settles_at_bind_lift split: option.split)
qed

text \<open>What settling means for a script that ends in late observations.\<close>

lemma settles_at_returns:
  assumes "settles_at L a k m w" and "a \<le> k" and "script w = live @ late" and "k \<le> length late"
    and "\<And>ob. ob \<in> set late \<Longrightarrow> L ob"
  shows "\<exists>r v. m w = (Some r, v) \<and> length late \<le> length (script v) + k"
proof -
  have "takeWhile L (rev late @ rev live) = rev late @ takeWhile L (rev live)"
    using assms(5) by (intro takeWhile_append2) auto
  then have late: "length late \<le> lateness L w" by (simp add: lateness_def assms(3))
  obtain r v where r: "m w = (r, v)" by fastforce
  have "lateness L v \<le> length (script v)"
    unfolding lateness_def by (metis length_rev length_takeWhile_le)
  moreover have "r \<noteq> None \<and> lateness L w \<le> lateness L v + k"
    using assms(1,2,4) late r by (auto simp: settles_at_def split: if_splits)
  ultimately show ?thesis using late r by fastforce
qed

text \<open>C3: requests end: whatever the clients, the servers and the network do, a request returns after
  at most 49 observations (clock readings, stop-flag loads and system calls) that show its deadline
  reached or the stop flag set. The bound does not depend on the message, the number of servers,
  the number of chunks a frame arrives in or the number of datagrams a server sends.\<close>

theorem respond_returns:
  assumes "script w = live @ late" and "49 \<le> length late"
    and "\<And>ob. ob \<in> set late \<Longrightarrow> ob_stop ob \<or> expiry dl \<le> ob_now ob"
  shows "\<exists>r v. respond t wire tr dl w = (Some r, v) \<and> length late \<le> length (script v) + 49"
  by (rule settles_at_returns [OF respond_settles [OF watches_past] _ assms(1,2)])
    (use assms(3) in \<open>simp_all add: past_def\<close>)

text \<open>The clock jumps from the first check of a query to its deadline.\<close>

definition sample_wait :: forwarder where
  "sample_wait = \<lparr>script = [seen []] @ replicate 49 \<lparr>ob_now = 9, ob_stop = False, ob_io = Io_Err TimedOut\<rparr>,
     checked = None, connections = 0, performed = [], tcp_cache = None\<rparr>"

theorem respond_returns_witness:
  "fst (respond sample_table sample_wire Udp (Deadline 9) sample_wait) \<noteq> None"
proof -
  have "\<exists>r v. respond sample_table sample_wire Udp (Deadline 9) sample_wait = (Some r, v)
      \<and> length (replicate 49 \<lparr>ob_now = 9, ob_stop = False, ob_io = Io_Err TimedOut\<rparr>) \<le> length (script v) + 49"
    by (rule respond_returns [where live = "[seen []]"]) (auto simp: sample_wait_def)
  then show ?thesis by auto
qed

end
