(* ===== verification/Stopping.thy ===== *)
theory Stopping
  imports Settling Server
begin

text \<open>
  The jobs of the service end once the stop flag is set (\<^verbatim>\<open>src/server.rs\<close>): the late observations of
  \<open>Settling\<close> are here those that show the flag, which every check of every deadline refuses, and
  which the session loop itself looks at before each frame. So a worker that is in the middle of a
  job when the service stops reaches the end of the job, which is what the pool's join waits for.
\<close>

lemma infallible_settles:
  assumes "settles_at L a k m w"
  shows "settles_at L a k (infallible m) w"
  by (rule settles_at_stops [OF assms, where r = "fst (infallible m w)"])
    (auto simp: infallible_def io_match_def io_ok_def split: prod.splits option.splits result.splits)

lemma deadline_after_settles: "settles_at L 1 0 (deadline_after d) w"
  unfolding deadline_after_def by (rule settles_at_bind [OF now_settles settles_at_pure(1)]) simp_all

lemma load_stop_settles: "settles_at L 1 0 load_stop w"
  unfolding load_stop_def by (rule settles_at_bind [OF observe_settles settles_at_pure(1)]) simp_all

text \<open>The session loop goes on only after an observation without the stop flag.\<close>

lemma settles_at_stop_check:
  assumes f: "\<And>v. left v < left w \<Longrightarrow> settles_at ob_stop b l f v" and n: "max l b \<le> n"
  shows "settles_at ob_stop 1 n (io_bind load_stop (\<lambda>stop. if stop then io_ok x else f)) w"
proof (cases "script w")
  case Nil
  then show ?thesis
    by (simp add: settles_at_def io_bind_def load_stop_def observe_def lateness_def all_late_def)
next
  case (Cons ob rest)
  let ?v = "w\<lparr>script := rest\<rparr>"
  have run: "io_bind load_stop (\<lambda>stop. if stop then io_ok x else f) w
      = (if ob_stop ob then (Some (Ok x), ?v) else f ?v)"
    by (simp add: io_bind_def load_stop_def observe_def io_ok_def Cons)
  note late = lateness_step [OF Cons, of ?v ob_stop]
  show ?thesis
  proof (cases "ob_stop ob")
    case True
    then show ?thesis using late by (simp add: settles_at_def run Cons)
  next
    case False
    then have "\<not> all_late ob_stop w" by (simp add: all_late_def Cons)
    moreover have "settles_at ob_stop b l f ?v" using f [of ?v] by (simp add: left_def Cons)
    ultimately show ?thesis
      using False late n by (intro settles_at_resume [where v = ?v and pre = "[ob]" and f = f]) (simp_all add: run Cons)
  qed
qed

lemma serve_frame_settles: "settles_at ob_stop 6 52 (serve_frame t stream wire) w"
proof -
  have reply: "settles_at ob_stop 2 3 (case reply of None \<Rightarrow> io_ok ()
      | Some response \<Rightarrow> io_bind (capped dl CLIENT_WRITE_TIMEOUT) (\<lambda>dl. write_frame stream response dl)) v"
    for reply dl and v :: forwarder
    by (cases reply) (auto intro: settles_at_free
        settles_at_bind [OF capped_settles write_frame_settles [OF watches_stop]])
  have rest: "settles_at ob_stop 5 52 (io_bind (infallible (respond t wire Tcp dl)) (\<lambda>reply. io_bind
      (case reply of None \<Rightarrow> io_ok ()
       | Some response \<Rightarrow> io_bind (capped dl CLIENT_WRITE_TIMEOUT) (\<lambda>dl. write_frame stream response dl))
      (\<lambda>_. deadline_after CLIENT_FRAME_TIMEOUT))) v" for dl v
    by (rule settles_at_bind [OF infallible_settles [OF respond_settles [OF watches_stop]]
          settles_at_bind [OF reply deadline_after_settles, where c = 3 and n = 4]]) simp_all
  show ?thesis
    unfolding serve_frame_def by (rule settles_at_bind [OF deadline_after_settles rest]) simp_all
qed

lemma serve_loop_settles: "settles_at ob_stop 1 53 (serve_loop t c dl) w"
proof (induction w arbitrary: dl rule: measure_induct_rule [where f = left])
  case (less w)
  have served: "settles_at ob_stop 7 53 (io_bind (serve_frame t c wire) (\<lambda>next_dl. serve_loop t c next_dl)) v"
    if "left v < left w" for wire v
    by (rule settles_at_bind [OF serve_frame_settles less.IH])
      (use that in \<open>auto dest: orderly_left [OF ord_serve_frame]\<close>)
  have "settles_at ob_stop 9 53 (io_bind (read_frame c dl) (\<lambda>frame. case frame of None \<Rightarrow> io_ok ()
      | Some wire \<Rightarrow> io_bind (serve_frame t c wire) (\<lambda>next_dl. serve_loop t c next_dl))) v"
    if "left v < left w" for v
  proof (rule settles_at_bind [OF read_frame_settles [OF watches_stop], where b = 7 and l = 53])
    fix frame u assume "read_frame c dl v = (Some (Ok frame), u)"
    then have "left u < left w" using that orderly_left [OF ord_frames(1)] by (blast intro: le_less_trans)
    then show "settles_at ob_stop 7 53 (case frame of None \<Rightarrow> io_ok ()
      | Some wire \<Rightarrow> io_bind (serve_frame t c wire) (\<lambda>next_dl. serve_loop t c next_dl)) u"
      by (cases frame) (simp_all add: served settles_at_free)
  qed simp_all
  then show ?case by (subst serve_loop_eq, rule settles_at_stop_check) simp_all
qed

lemma tcp_handle_settles: "settles_at ob_stop 4 54 (tcp_handle t job) w"
proof -
  have serve: "settles_at ob_stop 3 53 (serve_tcp t job) v" for v
    unfolding serve_tcp_def
    by (rule settles_at_bind [OF syscall_settles settles_at_bind [OF syscall_settles serve_loop_settles, where c = 2 and n = 53]])
      simp_all
  have report: "settles_at ob_stop 1 0 (io_bind load_stop (\<lambda>stop.
      if \<not> stop \<and> error_kind e \<noteq> TimedOut then warn (Warn_Tcp_Client e) else io_ok ())) v" for e and v :: forwarder
    by (rule settles_at_bind [OF load_stop_settles, where b = 0 and l = 0]) (auto intro: settles_at_pure)
  show ?thesis
    unfolding tcp_handle_def by (rule settles_at_match [OF serve settles_at_free(1) report]) simp_all
qed

lemma udp_handle_settles: "settles_at ob_stop 3 50 (udp_handle t job) w"
proof -
  have send: "settles_at ob_stop 1 0 (case reply of None \<Rightarrow> io_ok ()
      | Some wire \<Rightarrow> io_match (udp_send (dg_peer job) wire) io_ok (\<lambda>e. warn (Warn_Udp_Client e))) v"
    for reply and v :: forwarder
    by (cases reply) (auto intro: settles_at_free settles_at_match [OF udp_send_settles settles_at_pure(1) settles_at_pure(5)])
  show ?thesis
    unfolding udp_handle_def
    by (rule settles_at_bind [OF infallible_settles [OF respond_settles [OF watches_stop]] send]) simp_all
qed

text \<open>C14: a stop ends the work in progress: whatever the client, the servers and the network do, a TCP
  session returns after at most 54 observations that show the stop flag set, and the job of a
  datagram after at most 50, however many frames the client has sent and wherever in a request,
  an exchange or a frame the job was.\<close>

theorem jobs_end_on_stop:
  assumes "script w = live @ stopped" and "54 \<le> length stopped"
    and "\<And>ob. ob \<in> set stopped \<Longrightarrow> ob_stop ob"
  shows "(\<exists>r v. tcp_handle t c w = (Some r, v) \<and> length stopped \<le> length (script v) + 54)
    \<and> (\<exists>r v. udp_handle t d w = (Some r, v) \<and> length stopped \<le> length (script v) + 50)"
proof
  show "\<exists>r v. tcp_handle t c w = (Some r, v) \<and> length stopped \<le> length (script v) + 54"
    by (rule settles_at_returns [OF tcp_handle_settles _ assms(1)]) (use assms(2,3) in simp_all)
  show "\<exists>r v. udp_handle t d w = (Some r, v) \<and> length stopped \<le> length (script v) + 50"
    by (rule settles_at_returns [OF udp_handle_settles _ assms(1)]) (use assms(2,3) in simp_all)
qed

text \<open>A client connects and waits without sending anything; then the service stops.\<close>

definition sample_stopped :: forwarder where
  "sample_stopped = \<lparr>script = [seen [], seen [], seen []] @ replicate 54 \<lparr>ob_now = 1, ob_stop = True, ob_io = Io_Err TimedOut\<rparr>,
     checked = None, connections = 0, performed = [], tcp_cache = None\<rparr>"

theorem jobs_end_on_stop_witness:
  "fst (tcp_handle sample_table \<lparr>conn_stream = sample_stream, conn_first_deadline = Deadline 9\<rparr> sample_stopped) \<noteq> None
   \<and> fst (udp_handle sample_table \<lparr>dg_wire = sample_wire, dg_peer = sample_server, dg_deadline = Deadline 9\<rparr> sample_stopped) \<noteq> None"
  using jobs_end_on_stop [of sample_stopped "[seen [], seen [], seen []]"
      "replicate 54 \<lparr>ob_now = 1, ob_stop = True, ob_io = Io_Err TimedOut\<rparr>" sample_table
      "\<lparr>conn_stream = sample_stream, conn_first_deadline = Deadline 9\<rparr>"
      "\<lparr>dg_wire = sample_wire, dg_peer = sample_server, dg_deadline = Deadline 9\<rparr>"]
  by (auto simp: sample_stopped_def)

end
