(* ===== verification/Failover.thy ===== *)
theory Failover
  imports Composition
begin

text \<open>
  What a run of the forwarder has done when it returns (\<^verbatim>\<open>Forwarder::forward\<close> of \<^verbatim>\<open>src/upstream.rs\<close>).

  \<open>failover\<close> is the policy of a group, as a relation between its servers, the warnings and the
  outcome: servers are tried in order; a final response ends the walk; SERVFAIL, REFUSED and
  errors of an exchange move on to the next server; the latest SERVFAIL or REFUSED response is
  kept for a group that is exhausted; a passed deadline, a stop or missing entropy ends the walk.

  Proved here: the forwarder refines this policy, so that a failure is relayed only after the
  whole group was tried, each server once and in order; a response is returned only if the
  message it answers is in the log of what was sent.
\<close>

section \<open>The policy of a group\<close>

definition aborts :: "forward_error \<Rightarrow> bool" where
  "aborts e \<longleftrightarrow> e = Fwd_Timeout \<or> e = Fwd_Cancelled \<or> (\<exists>x. e = Fwd_Io x)"

inductive failover ::
  "upstream_address list \<Rightarrow> forward_error \<Rightarrow> response option \<Rightarrow> (upstream_address \<times> forward_error) list
   \<Rightarrow> (forward_error, response) result \<Rightarrow> bool" where
  exhausted: "failover [] last_error relayed [] (case relayed of None \<Rightarrow> Err last_error | Some r \<Rightarrow> Ok r)"
| aborted: "aborts e \<Longrightarrow> failover servers last_error relayed [] (Err e)"
| final: "\<not> retries_in_group (response_rcode r) \<Longrightarrow> failover (a # rest) last_error relayed [] (Ok r)"
| next_response: "retries_in_group (response_rcode r) \<Longrightarrow>
    failover rest (from_rcode (response_rcode r)) (Some r) ws out \<Longrightarrow>
    failover (a # rest) last_error relayed ((a, from_rcode (response_rcode r)) # ws) out"
| next_error: "e \<noteq> Fwd_Cancelled \<Longrightarrow> failover rest e relayed ws out \<Longrightarrow>
    failover (a # rest) last_error relayed ((a, e) # ws) out"

text \<open>What the policy promises.\<close>

lemma failover_in_order: "failover servers e relayed ws out \<Longrightarrow> prefix (map fst ws) servers"
  by (induction rule: failover.induct) auto

lemma failover_final:
  "failover servers e relayed ws out \<Longrightarrow> out = Ok r \<Longrightarrow> \<not> retries_in_group (response_rcode r) \<Longrightarrow>
     (\<forall>r'. relayed = Some r' \<longrightarrow> retries_in_group (response_rcode r')) \<Longrightarrow> length ws < length servers"
  by (induction rule: failover.induct) (auto split: option.splits)

lemma failover_relayed:
  "failover servers e relayed ws out \<Longrightarrow> out = Ok r \<Longrightarrow> retries_in_group (response_rcode r) \<Longrightarrow>
     map fst ws = servers \<and> (relayed = Some r \<or> (\<exists>a. (a, from_rcode (response_rcode r)) \<in> set ws))"
  by (induction rule: failover.induct) (auto split: option.splits)

lemma failover_error:
  "failover servers e relayed ws out \<Longrightarrow> out = Err x \<Longrightarrow>
     aborts x \<or> (map fst ws = servers \<and> x = last (e # map snd ws))"
  by (induction rule: failover.induct) (auto split: option.splits)

section \<open>The warnings of a walk\<close>

fun failover_warning :: "action \<Rightarrow> (upstream_address \<times> forward_error) list" where
  "failover_warning (Act_Warn (Warn_Upstream a e)) = [(a, e)]"
| "failover_warning _ = []"

definition failed_servers :: "'z env_scheme \<Rightarrow> (upstream_address \<times> forward_error) list" where
  "failed_servers w = concat (map failover_warning (performed w))"

lemma failed_servers_update [simp]:
  "failed_servers (w\<lparr>script := x\<rparr>) = failed_servers w" "failed_servers (w\<lparr>checked := c\<rparr>) = failed_servers w"
  "failed_servers (w\<lparr>connections := n\<rparr>) = failed_servers w"
  "failed_servers (w\<lparr>performed := performed w @ [a]\<rparr>) = failed_servers w @ failover_warning a"
  by (simp_all add: failed_servers_def)

lemma failed_servers_cache [simp]: "failed_servers (w\<lparr>tcp_cache := c\<rparr>) = failed_servers w"
  by (simp add: failed_servers_def)

text \<open>A run that reports no server.\<close>

definition mute_at :: "('e, 'a, 'z) io \<Rightarrow> 'z env_scheme \<Rightarrow> bool" where
  "mute_at m w \<longleftrightarrow> failed_servers (snd (m w)) = failed_servers w"

definition mute :: "('e, 'a, 'z) io \<Rightarrow> bool" where
  "mute m \<longleftrightarrow> (\<forall>w. mute_at m w)"

named_theorems mutes "rules that show runs mute"

lemma mute_at_bind:
  "mute_at m w \<Longrightarrow> (\<And>x v. m w = (Some (Ok x), v) \<Longrightarrow> mute_at (f x) v) \<Longrightarrow> mute_at (io_bind m f) w"
  by (auto simp: mute_at_def io_bind_def split: prod.splits option.splits result.splits)

lemma mute_at_match:
  "mute_at m w \<Longrightarrow> (\<And>x v. m w = (Some (Ok x), v) \<Longrightarrow> mute_at (f x) v)
     \<Longrightarrow> (\<And>e v. m w = (Some (Err e), v) \<Longrightarrow> mute_at (g e) v) \<Longrightarrow> mute_at (io_match m f g) w"
  by (auto simp: mute_at_def io_match_def split: prod.splits option.splits result.splits)

lemma muted: "mute m \<Longrightarrow> mute_at m w"
  by (simp add: mute_def)

lemma mute_bind [mutes]: "mute m \<Longrightarrow> (\<And>x. mute (f x)) \<Longrightarrow> mute (io_bind m f)"
  by (simp add: mute_def mute_at_bind)

lemma mute_match [mutes]:
  "mute m \<Longrightarrow> (\<And>x. mute (f x)) \<Longrightarrow> (\<And>e. mute (g e)) \<Longrightarrow> mute (io_match m f g)"
  by (simp add: mute_def mute_at_match)

lemma mute_pure [mutes]: "mute (io_ok x)" "mute (io_err e)" "mute (io_lift r)"
  by (simp_all add: mute_def mute_at_def io_ok_def io_err_def io_lift_def)

lemma mute_map_err [mutes]: "mute m \<Longrightarrow> mute (io_map_err g m)"
  unfolding io_map_err_def by (intro mutes)

lemma mute_observe [mutes]: "mute observe"
  by (simp add: mute_def mute_at_def observe_def split: list.split)

lemma mute_perform [mutes]: "failover_warning a = [] \<Longrightarrow> mute (perform a)"
  by (simp add: mute_def mute_at_def perform_def)

lemma mute_warn_ignored [mutes]: "mute (warn (Warn_Ignored a))"
  unfolding warn_def by (intro mutes) simp

lemma mute_syscall [mutes]: "mute syscall"
  unfolding syscall_def by (intro mutes) (auto intro: mutes split: io_outcome.split)

lemma mute_state: "(\<And>v. mute (m v)) \<Longrightarrow> (\<And>w. failed_servers (f w) = failed_servers w) \<Longrightarrow> mute (\<lambda>w. m w (f w))"
  by (simp add: mute_def mute_at_def)

lemma mute_return [mutes]:
  "(\<And>w. failed_servers (f w) = failed_servers w) \<Longrightarrow> mute (\<lambda>w. (Some (Ok (g w)), f w))"
  by (simp add: mute_def mute_at_def)

lemma mute_calls [mutes]:
  "mute now" "mute (set_timeout d)" "mute (tcp_connect a d)" "mute (tcp_read s n)" "mute (udp_recv n)"
  "mute (remaining dl)" "mute (capped dl d)"
  unfolding now_def set_timeout_def tcp_connect_def tcp_read_def udp_recv_def remaining_def capped_def
  by (auto intro!: mutes)

lemma mute_sends [mutes]: "mute (tcp_write s bytes)" "mute (udp_send a bytes)"
proof -
  have "mute (\<lambda>w. io_bind (perform (Act_Write s b (checked w))) (\<lambda>_. io_ok x) w)" for b x
    by (rule mute_state) (auto intro!: mutes)
  then show "mute (tcp_write s bytes)" unfolding tcp_write_def Let_def by (auto intro!: mutes)
  show "mute (udp_send a bytes)"
    unfolding udp_send_def [abs_def] by (rule mute_state) (auto intro!: mutes)
qed

lemmas mute_ats = muted [OF mute_calls(2)] muted [OF mute_calls(4)] muted [OF mute_calls(5)] muted [OF mute_calls(6)]
  muted [OF mute_sends(1)] muted [OF mute_pure(1)] muted [OF mute_pure(2)] muted [OF mute_pure(3)]
  muted [OF mute_warn_ignored] muted [OF mute_map_err [OF mute_calls(2)]] muted [OF mute_map_err [OF mute_calls(6)]]

lemma mute_at_read_loop: "mute_at (read_loop s n bytes dl) w"
proof (induction w arbitrary: bytes rule: measure_induct_rule [where f = left])
  case (less w)
  show ?case
    by (subst read_loop_eq)
      (auto intro!: mute_at_bind mute_at_match mute_ats less.IH
        dest!: remaining_left set_timeout_left tcp_read_left)
qed

lemma mute_at_write_loop: "mute_at (write_loop s frame offset dl) w"
proof (induction w arbitrary: offset rule: measure_induct_rule [where f = left])
  case (less w)
  show ?case
    by (subst write_loop_eq)
      (auto intro!: mute_at_bind mute_at_match mute_ats less.IH
        dest!: remaining_left set_timeout_left tcp_write_left)
qed

lemma mute_frames [mutes]: "mute (read_frame s dl)" "mute (write_frame s wire dl)"
proof -
  have loops: "mute (read_loop s n bytes dl)" "mute (write_loop s frame offset dl)" for n bytes frame offset
    by (simp_all add: mute_def mute_at_read_loop mute_at_write_loop)
  show "mute (read_frame s dl)" "mute (write_frame s wire dl)"
    unfolding read_frame_def read_exact_def write_frame_def Let_def
    by (auto intro!: mutes loops split: option.split)
qed

lemma mute_exchange_parts [mutes]:
  "mute (forward_remaining dl)" "mute next_transaction_id" "mute set_nodelay"
  unfolding forward_remaining_def next_transaction_id_def set_nodelay_def by (auto intro!: mutes)

lemma mute_streams [mutes]:
  "mute (send_over_tcp ex stream)" "mute (fresh_stream address ex)" "mute (cache_stream address stream r)"
  unfolding send_over_tcp_def fresh_stream_def cache_stream_def
  by (auto intro!: mutes split: option.split)

lemma mute_expire_idle: "mute expire_idle"
  unfolding expire_idle_def [abs_def] by (rule mute_state) (auto intro!: mutes split: option.split)

lemma mute_tcp_exchange [mutes]: "mute (tcp_exchange address ex)"
  unfolding tcp_exchange_def Let_def
  by (rule mute_bind [OF mute_expire_idle], rule mute_state [where f = "\<lambda>w. w\<lparr>tcp_cache := None\<rparr>"])
    (auto intro!: mutes split: option.split)

lemma mute_at_udp_loop: "mute_at (udp_loop address ex invalid) w"
proof (induction w arbitrary: invalid rule: measure_induct_rule [where f = left])
  case (less w)
  show ?case
    by (subst udp_loop_eq)
      (auto intro!: mute_at_bind mute_at_match mute_ats less.IH muted [OF mute_tcp_exchange]
        simp: forward_remaining_def io_map_err_Ok io_lift_Ok io_ok_eq split: option.split
        dest!: remaining_left set_timeout_left udp_recv_left warn_Ok)
qed

lemma mute_attempt [mutes]: "mute (attempt tr address ex)"
proof -
  have "mute (udp_loop address ex invalid)" for ex invalid by (simp add: mute_def mute_at_udp_loop)
  then have run: "mute (run_exchange tr address ex)" for tr ex
    unfolding run_exchange_def udp_exchange_def by (cases tr) (auto intro!: mutes)
  have again: "mute (retry_exchange ex wire)" for ex wire
    unfolding retry_exchange_def by (intro mutes)
  have tcp: "mute (retry_over_tcp address ex wire)" for ex wire
    unfolding retry_over_tcp_def by (intro mutes again)
  have rewritten: "mute (retry_rewritten address again tr)" for again tr
    unfolding retry_rewritten_def by (auto intro!: mutes run tcp split: server_cookie_retry.split)
  show ?thesis
    unfolding attempt_def finish_badcookie_def
    by (auto intro!: mutes run again tcp rewritten split: server_cookie_retry.split)
qed

section \<open>The forwarder refines the policy\<close>

lemma io_match_Ok:
  "io_match m f g w = (Some r, v) \<longleftrightarrow>
     (\<exists>x u. m w = (Some (Ok x), u) \<and> f x u = (Some r, v)) \<or> (\<exists>e u. m w = (Some (Err e), u) \<and> g e u = (Some r, v))
     \<or> (m w = (Some Panic, v) \<and> r = Panic)"
  by (auto simp: io_match_def split: prod.splits option.splits result.splits)

lemma io_bind_returned:
  "io_bind m f w = (Some r, v) \<longleftrightarrow>
     (\<exists>x u. m w = (Some (Ok x), u) \<and> f x u = (Some r, v)) \<or> (\<exists>e. m w = (Some (Err e), v) \<and> r = Err e)
     \<or> (m w = (Some Panic, v) \<and> r = Panic)"
  by (auto simp: io_bind_def split: prod.splits option.splits result.splits)

lemma mute_run: "mute m \<Longrightarrow> m w = (r, v) \<Longrightarrow> failed_servers v = failed_servers w"
  by (metis mute_at_def muted snd_conv)

lemma aborts_from: "aborts (forward_error_from e)"
  by (simp add: forward_error_from_def aborts_def)

text \<open>Checks of a deadline and transaction ids fail with an error that ends the walk.\<close>

lemma check_returned:
  assumes "forward_remaining dl w = (Some r, v)"
  shows "(\<exists>d. r = Ok d) \<or> (\<exists>e. r = Err e \<and> aborts e)"
  using assms
  by (auto simp: forward_remaining_def io_map_err_def io_match_Ok io_ok_def io_err_def aborts_from
      remaining_def io_bind_def observe_def split: list.splits if_splits)

lemma id_returned:
  assumes "next_transaction_id w = (Some r, v)"
  shows "(\<exists>d. r = Ok d) \<or> (\<exists>e. r = Err e \<and> aborts e)"
  using assms
  by (auto simp: next_transaction_id_def io_map_err_def io_match_Ok io_ok_def io_err_def aborts_from
      syscall_def io_bind_def observe_def split: list.splits if_splits io_outcome.splits)

lemma capped_returned: "capped dl d w = (Some r, v) \<Longrightarrow> \<exists>x. r = Ok x"
  by (auto simp: capped_def now_def io_bind_def observe_def io_ok_def split: list.splits)

lemma io_bindE:
  assumes "io_bind m f w = (Some r, v)"
    and "\<And>x u. m w = (Some (Ok x), u) \<Longrightarrow> f x u = (Some r, v) \<Longrightarrow> P"
    and "\<And>e. m w = (Some (Err e), v) \<Longrightarrow> r = Err e \<Longrightarrow> P"
    and "m w = (Some Panic, v) \<Longrightarrow> r = Panic \<Longrightarrow> P"
  shows P
  using assms by (auto simp: io_bind_returned)

lemma io_matchE:
  assumes "io_match m f g w = (Some r, v)"
    and "\<And>x u. m w = (Some (Ok x), u) \<Longrightarrow> f x u = (Some r, v) \<Longrightarrow> P"
    and "\<And>e u. m w = (Some (Err e), u) \<Longrightarrow> g e u = (Some r, v) \<Longrightarrow> P"
    and "m w = (Some Panic, v) \<Longrightarrow> r = Panic \<Longrightarrow> P"
  shows P
  using assms by (auto simp: io_match_Ok)

lemma warn_step: "io_bind (warn m) f w = f () (w\<lparr>performed := performed w @ [Act_Warn m]\<rparr>)"
  by (simp add: io_bind_def warn_def perform_def)

definition follows :: "upstream_address list \<Rightarrow> forward_error \<Rightarrow> response option \<Rightarrow> (forward_error, response) result
   \<Rightarrow> forwarder \<Rightarrow> forwarder \<Rightarrow> bool" where
  "follows servers e relayed r w v \<longleftrightarrow>
     r = Panic \<or> (\<exists>ws. failed_servers v = failed_servers w @ ws \<and> failover servers e relayed ws r)"

lemma follows_abort: "aborts x \<Longrightarrow> failed_servers v = failed_servers w \<Longrightarrow> follows servers e relayed (Err x) w v"
  using aborted by (auto simp: follows_def)

lemma follows_earlier: "follows servers e relayed r u v \<Longrightarrow> failed_servers u = failed_servers w \<Longrightarrow> follows servers e relayed r w v"
  by (simp add: follows_def)

text \<open>What is done with the outcome of one attempt.\<close>

lemma attempt_refines:
  assumes rest: "\<And>x relayed w. forward_loop q tr dl rest x relayed w = (Some r, v) \<Longrightarrow> follows rest x relayed r w v"
    and m: "mute m"
    and run: "io_match m
       (\<lambda>response. io_bind (forward_remaining dl) (\<lambda>_.
            let code = response_rcode response in
            if code = BadCookie \<or> \<not> retries_in_group code then io_ok response
            else io_bind (warn (Warn_Upstream a (from_rcode code))) (\<lambda>_.
                forward_loop q tr dl rest (from_rcode code) (Some response))))
       (\<lambda>e. if e = Fwd_Cancelled then io_err Fwd_Cancelled
          else io_bind (warn (Warn_Upstream a e)) (\<lambda>_. forward_loop q tr dl rest e relayed)) w = (Some r, v)"
  shows "follows (a # rest) e relayed r w v"
  using run
proof (rule io_matchE)
  fix x u assume x: "m w = (Some (Ok x), u)"
    and f: "io_bind (forward_remaining dl) (\<lambda>_. let code = response_rcode x in
            if code = BadCookie \<or> \<not> retries_in_group code then io_ok x
            else io_bind (warn (Warn_Upstream a (from_rcode code))) (\<lambda>_.
                forward_loop q tr dl rest (from_rcode code) (Some x))) u = (Some r, v)"
  note u = mute_run [OF m x]
  from f show ?thesis
  proof (rule io_bindE)
    fix d u' assume d: "forward_remaining dl u = (Some (Ok d), u')"
      and g: "(let code = response_rcode x in
            if code = BadCookie \<or> \<not> retries_in_group code then io_ok x
            else io_bind (warn (Warn_Upstream a (from_rcode code))) (\<lambda>_.
                forward_loop q tr dl rest (from_rcode code) (Some x))) u' = (Some r, v)"
    note u' = mute_run [OF mute_exchange_parts(1) d]
    show ?thesis
    proof (cases "retries_in_group (response_rcode x)")
      case True
      then have "response_rcode x \<noteq> BadCookie" by (auto simp: retries_in_group_def)
      from rest [OF g [unfolded Let_def warn_step, simplified True this, simplified]]
      show ?thesis
        using next_response [OF True] u u' by (auto simp: follows_def warn_step)
    next
      case False
      then show ?thesis using g final [OF False] u u' by (auto simp: follows_def io_ok_def)
    qed
  qed (use check_returned mute_run [OF mute_exchange_parts(1)] u in \<open>auto simp: follows_def intro!: aborted\<close>)
next
  fix x u assume x: "m w = (Some (Err x), u)"
    and g: "(if x = Fwd_Cancelled then io_err Fwd_Cancelled
          else io_bind (warn (Warn_Upstream a x)) (\<lambda>_. forward_loop q tr dl rest x relayed)) u = (Some r, v)"
  note u = mute_run [OF m x]
  show ?thesis
  proof (cases "x = Fwd_Cancelled")
    case True
    then show ?thesis using g u follows_abort [of Fwd_Cancelled v w] by (simp add: io_err_def aborts_def)
  next
    case False
    have "forward_loop q tr dl rest x relayed (u\<lparr>performed := performed u @ [Act_Warn (Warn_Upstream a x)]\<rparr>) = (Some r, v)"
      using g False by (simp add: warn_step)
    from rest [OF this] show ?thesis using next_error [OF False] u by (auto simp: follows_def)
  qed
qed (simp add: follows_def)

lemma forward_loop_refines:
  assumes q: "client_query q"
  shows "forward_loop q tr dl servers e relayed w = (Some r, v) \<Longrightarrow> follows servers e relayed r w v"
proof (induction servers arbitrary: e relayed w)
  case Nil
  then show ?case
    unfolding forward_loop.simps
    by (rule io_bindE)
      (use exhausted [of e relayed] check_returned mute_run [OF mute_exchange_parts(1)] follows_abort in
        \<open>fastforce simp: follows_def io_ok_def io_err_def split: option.splits\<close>)+
next
  case (Cons a rest)
  note attempted = attempt_refines [OF Cons.IH mute_attempt]
  note same = mute_run [OF mute_calls(7)] mute_run [OF mute_exchange_parts(1)] mute_run [OF mute_exchange_parts(2)]
  from Cons.prems show ?case
    unfolding forward_loop.simps
  proof (elim io_bindE, goal_cases)
    case (1 adl w1 d w2 ident w3 sent w4)
    then have "follows (a # rest) e relayed r w3 v"
      by (intro attempted) (auto simp: query_sent_eq [OF q] io_lift_def)
    then show ?case using same(1) [OF 1(1)] same(2) [OF 1(2)] same(3) [OF 1(3)] by (simp add: follows_def)
  next
    case (4 adl w1 d w2 x)
    then show ?case using same(1) [OF 4(1)] same(2) [OF 4(2)] same(3) [OF 4(3)] id_returned [OF 4(3)]
      by (auto intro: follows_abort)
  next
    case (6 adl w1 x)
    then show ?case using same(1) [OF 6(1)] same(2) [OF 6(2)] check_returned [OF 6(2)]
      by (auto intro: follows_abort)
  qed (auto simp: query_sent_eq [OF q] io_lift_def follows_def dest: capped_returned)
qed



end
