(* ===== verification/Delivery.thy ===== *)
theory Delivery
  imports Failover
begin

text \<open>
  Answers and what was sent (\<^verbatim>\<open>src/upstream.rs\<close>). A response that the forwarder returns answers a
  message of this very run: its log holds the datagram with the bytes of that message, or the
  frame with them on one stream.
\<close>

section \<open>Messages in a log\<close>

definition carried :: "sent_query \<Rightarrow> action list \<Rightarrow> bool" where
  "carried s xs \<longleftrightarrow> (\<exists>a c. Act_Udp a (sent_wire s) c \<in> set xs)
     \<or> (\<exists>stream. sublist (frame_bytes (sent_wire s)) (concat (map (bytes_written stream) xs)))"

lemma carried_mono: "carried s ys \<Longrightarrow> carried s (xs @ ys @ zs)"
proof -
  have "sublist (concat (map f ys)) (concat (map f (xs @ ys @ zs)))" for f :: "action \<Rightarrow> u8 list"
    by simp
  then show "carried s ys \<Longrightarrow> carried s (xs @ ys @ zs)"
    unfolding carried_def by (metis Un_iff set_append sublist_order.order.trans)
qed

lemma orderly_grows: "orderly m \<Longrightarrow> m w = (r, v) \<Longrightarrow> \<exists>xs. performed v = performed w @ xs"
  using orderly_run by fastforce

text \<open>Response \<open>r\<close> answers message \<open>s\<close>, which was sent between \<open>w\<close> and \<open>v\<close>.\<close>

definition answered_by :: "sent_query \<Rightarrow> forwarder \<Rightarrow> response \<Rightarrow> forwarder \<Rightarrow> bool" where
  "answered_by s w r v \<longleftrightarrow> answers_to s r \<and> (\<exists>xs. performed v = performed w @ xs \<and> carried s xs)"

lemma answered_by_around:
  assumes "answered_by s w r v" and "performed w = performed w' @ xs" and "performed v' = performed v @ ys"
  shows "answered_by s w' r v'"
  using assms carried_mono by (fastforce simp: answered_by_def)

definition delivers :: "sent_query \<Rightarrow> (forward_error, response) fwd \<Rightarrow> bool" where
  "delivers s m \<longleftrightarrow> (\<forall>w r v. m w = (Some (Ok r), v) \<longrightarrow> answered_by s w r v)"

named_theorems delivering "rules that show runs deliver"

lemma delivers_run: "delivers s m \<Longrightarrow> m w = (Some (Ok r), v) \<Longrightarrow> answered_by s w r v"
  by (simp add: delivers_def)

lemma delivers_bind [delivering]:
  assumes "orderly m" and "\<And>x. delivers s (f x)"
  shows "delivers s (io_bind m f)"
  unfolding delivers_def
proof (intro allI impI)
  fix w r v assume "io_bind m f w = (Some (Ok r), v)"
  then obtain x u where x: "m w = (Some (Ok x), u)" "f x u = (Some (Ok r), v)" by (auto simp: io_bind_Ok)
  obtain xs where "performed u = performed w @ xs" using orderly_grows [OF assms(1) x(1)] ..
  then show "answered_by s w r v"
    by (rule answered_by_around [OF delivers_run [OF assms(2) x(2)], where ys = "[]"]) simp
qed

lemma delivers_kept:
  assumes "delivers s m" and "\<And>x u r v. f x u = (Some (Ok r), v) \<Longrightarrow> r = x \<and> performed v = performed u"
  shows "delivers s (io_bind m f)"
  unfolding delivers_def
proof (intro allI impI)
  fix w r v assume "io_bind m f w = (Some (Ok r), v)"
  then obtain x u where x: "m w = (Some (Ok x), u)" "f x u = (Some (Ok r), v)" by (auto simp: io_bind_Ok)
  show "answered_by s w r v"
    using answered_by_around [OF delivers_run [OF assms(1) x(1)], of w "[]" v "[]"] assms(2) [OF x(2)] by simp
qed

lemma delivers_match:
  assumes "delivers s m" and "orderly m" and "\<And>x u r v. f x u = (Some (Ok r), v) \<Longrightarrow> r = x \<and> performed v = performed u"
    and "\<And>e. delivers s (g e)"
  shows "delivers s (io_match m f g)"
  unfolding delivers_def
proof (intro allI impI)
  fix w r v assume "io_match m f g w = (Some (Ok r), v)"
  then consider x u where "m w = (Some (Ok x), u)" "f x u = (Some (Ok r), v)"
    | e u where "m w = (Some (Err e), u)" "g e u = (Some (Ok r), v)" by (auto simp: io_match_Ok)
  then show "answered_by s w r v"
  proof cases
    case 1
    then show ?thesis
      using answered_by_around [OF delivers_run [OF assms(1) 1(1)], of w "[]" v "[]"] assms(3) [OF 1(2)] by simp
  next
    case 2
    obtain xs where "performed u = performed w @ xs" using orderly_grows [OF assms(2) 2(1)] ..
    then show ?thesis
      by (rule answered_by_around [OF delivers_run [OF assms(4) 2(2)], where ys = "[]"]) simp
  qed
qed

lemma delivers_err [delivering]: "delivers s (io_err e)"
  by (simp add: delivers_def io_err_def)

lemma delivers_state:
  "(\<And>v. delivers s (m v)) \<Longrightarrow> (\<And>w. performed (f w) = performed w) \<Longrightarrow> delivers s (\<lambda>w. m w (f w))"
  unfolding delivers_def answered_by_def by metis

section \<open>Exchanges\<close>

lemma send_over_tcp_answers:
  assumes "parsed (sq_packet (ex_sent ex))" and "send_over_tcp ex stream w = (Some (Ok r), v)"
  shows "answers_to (ex_sent ex) r"
  using assms(2)
  by (auto simp: send_over_tcp_def io_bind_Ok io_map_err_Ok io_lift_Ok io_err_def io_ok_def outcome
      intro: answers_toI [OF _ _ assms(1)] split: option.splits)

lemma send_over_tcp_delivers:
  assumes p: "parsed (sq_packet (ex_sent ex))"
  shows "delivers (ex_sent ex) (send_over_tcp ex stream)"
  unfolding delivers_def
proof (intro allI impI)
  fix w r v assume run: "send_over_tcp ex stream w = (Some (Ok r), v)"
  let ?rest = "io_bind (io_map_err forward_error_from (read_frame stream (ex_deadline ex))) (\<lambda>frame.
       case frame of None \<Rightarrow> io_err Fwd_InvalidResponse
       | Some bytes \<Rightarrow> io_bind (forward_remaining (ex_deadline ex)) (\<lambda>_.
           io_bind (io_lift (map_err Fwd_Parse (packet_parse bytes))) (\<lambda>response.
           io_bind (io_lift (validate_response (ex_sent ex) response)) (\<lambda>valid.
             case valid of None \<Rightarrow> io_err Fwd_InvalidResponse | Some r \<Rightarrow> io_ok r))))"
  obtain u where u: "write_frame stream (sent_wire (ex_sent ex)) (ex_deadline ex) w = (Some (Ok ()), u)"
      and v: "?rest u = (Some (Ok r), v)"
    using run by (auto simp: send_over_tcp_def io_bind_Ok [where m = "io_map_err f m" for f m] io_map_err_Ok)
  obtain xs where xs: "performed u = performed w @ xs" using orderly_grows [OF ord_frames(2) u] ..
  have "orderly ?rest" by (auto intro!: ord_intros split: option.split)
  then obtain ys where ys: "performed v = performed u @ ys" using orderly_grows [where m = ?rest and w = u, OF _ v] by blast
  have "written stream u = written stream w @ frame_bytes (sent_wire (ex_sent ex))"
    using wp_returned(2) [OF write_frame_spec u refl] by simp
  then have "concat (map (bytes_written stream) xs) = frame_bytes (sent_wire (ex_sent ex))"
    using xs by (simp add: written_def)
  then have "carried (ex_sent ex) xs" unfolding carried_def by (metis sublist_order.order.refl)
  then show "answered_by (ex_sent ex) w r v"
    using carried_mono [of _ xs "[]" ys] xs ys send_over_tcp_answers [OF p run] by (simp add: answered_by_def)
qed

lemma cache_stream_keeps: "cache_stream address stream x u = (Some (Ok r), v) \<Longrightarrow> r = x \<and> performed v = performed u"
  by (auto simp: cache_stream_def now_def io_bind_def observe_def io_ok_def split: list.splits)

lemma tcp_exchange_delivers [delivering]:
  assumes p: "parsed (sq_packet (ex_sent ex))"
  shows "delivers (ex_sent ex) (tcp_exchange address ex)"
proof -
  note send = send_over_tcp_delivers [OF p]
  have fresh: "delivers (ex_sent ex) (io_bind (fresh_stream address ex) (\<lambda>s. io_bind set_nodelay (\<lambda>_.
      io_bind (send_over_tcp ex s) (\<lambda>r. cache_stream address s r))))"
    by (intro delivers_bind ord_intros delivers_kept [OF send]) (rule cache_stream_keeps)
  have body: "delivers (ex_sent ex) (io_bind (case c of Some c \<Rightarrow> io_ok (cc_stream c) | None \<Rightarrow> fresh_stream address ex)
      (\<lambda>s. io_bind set_nodelay (\<lambda>_. io_match (send_over_tcp ex s) (\<lambda>r. cache_stream address s r)
        (\<lambda>e. if c \<noteq> None then io_bind (fresh_stream address ex) (\<lambda>s. io_bind set_nodelay (\<lambda>_.
          io_bind (send_over_tcp ex s) (\<lambda>r. cache_stream address s r))) else io_err e))))" for c
    by (intro delivers_bind delivers_match [OF send])
      (auto intro!: ord_intros fresh delivers_err dest: cache_stream_keeps split: option.split)
  show ?thesis
    unfolding tcp_exchange_def Let_def
    by (rule delivers_bind [OF ord_expire_idle],
        rule delivers_state [where f = "\<lambda>w. w\<lparr>tcp_cache := None\<rparr>", OF body]) simp
qed

text \<open>The loop that waits for datagrams sends nothing itself; it accepts an answer to the exchange.\<close>

lemma udp_loop_answers:
  assumes p: "parsed (sq_packet (ex_sent ex))"
  shows "udp_loop address ex invalid w = (Some (Ok r), v) \<Longrightarrow> answers_to (ex_sent ex) r"
proof (induction w arbitrary: invalid rule: measure_induct_rule [where f = left])
  case (less w)
  have tcp: "tcp_exchange address ex u = (Some (Ok r), v) \<Longrightarrow> answers_to (ex_sent ex) r" for u
    using delivers_run [OF tcp_exchange_delivers [OF p]] by (auto simp: answered_by_def)
  show ?case
    using less.prems
    by (subst (asm) udp_loop_eq)
      (auto simp: io_bind_Ok io_match_Ok io_map_err_Ok io_lift_Ok io_ok_eq io_err_eq forward_remaining_def
        intro: tcp check_datagram_answers [OF _ p] less.IH [rotated] split: if_splits option.splits
        dest!: remaining_left set_timeout_left udp_recv_left warn_Ok)
qed

lemma udp_exchange_delivers:
  assumes p: "parsed (sq_packet (ex_sent ex))"
  shows "delivers (ex_sent ex) (udp_exchange address ex)"
proof -
  have send: "delivers (ex_sent ex) (io_bind (io_map_err forward_error_from (udp_send a (sent_wire (ex_sent ex))))
      (\<lambda>_. udp_loop address ex 0))" for a
    unfolding delivers_def
  proof (intro allI impI)
    fix w r v assume "io_bind (io_map_err forward_error_from (udp_send a (sent_wire (ex_sent ex))))
      (\<lambda>_. udp_loop address ex 0) w = (Some (Ok r), v)"
    then obtain u where u: "udp_send a (sent_wire (ex_sent ex)) w = (Some (Ok ()), u)"
        and v: "udp_loop address ex 0 u = (Some (Ok r), v)" by (auto simp: io_bind_Ok io_map_err_Ok)
    have "performed u = performed w @ [Act_Udp a (sent_wire (ex_sent ex)) (checked w)]"
      using u by (auto simp: udp_send_def run_simps split: list.splits io_outcome.splits)
    moreover obtain ys where "performed v = performed u @ ys"
      using orderly_grows [of "udp_loop address ex 0", OF _ v] by (auto simp: orderly_def ord_at_udp_loop)
    ultimately show "answered_by (ex_sent ex) w r v"
      using udp_loop_answers [OF p v] by (auto simp: answered_by_def carried_def)
  qed
  show ?thesis
    unfolding udp_exchange_def
    by (intro delivers_bind [OF ord_map_err [OF ord_syscall]] delivers_bind [OF ord_forward_remaining]
        delivers_bind [OF ord_map_err [OF ord_set_timeout]] send)
qed

lemma run_exchange_delivers:
  "parsed (sq_packet (ex_sent ex)) \<Longrightarrow> delivers (ex_sent ex) (run_exchange tr address ex)"
  by (cases tr) (simp_all add: run_exchange_def tcp_exchange_delivers udp_exchange_delivers)

section \<open>Retries and failover\<close>

text \<open>As \<open>answered_by\<close>, for some message that was sent for the query.\<close>

definition query_answered :: "query \<Rightarrow> forwarder \<Rightarrow> response \<Rightarrow> forwarder \<Rightarrow> bool" where
  "query_answered q w r v \<longleftrightarrow> (\<exists>s. sent_for q s \<and> answered_by s w r v)"

lemma query_answered_after:
  "orderly m \<Longrightarrow> m w = (x, u) \<Longrightarrow> query_answered q u r v \<Longrightarrow> query_answered q w r v"
  using orderly_grows [of m w x u] answered_by_around [of _ u r v w _ v "[]"] by (auto simp: query_answered_def)

lemma retry_exchange_sent:
  assumes "retry_exchange ex wire w = (Some (Ok again), v)" and "sent_for q (ex_sent ex)"
    and "answers_to (ex_sent ex) r" and "retry_wire (ex_sent ex) r wire"
  shows "sent_for q (ex_sent again)"
  using assms
  by (auto simp: retry_exchange_def io_bind_Ok io_lift_Ok io_ok_eq outcome retry_wire_def
      intro: sent_rewritten sent_again)

lemma query_answered_here: "sent_for q s \<Longrightarrow> answered_by s w r v \<Longrightarrow> query_answered q w r v"
  by (auto simp: query_answered_def)

lemma retry_over_tcp_answered:
  assumes q: "client_query q" and run: "retry_over_tcp address ex wire w = (Some (Ok x), v)"
    and s: "sent_for q (ex_sent ex)" "answers_to (ex_sent ex) r" "retry_wire (ex_sent ex) r wire"
  shows "query_answered q w x v"
proof -
  obtain again u where a: "retry_exchange ex wire w = (Some (Ok again), u)" "tcp_exchange address again u = (Some (Ok x), v)"
    using run by (auto simp: retry_over_tcp_def io_bind_Ok)
  have again: "sent_for q (ex_sent again)" by (rule retry_exchange_sent [OF a(1) s])
  have "orderly (retry_exchange ex wire)" unfolding retry_exchange_def by (intro ord_intros)
  from query_answered_after [OF this a(1) query_answered_here [OF again delivers_run [OF tcp_exchange_delivers a(2)]]]
  show ?thesis using sent_for_parsed [OF again q] by simp
qed

lemma retry_rewritten_answered:
  assumes q: "client_query q" and s: "sent_for q (ex_sent ex)"
    and run: "retry_rewritten address ex tr w = (Some (Ok x), v)"
  shows "query_answered q w x v"
proof -
  obtain r u where r: "run_exchange tr address ex w = (Some (Ok r), u)"
      and f: "(if response_rcode r \<noteq> BadCookie \<or> tr = Tcp then io_ok r
       else io_bind (io_lift (sent_cookie_retry (ex_sent ex) r)) (\<lambda>decision.
           case decision of
             Retry_Rewrite wire \<Rightarrow> retry_over_tcp address ex wire
           | Retry_Current \<Rightarrow> retry_over_tcp address ex (sent_wire (ex_sent ex))
           | Retry_Tcp \<Rightarrow> retry_over_tcp address ex (sent_wire (ex_sent ex))
           | Retry_Absent \<Rightarrow> io_err Fwd_InvalidResponse
           | Retry_Discard \<Rightarrow> io_err Fwd_InvalidResponse)) u = (Some (Ok x), v)"
    using run unfolding retry_rewritten_def io_bind_Ok by blast
  have d: "answered_by (ex_sent ex) w r u"
    by (rule delivers_run [OF run_exchange_delivers r]) (rule sent_for_parsed [OF s q])
  then have a: "answers_to (ex_sent ex) r" by (simp add: answered_by_def)
  obtain xs where xs: "performed u = performed w @ xs" using d by (auto simp: answered_by_def)
  have p: "parsed (sq_packet (ex_sent ex))" by (rule sent_for_parsed [OF s q])
  have "query_answered q u x v \<or> (x = r \<and> v = u)"
    using f retry_over_tcp_answered [OF q _ s a] retry_wires [OF p, of r]
    by (cases "cookie_decision (sq_packet (ex_sent ex)) (response_packet r)")
      (auto simp: io_ok_eq io_err_eq sent_cookie_retry_eq [OF p a] split: if_splits)
  then show ?thesis
    using query_answered_here [OF s d] answered_by_around [of _ u x v w xs v "[]"] xs
    by (auto simp: query_answered_def)
qed

lemma attempt_answered:
  assumes q: "client_query q" and s: "sent_for q (ex_sent ex)"
    and run: "attempt tr address ex w = (Some (Ok x), v)"
  shows "query_answered q w x v"
proof -
  have p: "parsed (sq_packet (ex_sent ex))" by (rule sent_for_parsed [OF s q])
  obtain r u where r: "run_exchange tr address ex w = (Some (Ok r), u)"
      and f: "(if response_rcode r = BadCookie then finish_badcookie address ex r tr else io_ok r) u = (Some (Ok x), v)"
    using run unfolding attempt_def io_bind_Ok by blast
  note d = delivers_run [OF run_exchange_delivers [OF p] r]
  then have a: "answers_to (ex_sent ex) r" by (simp add: answered_by_def)
  obtain xs where xs: "performed u = performed w @ xs" using d by (auto simp: answered_by_def)
  have again: "query_answered q u x v"
    if w: "retry_wire (ex_sent ex) r wire"
      and m: "io_bind (retry_exchange ex wire) (\<lambda>again. retry_rewritten address again tr) u = (Some (Ok x), v)" for wire
  proof -
    obtain e u' where e: "retry_exchange ex wire u = (Some (Ok e), u')" "retry_rewritten address e tr u' = (Some (Ok x), v)"
      using m by (auto simp: io_bind_Ok)
    have "orderly (retry_exchange ex wire)" unfolding retry_exchange_def by (intro ord_intros)
    from query_answered_after [OF this e(1) retry_rewritten_answered [OF q retry_exchange_sent [OF e(1) s a w] e(2)]]
    show ?thesis .
  qed
  have "query_answered q u x v \<or> (x = r \<and> v = u)"
    using f retry_over_tcp_answered [OF q _ s a] retry_wires [OF p, of r] again
    by (cases "cookie_decision (sq_packet (ex_sent ex)) (response_packet r)")
      (auto simp: io_ok_eq io_err_eq finish_badcookie_def sent_cookie_retry_eq [OF p a] split: if_splits)
  then show ?thesis
    using query_answered_here [OF s d] answered_by_around [of _ u x v w xs v "[]"] xs
    by (auto simp: query_answered_def)
qed

lemma query_answered_around:
  assumes "query_answered q w x v" and "performed w = performed w' @ xs" and "performed v' = performed v @ ys"
  shows "query_answered q w' x v'"
  using assms answered_by_around unfolding query_answered_def by blast

lemma ord_forward_loop: "orderly (forward_loop q tr dl servers e relayed)"
  by (induction servers arbitrary: e relayed) (auto intro!: ord_intros simp: Let_def split: option.split)

text \<open>What is done with the outcome of one attempt: a response that is kept is one of this attempt.\<close>

lemma attempted_answered:
  assumes m: "\<And>w x v. m w = (Some (Ok x), v) \<Longrightarrow> query_answered q w x v" "orderly m"
    and rest: "\<And>y relayed w. forward_loop q tr dl rest y relayed w = (Some (Ok x), v) \<Longrightarrow> query_answered q w x v \<or> relayed = Some x"
    and run: "io_match m
       (\<lambda>response. io_bind (forward_remaining dl) (\<lambda>_.
            let code = response_rcode response in
            if code = BadCookie \<or> \<not> retries_in_group code then io_ok response
            else io_bind (warn (Warn_Upstream a (from_rcode code))) (\<lambda>_.
                forward_loop q tr dl rest (from_rcode code) (Some response))))
       (\<lambda>e. if e = Fwd_Cancelled then io_err Fwd_Cancelled
          else io_bind (warn (Warn_Upstream a e)) (\<lambda>_. forward_loop q tr dl rest e relayed)) w = (Some (Ok x), v)"
  shows "query_answered q w x v \<or> relayed = Some x"
  using run
proof (rule io_matchE)
  fix r u assume r: "m w = (Some (Ok r), u)"
    and f: "io_bind (forward_remaining dl) (\<lambda>_. let code = response_rcode r in
            if code = BadCookie \<or> \<not> retries_in_group code then io_ok r
            else io_bind (warn (Warn_Upstream a (from_rcode code))) (\<lambda>_.
                forward_loop q tr dl rest (from_rcode code) (Some r))) u = (Some (Ok x), v)" (is "?F u = _")
  have "orderly ?F" by (auto intro!: ord_intros ord_forward_loop simp: Let_def)
  then obtain ys where ys: "performed v = performed u @ ys" using orderly_grows [where m = ?F and w = u, OF _ f] by blast
  obtain xs where xs: "performed u = performed w @ xs" using orderly_grows [OF m(2) r] ..
  obtain d u' where d: "forward_remaining dl u = (Some (Ok d), u')"
      and f': "(let code = response_rcode r in
            if code = BadCookie \<or> \<not> retries_in_group code then io_ok r
            else io_bind (warn (Warn_Upstream a (from_rcode code))) (\<lambda>_.
                forward_loop q tr dl rest (from_rcode code) (Some r))) u' = (Some (Ok x), v)"
    using f unfolding io_bind_Ok by blast
  obtain zs where zs: "performed u' = performed u @ zs" using orderly_grows [OF ord_forward_remaining d] ..
  let ?b = "Act_Warn (Warn_Upstream a (from_rcode (response_rcode r)))"
  have "x = r \<or> query_answered q (u'\<lparr>performed := performed u' @ [?b]\<rparr>) x v"
    using f' rest [of _ "Some r"] by (auto simp: Let_def io_ok_eq warn_step split: if_splits)
  then show ?thesis
    using query_answered_around [OF m(1) [OF r], of w "[]" v ys] ys
      query_answered_around [of q "u'\<lparr>performed := performed u' @ [?b]\<rparr>" x v w "xs @ zs @ [?b]" v "[]"] xs zs
    by auto
next
  fix y u assume y: "m w = (Some (Err y), u)"
    and g: "(if y = Fwd_Cancelled then io_err Fwd_Cancelled
          else io_bind (warn (Warn_Upstream a y)) (\<lambda>_. forward_loop q tr dl rest y relayed)) u = (Some (Ok x), v)"
  let ?b = "Act_Warn (Warn_Upstream a y)"
  obtain xs where xs: "performed u = performed w @ xs" using orderly_grows [OF m(2) y] ..
  have "query_answered q (u\<lparr>performed := performed u @ [?b]\<rparr>) x v \<or> relayed = Some x"
    using g rest by (auto simp: io_err_eq warn_step split: if_splits)
  then show ?thesis
    using query_answered_around [of q "u\<lparr>performed := performed u @ [?b]\<rparr>" x v w "xs @ [?b]" v "[]"] xs by auto
qed simp

text \<open>In a walk, the response is one of this walk or the one it began with.\<close>

lemma forward_loop_answered:
  assumes q: "client_query q"
  shows "forward_loop q tr dl servers e relayed w = (Some (Ok x), v) \<Longrightarrow> query_answered q w x v \<or> relayed = Some x"
proof (induction servers arbitrary: e relayed w)
  case Nil
  then show ?case by (auto simp: io_bind_Ok io_ok_eq io_err_eq split: option.splits)
next
  case (Cons a rest)
  from Cons.prems show ?case
    unfolding forward_loop.simps
  proof (elim io_bindE, goal_cases)
    case (1 adl w1 d w2 ident w3 sent w4)
    have s: "sent = sent_as q ident" "w4 = w3"
      using 1(4) by (auto simp: query_sent_eq [OF q] io_lift_def)
    have m: "attempt tr a \<lparr>ex_sent = sent, ex_deadline = adl\<rparr> u = (Some (Ok y), u') \<Longrightarrow> query_answered q u y u'" for u y u'
      by (erule attempt_answered [OF q, rotated]) (simp add: s sent_first)
    have "query_answered q w4 x v \<or> relayed = Some x"
      by (rule attempted_answered [OF m ord_attempt Cons.IH 1(5)])
    then show ?case
      using query_answered_after [OF ord_deadlines(2) 1(1)] query_answered_after [OF ord_forward_remaining 1(2)]
        query_answered_after [OF ord_transaction(1) 1(3)] s(2) by blast
  qed simp_all
qed

section \<open>Properties of forwarding\<close>

text \<open>One forwarded query in the middle of a worker's life.\<close>

lemma forward_request:
  assumes q: "client_query q" and w: "cache_ok w" "in_budget dl w" and run: "forward q g tr dl w = (r, v)"
  shows "r \<noteq> Some Panic" and "cache_ok v"
    and "\<exists>xs. performed v = performed w @ xs
      \<and> list_all (endpoint_action q (upstream_socket ` set (group_servers g)) (expiry dl)) xs"
proof -
  let ?w = "w\<lparr>performed := []\<rparr>"
  obtain u where u: "forward q g tr dl ?w = (r, u)" "v = logged (performed w) u"
    using orderly_run [OF ord_forward run] by blast
  have w': "cache_ok ?w" "performed ?w = []" "in_budget dl ?w" using w by (simp_all add: cache_ok_def)
  note f = forward_run [OF q w'(1,2) u(1) w'(3)]
  show "r \<noteq> Some Panic" by (rule f(1))
  show "cache_ok v" using f(4) u(2) by (simp add: cache_ok_def)
  show "\<exists>xs. performed v = performed w @ xs
      \<and> list_all (endpoint_action q (upstream_socket ` set (group_servers g)) (expiry dl)) xs"
    using f(3) u(2) by auto
qed

text \<open>C4: forwarding a client query never panics and returns a response only if that response is
  complete and answers a message that this very run sent for the query (the query itself under a
  fresh id, or a cookie retry of it): the run's part of the log holds that message as a datagram
  or as a frame, and only traffic with the servers of the group.\<close>

theorem forward_correlated:
  assumes "client_query q" and "cache_ok w" and "in_budget dl w" and "forward q g tr dl w = (Some r, v)"
  shows "r \<noteq> Panic \<and> (\<forall>x. r = Ok x \<longrightarrow> (\<exists>s xs. sent_for q s \<and> answers_to s x \<and> performed v = performed w @ xs
    \<and> carried s xs \<and> list_all (endpoint_action q (upstream_socket ` set (group_servers g)) (expiry dl)) xs))"
proof (intro conjI allI impI)
  note f = forward_request [OF assms]
  show "r \<noteq> Panic" using f(1) by simp
  fix x assume "r = Ok x"
  then have "query_answered q w x v"
    using forward_loop_answered [OF assms(1), of tr dl _ _ None w x v] assms(4) by (auto simp: forward_def)
  then show "\<exists>s xs. sent_for q s \<and> answers_to s x \<and> performed v = performed w @ xs
    \<and> carried s xs \<and> list_all (endpoint_action q (upstream_socket ` set (group_servers g)) (expiry dl)) xs"
    using f(3) by (auto simp: query_answered_def answered_by_def)
qed

theorem forward_correlated_witness:
  "\<exists>s xs. sent_for sample_query s \<and> answers_to s (Response sample_reply)
     \<and> performed (snd (forward sample_query sample_group Udp (Deadline 5000000000) answering)) = xs \<and> carried s xs"
proof -
  obtain v where v: "forward sample_query sample_group Udp (Deadline 5000000000) answering
      = (Some (Ok (Response sample_reply)), v)"
    using sample_forward by (metis prod.collapse)
  show ?thesis
    using forward_correlated [OF sample_client_query answering_ok(1,3) v] v answering_ok(2) by auto
qed

text \<open>C22: a query without a COOKIE leaves the program as it came: every datagram and every piece of a
  frame sent for it goes to a server of the selected group, and carries the client's message with
  nothing changed but the two bytes of the transaction id.\<close>

theorem forward_opaque:
  assumes "client_query q" and "pk_cookie (query_packet q) = None" and "cache_ok w" and "in_budget dl w"
    and "forward q g tr dl w = (r, v)" and "performed v = performed w @ xs" and "b \<in> set xs"
  shows "\<exists>m. drop 2 m = drop 2 (pk_wire (query_packet q)) \<and> length m = length (pk_wire (query_packet q))
    \<and> (\<forall>a bytes c. b = Act_Udp a bytes c \<longrightarrow> a \<in> upstream_socket ` set (group_servers g) \<and> bytes = m)
    \<and> (\<forall>stream bytes c. b = Act_Write stream bytes c \<longrightarrow> stream_peer stream \<in> upstream_socket ` set (group_servers g)
         \<and> (\<exists>i n. bytes = take n (drop i (frame_bytes m))))"
proof -
  let ?A = "upstream_socket ` set (group_servers g)"
  have act: "endpoint_action q ?A (expiry dl) b"
    using forward_request(3) [OF assms(1,3-5)] assms(6,7) by (auto simp: list_all_iff)
  have m: "drop 2 (sent_wire s) = drop 2 (pk_wire (query_packet q))"
      "length (sent_wire s) = length (pk_wire (query_packet q))" if "sent_for q s" for s
    using sent_for_no_cookie [OF that assms(2)] length_id_wire [OF client_query_wf [OF assms(1)]]
    by (auto simp: sent_as_wire)
  show ?thesis
  proof (cases b)
    case (Act_Udp a bytes c)
    then show ?thesis using act m by auto
  next
    case (Act_Write stream bytes c)
    then show ?thesis using act m by auto
  qed (auto intro: exI [of _ "pk_wire (query_packet q)"])
qed

theorem forward_opaque_witness:
  "sample_server \<in> upstream_socket ` set (group_servers sample_group)
   \<and> drop 2 ([0, 7] @ drop 2 sample_wire) = drop 2 (pk_wire (query_packet sample_query))"
proof -
  obtain r v where v: "forward sample_query sample_group Udp (Deadline 5000000000) answering = (r, v)"
    by fastforce
  have "performed v = performed answering @ [Act_Udp sample_server ([0, 7] @ drop 2 sample_wire) (Some 0)]"
    using sample_datagrams v by (simp add: answering_ok)
  from forward_opaque [OF sample_client_query _ answering_ok(1,3) v this] show ?thesis
    by (auto simp: sample_query_def query_of_def sample_packet_def)
qed

text \<open>C23: the connection cache is filled only by a successful TCP exchange, with the endpoint of that
  exchange, and is empty after a failed one; the exchange does not panic.\<close>

theorem tcp_exchange_caches:
  assumes "exchange_ok q D ex" and "cache_ok w" and "timely D (checked w)"
    and "tcp_exchange address ex w = (Some r, v)"
  shows "(case r of Ok x \<Rightarrow> \<exists>c. tcp_cache v = Some c \<and> cc_address c = address
    | Err e \<Rightarrow> tcp_cache v = None
    | Panic \<Rightarrow> False)"
proof -
  let ?w = "w\<lparr>performed := []\<rparr>"
  obtain u where u: "tcp_exchange address ex ?w = (Some r, u)" "v = logged (performed w) u"
    using orderly_run [OF ord_tcp_exchange assms(4)] by blast
  have "cache_ok ?w" "performed ?w = []" "timely D (checked ?w)" using assms(2,3) by (simp_all add: cache_ok_def)
  from tcp_exchange_fills [OF assms(1) this, of address r] u show ?thesis by (cases r) simp_all
qed

theorem tcp_exchange_caches_witness:
  "tcp_cache (snd (tcp_exchange (UpstreamAddress sample_server)
     \<lparr>ex_sent = sent_as sample_query (TransactionId 7), ex_deadline = Deadline 9\<rparr>
     ((idle [tick\<lparr>ob_stop := True\<rparr>])\<lparr>checked := Some 0\<rparr>))) = None"
proof -
  let ?w = "(idle [tick\<lparr>ob_stop := True\<rparr>])\<lparr>checked := Some 0\<rparr>"
  let ?ex = "\<lparr>ex_sent = sent_as sample_query (TransactionId 7), ex_deadline = Deadline 9\<rparr>"
  obtain v where v: "tcp_exchange (UpstreamAddress sample_server) ?ex ?w = (Some (Err Fwd_Cancelled), v)"
    by (simp add: tcp_exchange_def expire_idle_def fresh_stream_def forward_remaining_def run_simps idle_def
      tick_def forward_error_from_def)
  have "cache_ok ?w" "timely 9 (checked ?w)" by (simp_all add: cache_ok_def idle_def timely_def)
  from tcp_exchange_caches [OF sample_exchange_ok this v] v show ?thesis by simp
qed

end
