(* ===== verification/Reach.thy ===== *)
theory Reach
  imports Server
begin

text \<open>
  Where the traffic of a worker goes, over its whole life (\<^verbatim>\<open>src/server.rs\<close>): the clients of its jobs
  and the upstream endpoints of the routing table, whatever the clients send.
\<close>

section \<open>Endpoints of actions\<close>

text \<open>The endpoint an action is aimed at.\<close>

fun aimed_at :: "action \<Rightarrow> socket_addr option" where
  "aimed_at (Act_Connect a) = Some a"
| "aimed_at (Act_Udp a bytes c) = Some a"
| "aimed_at (Act_Write stream bytes c) = Some (stream_peer stream)"
| "aimed_at (Act_Read stream bytes) = Some (stream_peer stream)"
| "aimed_at (Act_Warn m) = None"

text \<open>An action that concerns only the endpoints \<open>A\<close> or a client: a datagram to one of \<open>P\<close>, or its own stream.\<close>

fun reaches :: "socket_addr set \<Rightarrow> socket_addr set \<Rightarrow> tcp_stream set \<Rightarrow> action \<Rightarrow> bool" where
  "reaches A P S (Act_Connect a) \<longleftrightarrow> a \<in> A"
| "reaches A P S (Act_Udp a bytes c) \<longleftrightarrow> a \<in> A \<or> a \<in> P"
| "reaches A P S (Act_Write stream bytes c) \<longleftrightarrow> stream_peer stream \<in> A \<or> stream \<in> S"
| "reaches A P S (Act_Read stream bytes) \<longleftrightarrow> stream_peer stream \<in> A \<or> stream \<in> S"
| "reaches A P S (Act_Warn m) \<longleftrightarrow> True"

lemma endpoint_action_reaches: "endpoint_action q B D a \<Longrightarrow> B \<subseteq> A \<Longrightarrow> reaches A P S a"
  by (cases a) auto

lemma permitted_reaches: "permitted t wire D a \<Longrightarrow> reaches (table_sockets t) P S a"
  using endpoint_action_reaches [OF _ request_sockets_table] request_sockets_table [of t wire]
  by (cases a) (auto simp: permitted_def split: result.splits)

section \<open>A UDP worker\<close>

lemma permitted_log_reaches:
  "list_all (permitted t wire D) log \<Longrightarrow> list_all (reaches (table_sockets t) P S) log"
  by (erule list.pred_mono_strong) (rule permitted_reaches)

lemma udp_job_reaches:
  "udp_job_log t job log \<Longrightarrow> list_all (reaches (table_sockets t) {dg_peer job} S) log"
  by (auto simp: udp_job_log_def dest: permitted_log_reaches)

lemma list_all2_origin: "list_all2 P xs ys \<Longrightarrow> y \<in> set ys \<Longrightarrow> \<exists>x\<in>set xs. P x y"
  by (induction rule: list_all2_induct) auto

lemma udp_jobs_reach:
  assumes "cache_ok w" and "udp_jobs t jobs w = (r, v)"
  shows "\<exists>xs. performed v = performed w @ xs \<and> list_all (reaches (table_sockets t) (dg_peer ` set jobs) S) xs"
proof -
  obtain logs n where l: "performed v = performed w @ concat logs" "list_all2 (udp_job_log t) (take n jobs) logs"
    using udp_jobs_run [OF assms] by blast
  have "reaches (table_sockets t) (dg_peer ` set jobs) S a" if log: "log \<in> set logs" "a \<in> set log" for log a
  proof -
    obtain job where "job \<in> set jobs" "udp_job_log t job log"
      using list_all2_origin [OF l(2) log(1)] in_set_takeD by fast
    then have "reaches (table_sockets t) {dg_peer job} S a" "job \<in> set jobs"
      using udp_job_reaches log(2) by (auto simp: list_all_iff)
    then show ?thesis by (cases a) auto
  qed
  then show ?thesis using l(1) by (auto simp: list_all_iff)
qed

section \<open>A TCP session\<close>

text \<open>Runs that keep the cache sound and perform only actions of \<open>R\<close>.\<close>

definition stays_at :: "(action \<Rightarrow> bool) \<Rightarrow> ('e, 'a) fwd \<Rightarrow> forwarder \<Rightarrow> bool" where
  "stays_at R m w \<longleftrightarrow> (cache_ok w \<longrightarrow> cache_ok (snd (m w))
     \<and> (\<exists>xs. performed (snd (m w)) = performed w @ xs \<and> list_all R xs))"

definition stays :: "(action \<Rightarrow> bool) \<Rightarrow> ('e, 'a) fwd \<Rightarrow> bool" where
  "stays R m \<longleftrightarrow> (\<forall>w. stays_at R m w)"

named_theorems staying "rules that show where runs stay"

lemma stays_at_bind:
  assumes m: "stays_at R m w" and f: "\<And>x v. m w = (Some (Ok x), v) \<Longrightarrow> stays_at R (f x) v"
  shows "stays_at R (io_bind m f) w"
proof (cases "\<exists>x. fst (m w) = Some (Ok x)")
  case True
  then obtain x v where "m w = (Some (Ok x), v)" by (metis prod.collapse)
  then show ?thesis using m f [of x v] by (fastforce simp: stays_at_def io_bind_def)
next
  case False
  then have "snd (io_bind m f w) = snd (m w)"
    by (auto simp: io_bind_def split: prod.splits option.splits result.splits)
  then show ?thesis using m by (simp add: stays_at_def)
qed

lemma staysD: "stays R m \<Longrightarrow> stays_at R m w"
  by (simp add: stays_def)

lemma stays_bind [staying]: "stays R m \<Longrightarrow> (\<And>x. stays R (f x)) \<Longrightarrow> stays R (io_bind m f)"
  by (simp add: stays_def stays_at_bind)

lemma stays_match [staying]:
  assumes m: "stays R m" and "\<And>x. stays R (f x)" and "\<And>e. stays R (g e)"
  shows "stays R (io_match m f g)"
  unfolding stays_def
proof
  fix w
  obtain r v where r: "m w = (r, v)" by fastforce
  consider x where "r = Some (Ok x)" | e where "r = Some (Err e)" | "r = None \<or> r = Some Panic"
    by (metis option.exhaust result.exhaust)
  then show "stays_at R (io_match m f g) w"
    using staysD [OF m, of w] staysD [OF assms(2), of _ v] staysD [OF assms(3), of _ v] r
    by cases (fastforce simp: stays_at_def io_match_def)+
qed

lemma stays_pure [staying]: "stays R (io_ok x)" "stays R (io_err e)"
  by (simp_all add: stays_def stays_at_def io_ok_def io_err_def)

lemma stays_observe [staying]: "stays R observe"
  by (auto simp: stays_def stays_at_def observe_def cache_ok_def split: list.split)

lemma stays_calls [staying]:
  "stays R load_stop" "stays R (deadline_after d)" "stays R (capped dl d)" "stays R syscall"
  unfolding load_stop_def deadline_after_def capped_def now_def syscall_def
  by (auto intro!: staying split: io_outcome.split)

lemma stays_warn [staying]: "stays (reaches A P S) (warn m)"
  by (auto simp: stays_def stays_at_def warn_def perform_def cache_ok_def)

lemma snd_infallible: "snd (infallible m w) = snd (m w)"
  by (auto simp: infallible_def io_match_def io_ok_def split: prod.splits option.splits result.splits)

lemma stays_infallible [staying]: "stays R m \<Longrightarrow> stays R (infallible m)"
  by (simp add: stays_def stays_at_def snd_infallible)

lemma adds_stays:
  assumes "\<And>w. wp m (\<lambda>_. adds R w) (\<lambda>_. adds R w) (adds R w) w"
  shows "stays R m"
  unfolding stays_def
proof
  fix w
  obtain r v where r: "m w = (r, v)" by fastforce
  have "adds R w v"
    using assms [of w] r by (auto simp: wp_def split: option.splits result.splits)
  then show "stays_at R m w" using r adds_cache [of R w v] by (auto simp: stays_at_def adds_def)
qed

lemma stays_frames [staying]:
  "stays (reaches A P {s}) (read_frame s dl)" "stays (reaches A P {s}) (write_frame s wire dl)"
  by (rule adds_stays, rule read_frame_adds, simp) (rule adds_stays, rule write_frame_adds, simp)

lemma stays_respond [staying]: "stays (reaches (table_sockets t) P S) (respond t wire tr dl)"
  unfolding stays_def
proof
  fix w
  obtain r v where r: "respond t wire tr dl w = (r, v)" by fastforce
  show "stays_at (reaches (table_sockets t) P S) (respond t wire tr dl) w"
    using respond_request(1,2) [OF _ r] r
    by (auto simp: stays_at_def dest: permitted_log_reaches)
qed

lemma stays_serve_frame [staying]: "stays (reaches (table_sockets t) P {s}) (serve_frame t s wire)"
  unfolding serve_frame_def by (intro staying) (auto intro!: staying split: option.split)

lemma stays_at_serve_loop: "stays_at (reaches (table_sockets t) P {s}) (serve_loop t s dl) w"
proof (induction w arbitrary: dl rule: measure_induct_rule [where f = left])
  case (less w)
  show ?case
    by (subst serve_loop_eq)
      (auto intro!: stays_at_bind staysD [OF stays_calls(1)] staysD [OF stays_pure(1)] staysD [OF stays_frames(1)]
        staysD [OF stays_serve_frame] less.IH split: option.split
        dest!: load_stop_left orderly_left [OF ord_frames(1)] orderly_left [OF ord_serve_frame])
qed

lemma stays_tcp_handle: "stays (reaches (table_sockets t) P {conn_stream job}) (tcp_handle t job)"
proof -
  have "stays (reaches (table_sockets t) P {conn_stream job}) (serve_loop t (conn_stream job) dl)" for dl
    by (simp add: stays_def stays_at_serve_loop)
  then show ?thesis unfolding tcp_handle_def serve_tcp_def by (auto intro!: staying)
qed

end
