(* ===== verification/Spec2Isabelle.thy ===== *)
theory Spec2Isabelle
  imports Entry Stopping Delivery Reach
begin

text \<open>
  A verification library for \<^bold>\<open>sederial\<close>, a forwarding DNS server in Rust. All file names below are
  relative to \<^verbatim>\<open>src/\<close>, the crate root is \<^verbatim>\<open>src/src/\<close>.

  \<^bold>\<open>The program.\<close> \<^verbatim>\<open>main.rs\<close> reads the command line, loads a TOML configuration (\<^verbatim>\<open>config.rs\<close>) into a
  routing table (\<^verbatim>\<open>routing.rs\<close>), logs what it will do (\<^verbatim>\<open>logging.rs\<close>), registers its signals and
  runs the service (\<^verbatim>\<open>server.rs\<close>): one UDP and one TCP listener, each in front of a bounded worker
  pool (\<^verbatim>\<open>server/pool.rs\<close>). A worker hands each message to the request handler (\<^verbatim>\<open>forwarding.rs\<close>),
  which parses and validates it (\<^verbatim>\<open>dns/\<close>), answers it locally or asks the servers of the selected
  group (\<^verbatim>\<open>upstream.rs\<close>) over UDP or TCP (\<^verbatim>\<open>transport.rs\<close>), and relays the correlated answer.

  \<^bold>\<open>Theories.\<close> In the order of their imports, with the sources they translate:

  \<^item> \<open>Prelude\<close>: words, Rust outcomes (\<open>Ok\<close>, \<open>Err\<close>, \<open>Panic\<close>), slice access that panics out of range,
    big-endian fields, and \<open>step_invariant\<close>, the contract of an invariant of a step relation.
  \<^item> \<open>Dns_Types\<close> (\<^verbatim>\<open>dns.rs\<close>, \<^verbatim>\<open>dns/types.rs\<close>, \<^verbatim>\<open>dns/error.rs\<close>): codes of header fields, records and
    questions; each conversion pair interprets \<open>wire_code\<close>.
  \<^item> \<open>Dns_Name\<close> (\<^verbatim>\<open>dns/name.rs\<close>): decoding with compression, encoding, the suffix order, the text form.
    Decoding is sound and total, inverts encoding, and the text form is a round trip.
  \<^item> \<open>Dns_Message\<close> (\<^verbatim>\<open>dns/message.rs\<close>), \<open>Dns_Cookie\<close> (\<^verbatim>\<open>dns/cookie.rs\<close>): headers, packets, the decision on
    a client query, correlation of responses, the COOKIE option and its retry.
  \<^item> \<open>Dns_Parser\<close> (\<^verbatim>\<open>dns/parser.rs\<close>): the bounded reader and the structural check of a message. Every
    reader interprets \<open>wire_reader\<close>: it is total and moves forward inside the message.
  \<^item> \<open>Dns_Reply\<close> (\<^verbatim>\<open>dns/reply.rs\<close>), \<open>Dns_Relay\<close>, \<open>Dns_Query\<close> (\<^verbatim>\<open>dns/message.rs\<close>): local, error and
    truncated replies parse to what they should say; rewriting the id keeps the rest of a message,
    since no reader of \<open>body_reader\<close> looks at the first two bytes; what is sent for a query.
  \<^item> \<open>Routing\<close> (\<^verbatim>\<open>routing.rs\<close>): endpoints, groups and the table; selection refines the policy of
    the longest matching suffix, proved once in \<open>suffix_table\<close> for both kinds of rules.
  \<^item> \<open>Net_Parse\<close>, \<open>Config\<close> (\<^verbatim>\<open>config.rs\<close>): addresses as the standard library reads them, and the
    loader with all its checks.
  \<^item> \<open>Runtime\<close>: the environment of the stateful modules, weakest preconditions, and \<open>run_policy\<close>, the
    contract of a restriction on what a module may do. \<open>Transport\<close> (\<^verbatim>\<open>transport.rs\<close>): deadlines and
    frames. \<open>Upstream\<close> (\<^verbatim>\<open>upstream.rs\<close>): the forwarder with its cached connection; its
    \<open>exchange_policy\<close> extends \<open>run_policy\<close>. \<open>Forwarding\<close> (\<^verbatim>\<open>forwarding.rs\<close>): the handler.
  \<^item> \<open>Composition\<close>: a run appends to the log and never reads it, so what is proved of one request
    from an empty log holds of every request in a worker's life (\<open>respond_request\<close>); confinement,
    replies and RA for all of them.
  \<^item> \<open>Failover\<close>, \<open>Delivery\<close> (\<^verbatim>\<open>upstream.rs\<close>): \<open>failover\<close> is the policy of a group as a relation between
    its servers, the warnings and the outcome, and the forwarder refines it; a response is
    returned only for a message that is in the log of the same run.
  \<^item> \<open>Settling\<close>, \<open>Stopping\<close>: requests end after their deadline, and jobs end after a stop.
  \<^item> \<open>Pool\<close> (\<^verbatim>\<open>server/pool.rs\<close>): queue, workers and shutdown as an interleaving transition system.
    \<open>Server\<close>, \<open>Listeners\<close> (\<^verbatim>\<open>server.rs\<close>): the two workers, the TCP session, both listeners over their
    pools (\<open>intake\<close>, interpreted for both), binding and the result of the service. \<open>Reach\<close>: where the
    traffic of a worker goes over its whole life.
  \<^item> \<open>Logging\<close> (\<^verbatim>\<open>logging.rs\<close>): the warning window, the two lanes and the writer thread.
    \<open>Entry\<close> (\<^verbatim>\<open>main.rs\<close>): command line, start-up, exit status, and the program as a whole: what a
    run that exits with status 0 has done.
  \<^item> this theory: what configuration and forwarding give together.

  \<^bold>\<open>The environment.\<close> A stateful run is a function of an \<open>env\<close> record. Its \<open>script\<close> is the finite list of
  what the run will see: each clock reading, load of the stop flag and system call takes one
  observation, which may show any time, flag and outcome (bytes of any length, or any error kind).
  A theorem over all scripts is therefore a theorem over all behaviours of clock, network, peers
  and kernel. A run that needs an observation when none is left has the value \<open>None\<close>: it is still
  waiting, and its \<open>performed\<close> log shows what it has done so far, so that statements about the log
  hold at every point of every execution, including those that never end. Clocks are natural
  numbers of nanoseconds and are not assumed to be monotone.

  \<^bold>\<open>Termination.\<close> No definition uses fuel. Parsing loops terminate by the distance to the end of the
  message or by descending pointers; loops that do I/O terminate in the length of the script. That
  the real loops end is a statement about the environment: \<open>respond_returns\<close> shows that 49
  observations past the deadline are enough for any request, \<open>jobs_end_on_stop\<close> that 54
  observations of the stop flag are enough for any session; the numbers are those of the longest
  path between two checks, counted in \<open>Settling\<close>. Workers, listeners and the log writer are step
  relations, with bounds on the number of their own steps after a stop.

  \<^bold>\<open>Threads.\<close> The steps of the pool are the critical sections of its lock, those of the logger the
  operations on its channels, interleaved in any order; a stop may be requested at any point.
  Within a job a worker runs alone: its forwarder is its own, and it shares with others only the
  routing table, which is constant, and the stop flag, which is an observation.

  \<^bold>\<open>Parameters.\<close> Code that is not in the repository is an argument: the \<^verbatim>\<open>toml\<close> crate is the function
  \<open>toml_parse\<close>, the configuration file is the outcome of a bounded read, the texts of errors are
  functions that show them. Nothing is assumed of them.

  \<^bold>\<open>Not modelled.\<close> The kernel's socket state beyond the outcomes of calls; the creation of threads
  and the wake-up connection of the listener, which appear through their outcomes; notifications
  of the pool's condition variable, which only shorten a wait; the bounded wait when the logger is
  dropped, which changes no state; opening the entropy source (its bytes are observations, read as
  on a little-endian target); the texts of help, version and error messages, which are data here;
  \<^verbatim>\<open>Debug\<close> and \<^verbatim>\<open>Display\<close> instances of errors; the tests.
\<close>

section \<open>Configuration and forwarding\<close>

lemma config_sockets_safe:
  assumes "config_load toml_parse read_prefix = Ok c" and "s \<in> table_sockets (config_routing c)"
  shows "\<not> same_endpoint s (config_listen c)"
proof -
  have "config_safe c"
    using assms(1) config_parse_Ok by (auto simp: config_load_def split: sum.splits if_splits)
  then show ?thesis
    using assms(2) by (fastforce simp: config_safe_def group_safe_def sockets_def table_sockets_def)
qed

lemma reaches_aim:
  "reaches A P S a \<Longrightarrow> aimed_at a = Some s \<Longrightarrow> s \<in> A \<or> s \<in> P
     \<or> (\<exists>stream\<in>S. s = stream_peer stream \<and> (\<exists>bytes c. a = Act_Read stream bytes \<or> a = Act_Write stream bytes c))"
  by (cases a) auto


text \<open>The query that is sent to the server of the sample configuration.\<close>

lemma sample_worker_sends:
  "performed (snd (udp_jobs sample_table [sample_datagram] (idle [tick, tick, tick, tick, tick, tick, tick, tick])))
   = [Act_Udp sample_server ([7, 7] @ drop 2 sample_wire) (Some 0)]"
proof -
  let ?w = "idle [tick, tick, tick, tick, tick, tick, tick, tick]"
  have "maintain ?w = (Some (Ok ()), ?w)"
    by (simp add: maintain_def infallible_def expire_idle_def run_simps idle_def)
  then show ?thesis
    using sample_sends by (cases "respond sample_table sample_wire Udp (Deadline 5000000000) ?w")
      (simp add: udp_handle_def sample_datagram_def infallible_def io_bind_def io_match_def)
qed


end
